(* ===== verification/Py_Strings.thy ===== *)
theory Py_Strings
  imports Drift_Prelude
begin

text \<open>
  Strings as the code uses them: \<open>str.split\<close>, \<open>str.join\<close>, \<open>str.strip\<close>,
  \<open>str.isdigit\<close>, \<open>int(s)\<close> and decimal formatting, over ASCII strings, and the
  universal value type \<open>pyval\<close> of the msgpack metadata exchanged by peers.
\<close>

section \<open>Splitting and joining\<close>

fun split_on :: "char \<Rightarrow> string \<Rightarrow> string list" where
  "split_on c [] = [[]]"
| "split_on c (x # xs) =
     (if x = c then [] # split_on c xs
      else (case split_on c xs of [] \<Rightarrow> [[x]] | y # ys \<Rightarrow> (x # y) # ys))"

fun join_on :: "char \<Rightarrow> string list \<Rightarrow> string" where
  "join_on c [] = []"
| "join_on c [x] = x"
| "join_on c (x # y # ys) = x @ c # join_on c (y # ys)"

lemma split_on_not_Nil [simp]: "split_on c s \<noteq> []"
  by (induction s) (auto split: list.splits)

lemma join_split: "join_on c (split_on c s) = s"
proof (induction s)
  case Nil
  then show ?case by simp
next
  case (Cons x xs)
  obtain y ys where ys: "split_on c xs = y # ys"
    using split_on_not_Nil [of c xs] by (cases "split_on c xs") auto
  then show ?case using Cons by (cases ys) auto
qed

lemma split_on_absent: "c \<notin> set s \<Longrightarrow> split_on c s = [s]"
  by (induction s) auto

lemma split_on_append: "c \<notin> set s \<Longrightarrow> split_on c (s @ c # t) = s # split_on c t"
  by (induction s) auto

lemma split_join:
  "xs \<noteq> [] \<Longrightarrow> (\<forall>x \<in> set xs. c \<notin> set x) \<Longrightarrow> split_on c (join_on c xs) = xs"
  by (induction c xs rule: join_on.induct) (auto simp: split_on_absent split_on_append)

lemma split_on_parts: "x \<in> set (split_on c s) \<Longrightarrow> c \<notin> set x"
  by (induction s arbitrary: x) (auto split: if_splits list.splits)

section \<open>Characters, stripping\<close>

definition is_space :: "char \<Rightarrow> bool" where
  "is_space c = (let n = (of_char c :: nat)
     in n = 32 \<or> (9 \<le> n \<and> n \<le> 13) \<or> (28 \<le> n \<and> n \<le> 31))"

definition strip :: "string \<Rightarrow> string" where
  "strip s = rev (dropWhile is_space (rev (dropWhile is_space s)))"

definition is_digit :: "char \<Rightarrow> bool" where
  "is_digit c = (let n = (of_char c :: nat) in 48 \<le> n \<and> n \<le> 57)"

definition digit_value :: "char \<Rightarrow> nat" where
  "digit_value c = of_char c - 48"

definition isdigit :: "string \<Rightarrow> bool" where
  "isdigit s = (s \<noteq> [] \<and> list_all is_digit s)"

definition lower_char :: "char \<Rightarrow> char" where
  "lower_char c = (let n = (of_char c :: nat)
     in if 65 \<le> n \<and> n \<le> 90 then char_of (n + 32) else c)"

definition lower :: "string \<Rightarrow> string" where
  "lower s = map lower_char s"

lemma strip_id:
  assumes "s \<noteq> [] \<Longrightarrow> \<not> is_space (hd s) \<and> \<not> is_space (last s)"
  shows "strip s = s"
proof (cases s)
  case Nil
  then show ?thesis by (simp add: strip_def)
next
  case (Cons x xs)
  with assms have h: "\<not> is_space x" "\<not> is_space (last s)" by auto
  then have "dropWhile is_space s = s" using Cons by simp
  moreover have "rev s = last s # rev (butlast s)"
    using Cons by (metis append_butlast_last_id list.distinct(1) rev_append rev_singleton_conv append_Cons append_Nil)
  ultimately show ?thesis using h(2) by (metis dropWhile.simps(2) rev_rev_ident strip_def)
qed

lemma strip_no_space: "\<forall>c \<in> set s. \<not> is_space c \<Longrightarrow> strip s = s"
  by (rule strip_id) auto

section \<open>Decimal numerals\<close>

fun show_nat :: "nat \<Rightarrow> string" where
  "show_nat n =
     (if n < 10 then [char_of (48 + n)] else show_nat (n div 10) @ [char_of (48 + n mod 10)])"

declare show_nat.simps [simp del]

fun digits_val :: "bool \<Rightarrow> nat \<Rightarrow> string \<Rightarrow> nat option" where
  "digits_val prev acc [] = (if prev then Some acc else None)"
| "digits_val prev acc (c # cs) =
     (if is_digit c then digits_val True (acc * 10 + digit_value c) cs
      else if c = CHR ''_'' \<and> prev then digits_val False acc cs
      else None)"

text \<open>\<open>int(s)\<close>: surrounding whitespace, a sign, digits with single underscores.\<close>

definition py_int :: "string \<Rightarrow> int res" where
  "py_int s =
     (let t = strip s;
          (sg, ds) = (case t of
             [] \<Rightarrow> (1, [])
           | c # cs \<Rightarrow> if c = CHR ''-'' then (-1, cs) else if c = CHR ''+'' then (1, cs) else (1, t))
      in case digits_val False 0 ds of None \<Rightarrow> Inl ValueError | Some n \<Rightarrow> Inr (sg * int n))"

lemma is_digit_char_of [simp]: "d < 10 \<Longrightarrow> is_digit (char_of (48 + d :: nat))"
  by (simp add: is_digit_def Let_def)

lemma digit_value_char_of [simp]: "d < 10 \<Longrightarrow> digit_value (char_of (48 + d :: nat)) = d"
  by (simp add: digit_value_def)

lemma show_nat_digits: "\<forall>c \<in> set (show_nat n). is_digit c"
proof (induction n rule: show_nat.induct)
  case (1 n)
  then show ?case by (cases "n < 10") (auto simp: show_nat.simps [of n])
qed

lemma show_nat_not_Nil [simp]: "show_nat n \<noteq> []"
  by (subst show_nat.simps) simp

lemma isdigit_show_nat [simp]: "isdigit (show_nat n)"
  using show_nat_digits [of n] by (simp add: isdigit_def list_all_iff)

lemma digits_val_show_nat:
  "digits_val p acc (show_nat n @ cs) = digits_val True (acc * 10 ^ length (show_nat n) + n) cs"
proof (induction n arbitrary: cs rule: show_nat.induct)
  case (1 n)
  show ?case
  proof (cases "n < 10")
    case True
    then show ?thesis by (simp add: show_nat.simps [of n])
  next
    case False
    have "n div 10 * 10 + n mod 10 = n" by simp
    with False show ?thesis
      by (simp add: show_nat.simps [of n] "1.IH" algebra_simps)
  qed
qed

lemma digits_val_show_nat' [simp]: "digits_val p 0 (show_nat n) = Some n"
  using digits_val_show_nat [of p 0 n "[]"] by simp

lemma digit_no_space: "is_digit c \<Longrightarrow> \<not> is_space c"
  by (auto simp: is_digit_def is_space_def Let_def)

lemma digit_not_punct:
  "is_digit c \<Longrightarrow> c \<noteq> CHR ''.'' \<and> c \<noteq> CHR '' '' \<and> c \<noteq> CHR ''-'' \<and> c \<noteq> CHR ''+''
     \<and> c \<noteq> CHR ''/'' \<and> c \<noteq> CHR '':'' \<and> c \<noteq> CHR ''@'' \<and> c \<noteq> CHR ''['' \<and> c \<noteq> CHR '']''"
  by (auto simp: is_digit_def Let_def)

lemma show_nat_no_punct:
  "CHR ''.'' \<notin> set (show_nat n)" "CHR '' '' \<notin> set (show_nat n)"
  using show_nat_digits [of n] digit_not_punct by blast+

lemma py_int_show_nat: "py_int (show_nat n) = Inr (int n)"
proof -
  have s: "strip (show_nat n) = show_nat n"
    using show_nat_digits digit_no_space by (intro strip_no_space) blast
  obtain c cs where c: "show_nat n = c # cs"
    using show_nat_not_Nil [of n] by (cases "show_nat n") auto
  then have "is_digit c" using show_nat_digits [of n] by simp
  then have "c \<noteq> CHR ''-''" "c \<noteq> CHR ''+''" using digit_not_punct by auto
  then show ?thesis using s c digits_val_show_nat' [of False n]
    by (simp add: py_int_def Let_def)
qed

text \<open>An integer in an f-string.\<close>

definition show_int :: "int \<Rightarrow> string" where
  "show_int i = (if i < 0 then CHR ''-'' # show_nat (nat (- i)) else show_nat (nat i))"

section \<open>Searching\<close>

text \<open>\<open>p in s\<close> and \<open>s.find(p)\<close>.\<close>

fun occurs_in :: "string \<Rightarrow> string \<Rightarrow> bool" where
  "occurs_in p [] \<longleftrightarrow> p = []"
| "occurs_in p (c # cs) \<longleftrightarrow> take (length p) (c # cs) = p \<or> occurs_in p cs"

fun find_str :: "string \<Rightarrow> string \<Rightarrow> nat option" where
  "find_str p [] = (if p = [] then Some 0 else None)"
| "find_str p (c # cs) = (if take (length p) (c # cs) = p then Some 0 else map_option Suc (find_str p cs))"

lemma find_str_None_iff: "find_str p s = None \<longleftrightarrow> \<not> occurs_in p s"
  by (induction s) auto

lemma find_str_le: "find_str p s = Some i \<Longrightarrow> i \<le> length s"
  by (induction s arbitrary: i) (auto split: if_splits)

lemma occurs_in_prefix: "occurs_in p s \<Longrightarrow> occurs_in p (s @ t)"
proof (induction s)
  case Nil
  then show ?case by (cases t) auto
next
  case (Cons c cs)
  show ?case
  proof (cases "occurs_in p cs")
    case False
    then have "take (length p) (c # cs) = p" using Cons.prems by simp
    then have "take (length p) ((c # cs) @ t) = p" by (metis append_eq_conv_conj append_take_drop_id append.assoc)
    then show ?thesis by simp
  qed (use Cons.IH in simp)
qed

lemma find_str_at: "find_str p s = Some i \<Longrightarrow> \<exists>rest. drop i s = p @ rest"
proof (induction s arbitrary: i)
  case (Cons c cs)
  show ?case
  proof (cases "take (length p) (c # cs) = p")
    case True
    then have "i = 0" using Cons.prems by simp
    then show ?thesis using True append_take_drop_id [of "length p" "c # cs"] by (metis drop0)
  next
    case False
    then obtain j where "find_str p cs = Some j" "i = Suc j" using Cons.prems by auto
    then show ?thesis using Cons.IH by simp
  qed
qed (simp split: if_splits)

lemma find_str_first: "find_str p s = Some i \<Longrightarrow> p \<noteq> [] \<Longrightarrow> \<not> occurs_in p (take i s)"
proof (induction s arbitrary: i)
  case (Cons c cs)
  then consider j where "take (length p) (c # cs) \<noteq> p" "find_str p cs = Some j" "i = Suc j" | "i = 0"
    by (auto split: if_splits)
  then show ?case
  proof cases
    case 1
    have "take (length p) (c # take j cs) \<noteq> p"
    proof
      assume eq: "take (length p) (c # take j cs) = p"
      then have "length p \<le> Suc (length (take j cs))" by (metis length_Cons length_take min.cobounded1)
      then have "take (length p) (c # cs) = take (length p) (c # take j cs)"
        by (cases p) (simp_all add: min.absorb1)
      then show False using 1(1) eq by simp
    qed
    then show ?thesis using 1 Cons.IH [OF 1(2)] Cons.prems(2) by simp
  qed (use Cons.prems in simp)
qed (auto split: if_splits)

section \<open>Metadata values\<close>

datatype pyval =
    VNone
  | VBool bool
  | VInt int
  | VFloat rat
  | VInf
  | VNaN
  | VStr string
  | VList "pyval list"
  | VDict "(string \<times> pyval) list"

text \<open>\<open>d.get(k)\<close> and \<open>d.get(k, default)\<close> on a metadata dictionary.\<close>

definition vget :: "(string \<times> pyval) list \<Rightarrow> string \<Rightarrow> pyval \<Rightarrow> pyval" where
  "vget d k dflt = (case map_of d k of None \<Rightarrow> dflt | Some v \<Rightarrow> v)"

fun truthy :: "pyval \<Rightarrow> bool" where
  "truthy VNone = False"
| "truthy (VBool b) = b"
| "truthy (VInt i) = (i \<noteq> 0)"
| "truthy (VFloat r) = (r \<noteq> 0)"
| "truthy VInf = True"
| "truthy VNaN = True"
| "truthy (VStr s) = (s \<noteq> [])"
| "truthy (VList xs) = (xs \<noteq> [])"
| "truthy (VDict d) = (d \<noteq> [])"

end
