(* ===== verification/Data_Structures.thy ===== *)
theory Data_Structures
  imports Py_Strings
begin

text \<open>
  Models \<open>src/drift/data_structures.py\<close>: module uids, server states, the server
  announcement (\<open>ServerInfo\<close>) with its wire form, and the spans of blocks the
  routing works on. Peer ids are their base58 strings (hivemind orders them so).
  Pydantic's strict fields are written out; its coercing fields (\<open>str\<close>, \<open>bool\<close>,
  sequences and mappings) are library code, the record \<open>coercions\<close>.
\<close>

type_synonym module_uid = string
type_synonym peer_id = string
type_synonym handle = int

section \<open>Module uids\<close>

definition UID_DELIMITER :: char where
  "UID_DELIMITER = CHR ''.''"

definition CHAIN_DELIMITER :: char where
  "CHAIN_DELIMITER = CHR '' ''"

definition parse_uid :: "module_uid \<Rightarrow> (string \<times> int) res" where
  "parse_uid uid =
     rbind (rassert (CHAIN_DELIMITER \<notin> set uid) AssertionError) (\<lambda>_.
       case split_on UID_DELIMITER uid of
         [dht_prefix, index] \<Rightarrow> rbind (py_int index) (\<lambda>i. Inr (dht_prefix, i))
       | _ \<Rightarrow> Inl ValueError)"

text \<open>The uid of block \<open>i\<close>, \<open>f"{dht_prefix}{UID_DELIMITER}{i}"\<close>.\<close>

definition block_uid :: "string \<Rightarrow> nat \<Rightarrow> module_uid" where
  "block_uid dht_prefix i = dht_prefix @ UID_DELIMITER # show_nat i"

section \<open>Models and servers\<close>

record model_info =
  mi_num_blocks :: int
  mi_repository :: "string option"

definition model_info_to_dict :: "model_info \<Rightarrow> (string \<times> pyval) list" where
  "model_info_to_dict m =
     [(''num_blocks'', VInt (mi_num_blocks m)),
      (''repository'', (case mi_repository m of None \<Rightarrow> VNone | Some r \<Rightarrow> VStr r))]"

definition model_info_from_dict ::
  "(pyval \<Rightarrow> string option) \<Rightarrow> (string \<times> pyval) list \<Rightarrow> model_info res" where
  "model_info_from_dict co_str_field d =
     (case map_of d ''num_blocks'' of
        None \<Rightarrow> Inl TypeError
      | Some (VInt n) \<Rightarrow>
          if n < 1 then Inl ValueError
          else (case vget d ''repository'' VNone of
                  VNone \<Rightarrow> Inr \<lparr>mi_num_blocks = n, mi_repository = None\<rparr>
                | v \<Rightarrow> (case co_str_field v of
                          None \<Rightarrow> Inl ValueError
                        | Some r \<Rightarrow> Inr \<lparr>mi_num_blocks = n, mi_repository = Some r\<rparr>))
      | Some _ \<Rightarrow> Inl ValueError)"

datatype server_state = OFFLINE | JOINING | ONLINE

fun state_value :: "server_state \<Rightarrow> int" where
  "state_value OFFLINE = 0"
| "state_value JOINING = 1"
| "state_value ONLINE = 2"

text \<open>\<open>ServerState(v)\<close>: look up by value; numbers compare equal across types.\<close>

definition state_of_int :: "int \<Rightarrow> server_state res" where
  "state_of_int i = (if i = 0 then Inr OFFLINE else if i = 1 then Inr JOINING
     else if i = 2 then Inr ONLINE else Inl ValueError)"

fun server_state_of :: "pyval \<Rightarrow> server_state res" where
  "server_state_of (VInt i) = state_of_int i"
| "server_state_of (VBool b) = state_of_int (if b then 1 else 0)"
| "server_state_of (VFloat r) = (if r = 0 then Inr OFFLINE else if r = 1 then Inr JOINING
     else if r = 2 then Inr ONLINE else Inl ValueError)"
| "server_state_of _ = Inl ValueError"

datatype ping = Ping rat | PingInf

record server_info =
  si_state :: server_state
  si_throughput :: rat
  si_start_block :: "int option"
  si_end_block :: "int option"
  si_public_name :: "string option"
  si_version :: "string option"
  si_network_rps :: "rat option"
  si_forward_rps :: "rat option"
  si_inference_rps :: "rat option"
  si_adapters :: "string list"
  si_torch_dtype :: "string option"
  si_quant_type :: "string option"
  si_using_relay :: "bool option"
  si_cache_tokens_left :: "int option"
  si_next_pings :: "(string, ping) dict option"

record coercions =
  co_str :: "pyval \<Rightarrow> string option"
  co_bool :: "pyval \<Rightarrow> bool option"
  co_strs :: "pyval \<Rightarrow> string list option"
  co_dict :: "pyval \<Rightarrow> (string \<times> pyval) list option"

subsection \<open>The wire form\<close>

definition opt_val :: "('a \<Rightarrow> pyval) \<Rightarrow> 'a option \<Rightarrow> pyval" where
  "opt_val f x = (case x of None \<Rightarrow> VNone | Some y \<Rightarrow> f y)"

fun ping_val :: "ping \<Rightarrow> pyval" where
  "ping_val (Ping r) = VFloat r"
| "ping_val PingInf = VInf"

definition to_tuple :: "server_info \<Rightarrow> pyval" where
  "to_tuple s =
     VList [VInt (state_value (si_state s)), VFloat (si_throughput s),
       VDict
         [(''start_block'', opt_val VInt (si_start_block s)),
          (''end_block'', opt_val VInt (si_end_block s)),
          (''public_name'', opt_val VStr (si_public_name s)),
          (''version'', opt_val VStr (si_version s)),
          (''network_rps'', opt_val VFloat (si_network_rps s)),
          (''forward_rps'', opt_val VFloat (si_forward_rps s)),
          (''inference_rps'', opt_val VFloat (si_inference_rps s)),
          (''adapters'', VList (map VStr (si_adapters s))),
          (''torch_dtype'', opt_val VStr (si_torch_dtype s)),
          (''quant_type'', opt_val VStr (si_quant_type s)),
          (''using_relay'', opt_val VBool (si_using_relay s)),
          (''cache_tokens_left'', opt_val VInt (si_cache_tokens_left s)),
          (''next_pings'', opt_val (\<lambda>d. VDict (map (\<lambda>(k, v). (k, ping_val v)) d)) (si_next_pings s))]]"

text \<open>
  Field validation. \<open>conint(ge=0, strict=True)\<close> takes an \<open>int\<close> only, \<open>RPS\<close> a finite
  non-negative \<open>float\<close>, a ping a non-negative \<open>float\<close> that may be infinite.
\<close>

fun val_conint :: "pyval \<Rightarrow> int res" where
  "val_conint (VInt i) = (if 0 \<le> i then Inr i else Inl ValueError)"
| "val_conint _ = Inl ValueError"

fun val_rps :: "pyval \<Rightarrow> rat res" where
  "val_rps (VFloat r) = (if 0 \<le> r then Inr r else Inl ValueError)"
| "val_rps _ = Inl ValueError"

fun val_ping :: "pyval \<Rightarrow> ping res" where
  "val_ping (VFloat r) = (if 0 \<le> r then Inr (Ping r) else Inl ValueError)"
| "val_ping VInf = Inr PingInf"
| "val_ping _ = Inl ValueError"

definition val_coerce :: "(pyval \<Rightarrow> 'a option) \<Rightarrow> pyval \<Rightarrow> 'a res" where
  "val_coerce f v = (case f v of None \<Rightarrow> Inl ValueError | Some x \<Rightarrow> Inr x)"

definition val_pings :: "coercions \<Rightarrow> pyval \<Rightarrow> (string, ping) dict res" where
  "val_pings C v = rbind (val_coerce (co_dict C) v)
     (rmap (\<lambda>(k, w). rbind (val_ping w) (\<lambda>p. Inr (k, p))))"

definition val_optional :: "(pyval \<Rightarrow> 'a res) \<Rightarrow> pyval \<Rightarrow> 'a option res" where
  "val_optional f v = (case v of VNone \<Rightarrow> Inr None | _ \<Rightarrow> rbind (f v) (\<lambda>x. Inr (Some x)))"

text \<open>Unknown keys are ignored, missing ones take the default.\<close>

definition info_of_fields :: "coercions \<Rightarrow> server_state \<Rightarrow> pyval \<Rightarrow> (string \<times> pyval) list \<Rightarrow> server_info res" where
  "info_of_fields C st th d =
    (let fld = (\<lambda>k. vget d k VNone) in
     rbind (val_rps th) (\<lambda>thr.
     rbind (val_optional val_conint (fld ''start_block'')) (\<lambda>sb.
     rbind (val_optional val_conint (fld ''end_block'')) (\<lambda>eb.
     rbind (val_optional (val_coerce (co_str C)) (fld ''public_name'')) (\<lambda>pn.
     rbind (val_optional (val_coerce (co_str C)) (fld ''version'')) (\<lambda>ver.
     rbind (val_optional val_rps (fld ''network_rps'')) (\<lambda>nr.
     rbind (val_optional val_rps (fld ''forward_rps'')) (\<lambda>fr.
     rbind (val_optional val_rps (fld ''inference_rps'')) (\<lambda>ir.
     rbind (val_coerce (co_strs C) (vget d ''adapters'' (VList []))) (\<lambda>ad.
     rbind (val_optional (val_coerce (co_str C)) (fld ''torch_dtype'')) (\<lambda>td.
     rbind (val_optional (val_coerce (co_str C)) (fld ''quant_type'')) (\<lambda>qt.
     rbind (val_optional (val_coerce (co_bool C)) (fld ''using_relay'')) (\<lambda>ur.
     rbind (val_optional val_conint (fld ''cache_tokens_left'')) (\<lambda>ct.
     rbind (val_optional (val_pings C) (fld ''next_pings'')) (\<lambda>np.
       Inr \<lparr>si_state = st, si_throughput = thr, si_start_block = sb, si_end_block = eb,
            si_public_name = pn, si_version = ver, si_network_rps = nr, si_forward_rps = fr,
            si_inference_rps = ir, si_adapters = ad, si_torch_dtype = td, si_quant_type = qt,
            si_using_relay = ur, si_cache_tokens_left = ct, si_next_pings = np\<rparr>)))))))))))))))"

definition from_fields :: "coercions \<Rightarrow> pyval \<Rightarrow> pyval \<Rightarrow> pyval \<Rightarrow> server_info res" where
  "from_fields C st th extra =
     rbind (server_state_of st) (\<lambda>s.
       case extra of
         VDict d \<Rightarrow>
           if dict_has d ''state'' \<or> dict_has d ''throughput'' then Inl TypeError
           else info_of_fields C s th d
       | _ \<Rightarrow> Inl TypeError)"

fun from_tuple :: "coercions \<Rightarrow> pyval \<Rightarrow> server_info res" where
  "from_tuple C (VList (st # th # rest)) =
     from_fields C st th (case rest of [] \<Rightarrow> VDict [] | extra # _ \<Rightarrow> extra)"
| "from_tuple C (VList _) = Inl ValueError"
| "from_tuple C (VStr s) = Inl ValueError"
| "from_tuple C _ = Inl TypeError"

definition pings_nonneg :: "(string, ping) dict \<Rightarrow> bool" where
  "pings_nonneg d \<longleftrightarrow> (\<forall>k r. (k, Ping r) \<in> set d \<longrightarrow> 0 \<le> r)"

definition info_valid :: "server_info \<Rightarrow> bool" where
  "info_valid s \<longleftrightarrow> 0 \<le> si_throughput s
     \<and> (\<forall>x \<in> set_option (si_start_block s). 0 \<le> x)
     \<and> (\<forall>x \<in> set_option (si_end_block s). 0 \<le> x)
     \<and> (\<forall>x \<in> set_option (si_cache_tokens_left s). 0 \<le> x)
     \<and> (\<forall>x \<in> set_option (si_network_rps s). 0 \<le> x)
     \<and> (\<forall>x \<in> set_option (si_forward_rps s). 0 \<le> x)
     \<and> (\<forall>x \<in> set_option (si_inference_rps s). 0 \<le> x)
     \<and> (\<forall>d \<in> set_option (si_next_pings s). pings_nonneg d)"

text \<open>What the announcement codec relies on pydantic for: values of the right type pass.\<close>

definition coercions_ok :: "coercions \<Rightarrow> bool" where
  "coercions_ok C \<longleftrightarrow> (\<forall>s. co_str C (VStr s) = Some s) \<and> (\<forall>b. co_bool C (VBool b) = Some b)
     \<and> (\<forall>xs. co_strs C (VList (map VStr xs)) = Some xs) \<and> (\<forall>d. co_dict C (VDict d) = Some d)"

section \<open>Spans\<close>

record remote_module_info =
  rm_uid :: module_uid
  rm_servers :: "(peer_id, server_info) dict"

record remote_span =
  rs_peer_id :: peer_id
  rs_start :: int
  rs_end :: int
  rs_server_info :: server_info

definition span_length :: "remote_span \<Rightarrow> int" where
  "span_length s = rs_end s - rs_start s"

definition span_state :: "remote_span \<Rightarrow> server_state" where
  "span_state s = si_state (rs_server_info s)"

definition span_throughput :: "remote_span \<Rightarrow> rat" where
  "span_throughput s = si_throughput (rs_server_info s)"

section \<open>Properties\<close>

lemma model_info_round:
  assumes "1 \<le> mi_num_blocks m" "\<And>r. co (VStr r) = Some r"
  shows "model_info_from_dict co (model_info_to_dict m) = Inr m"
  using assms
  by (cases m) (auto simp: model_info_from_dict_def model_info_to_dict_def vget_def split: option.splits)

lemma uid_delimiters [simp]:
  "UID_DELIMITER \<noteq> CHAIN_DELIMITER" "CHAIN_DELIMITER \<noteq> UID_DELIMITER"
  by (simp_all add: UID_DELIMITER_def CHAIN_DELIMITER_def)

lemma delimiters_not_in_numeral [simp]:
  "UID_DELIMITER \<notin> set (show_nat n)" "CHAIN_DELIMITER \<notin> set (show_nat n)"
  using show_nat_no_punct by (simp_all add: UID_DELIMITER_def CHAIN_DELIMITER_def)

lemma parse_block_uid:
  assumes "UID_DELIMITER \<notin> set p" "CHAIN_DELIMITER \<notin> set p"
  shows "parse_uid (block_uid p i) = Inr (p, int i)"
  using assms
  by (simp add: parse_uid_def block_uid_def split_on_append split_on_absent py_int_show_nat)

lemma length_split_on: "length (split_on c s) = Suc (count_list s c)"
  by (induction s) (auto split: list.splits)

text \<open>A prefix that itself contains the delimiter makes the uid unparsable.\<close>

lemma parse_block_uid_dotted:
  assumes "UID_DELIMITER \<in> set p" "CHAIN_DELIMITER \<notin> set p"
  shows "parse_uid (block_uid p i) = Inl ValueError"
proof -
  have "count_list p UID_DELIMITER \<noteq> 0"
    using assms(1) by (simp add: count_list_0_iff)
  then have len: "length (split_on UID_DELIMITER (block_uid p i)) \<noteq> 2"
    by (simp add: length_split_on block_uid_def)
  have "CHAIN_DELIMITER \<notin> set (block_uid p i)"
    using assms(2) by (simp add: block_uid_def)
  with len show ?thesis
    by (auto simp: parse_uid_def split: list.splits)
qed

lemma state_value_inject [simp]: "state_value a = state_value b \<longleftrightarrow> a = b"
  by (cases a; cases b) auto

lemma state_value_range: "0 \<le> state_value s" "state_value s \<le> 2"
  by (cases s; simp)+

lemma state_of_int_value [simp]: "state_of_int (state_value s) = Inr s"
  by (cases s) (auto simp: state_of_int_def)

lemma val_optional_round:
  "(\<And>x. v = Some x \<Longrightarrow> f (g x) = Inr x \<and> g x \<noteq> VNone) \<Longrightarrow> val_optional f (opt_val g v) = Inr v"
  by (cases v) (auto simp: val_optional_def opt_val_def split: pyval.splits)

lemma val_pings_round:
  assumes "coercions_ok C" "pings_nonneg d"
  shows "val_pings C (VDict (map (\<lambda>(k, v). (k, ping_val v)) d)) = Inr d"
proof -
  have "rmap (\<lambda>(k, w). rbind (val_ping w) (\<lambda>p. Inr (k, p))) (map (\<lambda>(k, v). (k, ping_val v)) d) = Inr d"
    using assms(2)
  proof (induction d)
    case Nil
    then show ?case by simp
  next
    case (Cons a d)
    then show ?case by (cases a; cases "snd a") (auto simp: pings_nonneg_def)
  qed
  then show ?thesis using assms(1) by (simp add: val_pings_def val_coerce_def coercions_ok_def)
qed

lemma info_of_fields_round:
  assumes "coercions_ok C" "info_valid s"
  shows "from_tuple C (to_tuple s) = Inr s"
proof -
  have c: "\<And>x. co_str C (VStr x) = Some x" "\<And>x. co_bool C (VBool x) = Some x"
    "\<And>x. co_strs C (VList (map VStr x)) = Some x"
    using assms(1) by (auto simp: coercions_ok_def)
  have p: "\<And>d. si_next_pings s = Some d \<Longrightarrow>
      val_pings C (VDict (map (\<lambda>(k, v). (k, ping_val v)) d)) = Inr d"
    using assms by (intro val_pings_round) (auto simp: info_valid_def)
  show ?thesis
    using assms(2) p
    by (simp add: to_tuple_def from_fields_def info_of_fields_def vget_def dict_has_def
        val_optional_round val_coerce_def c info_valid_def Let_def)
qed

lemma val_rps_nonneg: "val_rps v = Inr r \<Longrightarrow> 0 \<le> r"
  by (cases v) (auto split: if_splits)

lemma val_conint_nonneg: "val_conint v = Inr r \<Longrightarrow> 0 \<le> r"
  by (cases v) (auto split: if_splits)

lemma val_ping_nonneg: "val_ping w = Inr (Ping r) \<Longrightarrow> 0 \<le> r"
  by (cases w) (auto split: if_splits)

lemma rmap_pings_nonneg:
  "rmap (\<lambda>(k, w). rbind (val_ping w) (\<lambda>p. Inr (k, p))) xs = Inr d \<Longrightarrow> pings_nonneg d"
  by (induction xs arbitrary: d) (fastforce simp: res_simps pings_nonneg_def val_ping_nonneg)+

lemma val_pings_nonneg: "val_pings C v = Inr d \<Longrightarrow> pings_nonneg d"
  by (auto simp: val_pings_def res_simps intro: rmap_pings_nonneg)

lemma val_optional_Some: "val_optional f v = Inr (Some x) \<Longrightarrow> f v = Inr x"
  by (auto simp: val_optional_def res_simps split: pyval.splits)

text \<open>Concrete values the witnesses of the development evaluate on.\<close>

definition sample_info :: "server_state \<Rightarrow> rat \<Rightarrow> server_info" where
  "sample_info st thr =
     \<lparr>si_state = st, si_throughput = thr, si_start_block = None, si_end_block = None,
      si_public_name = None, si_version = None, si_network_rps = None, si_forward_rps = None,
      si_inference_rps = Some 1, si_adapters = [], si_torch_dtype = None, si_quant_type = None,
      si_using_relay = None, si_cache_tokens_left = None, si_next_pings = None\<rparr>"

definition sample_coercions :: coercions where
  "sample_coercions =
     \<lparr>co_str = (\<lambda>v. case v of VStr s \<Rightarrow> Some s | _ \<Rightarrow> None),
      co_bool = (\<lambda>v. case v of VBool b \<Rightarrow> Some b | _ \<Rightarrow> None),
      co_strs = (\<lambda>v. case v of VList xs \<Rightarrow>
          those (map (\<lambda>w. case w of VStr s \<Rightarrow> Some s | _ \<Rightarrow> None) xs) | _ \<Rightarrow> None),
      co_dict = (\<lambda>v. case v of VDict d \<Rightarrow> Some d | _ \<Rightarrow> None)\<rparr>"

lemma sample_coercions_ok: "coercions_ok sample_coercions"
proof -
  have "those (map ((\<lambda>w. case w of VStr s \<Rightarrow> Some s | _ \<Rightarrow> None) \<circ> VStr) xs) = Some xs" for xs
    by (induction xs) auto
  then show ?thesis by (simp add: coercions_ok_def sample_coercions_def)
qed

lemma sample_info_fields [simp]:
  "si_state (sample_info st t) = st" "si_throughput (sample_info st t) = t"
  "si_start_block (sample_info st t) = None" "si_end_block (sample_info st t) = None"
  "si_inference_rps (sample_info st t) = Some 1" "si_cache_tokens_left (sample_info st t) = None"
  "si_next_pings (sample_info st t) = None" "si_network_rps (sample_info st t) = None"
  "si_forward_rps (sample_info st t) = None" "si_adapters (sample_info st t) = []"
  by (simp_all add: sample_info_def)

section \<open>Properties of the component\<close>

text \<open>C22. Announcements survive the wire: decoding the tuple a server stores in the DHT gives
  back exactly its \<open>ServerInfo\<close>, for every valid announcement.\<close>
theorem announcement_roundtrip:
  assumes "coercions_ok C" "info_valid s"
  shows "from_tuple C (to_tuple s) = Inr s"
  using assms by (rule info_of_fields_round)

theorem announcement_roundtrip_witness:
  "from_tuple sample_coercions (to_tuple (sample_info ONLINE 5)) = Inr (sample_info ONLINE 5)"
  by (rule announcement_roundtrip [OF sample_coercions_ok]) (simp add: info_valid_def)

text \<open>What is read from the DHT is safe to route with: every decoded announcement has
  non-negative throughput, rates, block hints and cache, whatever a peer stored there.\<close>
theorem announcement_validated:
  assumes "from_tuple C v = Inr s"
  shows "info_valid s"
proof -
  obtain st th extra where "from_fields C st th extra = Inr s"
    using assms by (cases "(C, v)" rule: from_tuple.cases) auto
  then obtain st' d where "info_of_fields C st' th d = Inr s"
    by (cases extra) (auto simp: from_fields_def res_simps split: if_splits)
  then show ?thesis
    by (auto simp: info_of_fields_def info_valid_def Let_def res_simps val_rps_nonneg
        dest!: val_optional_Some val_rps_nonneg val_conint_nonneg val_pings_nonneg)
qed

theorem announcement_validated_witness:
  "info_valid (sample_info JOINING 7)"
  by (rule announcement_validated [of sample_coercions "to_tuple (sample_info JOINING 7)"])
    (rule info_of_fields_round [OF sample_coercions_ok], simp add: info_valid_def)

text \<open>The uid of a block parses back to its prefix and index exactly when the prefix has
  no dot: a dotted prefix makes every uid of the model a \<open>ValueError\<close>.\<close>
theorem block_uid_parse_iff:
  assumes "CHAIN_DELIMITER \<notin> set p"
  shows "parse_uid (block_uid p i) =
    (if UID_DELIMITER \<in> set p then Inl ValueError else Inr (p, int i))"
  using assms by (simp add: parse_block_uid parse_block_uid_dotted)

theorem block_uid_parse_iff_witness:
  "parse_uid (block_uid ''llama-hf'' 12) = Inr (''llama-hf'', 12)"
  using block_uid_parse_iff [of "''llama-hf''" 12] by (simp add: CHAIN_DELIMITER_def UID_DELIMITER_def)

end
