(* ===== verification/Swarm_Dht.thy ===== *)
theory Swarm_Dht
  imports Data_Structures
begin

text \<open>
  Models \<open>src/drift/utils/dht.py\<close>: declaring the blocks a server holds, reading the
  announcements back, and \<open>compute_spans\<close>, which turns per-block announcements into
  one span of consecutive blocks per peer. The DHT node (hivemind) is the argument
  \<open>get_many\<close> / \<open>store_many\<close>; base58 decoding of peer ids is \<open>from_base58\<close>.
\<close>

section \<open>Declaring and reading announcements\<close>

datatype dht_entry = DhtDict "(string \<times> pyval) list" | DhtOther

datatype dht_time = DhtAt rat | DhtInfinity

definition num_dht_workers :: "nat option \<Rightarrow> nat \<Rightarrow> nat" where
  "num_dht_workers dht_workers n = (case dht_workers of None \<Rightarrow> n | Some w \<Rightarrow> min n w)"

definition uid_declarable :: "module_uid \<Rightarrow> bool" where
  "uid_declarable uid = (UID_DELIMITER \<in> set uid \<and> CHAIN_DELIMITER \<notin> set uid)"

definition declare_active_modules ::
  "(string list \<Rightarrow> string list \<Rightarrow> pyval list \<Rightarrow> dht_time \<Rightarrow> nat \<Rightarrow> 'r) \<Rightarrow> peer_id \<Rightarrow> nat option
   \<Rightarrow> module_uid + module_uid list \<Rightarrow> server_info \<Rightarrow> dht_time \<Rightarrow> 'r res" where
  "declare_active_modules store_many self_id workers uids info expiration =
    (let us = (case uids of Inl u \<Rightarrow> [u] | Inr xs \<Rightarrow> xs) in
     rbind (rassert (list_all uid_declarable us) AssertionError) (\<lambda>_.
       Inr (store_many us (replicate (length us) self_id) (replicate (length us) (to_tuple info))
              expiration (num_dht_workers workers (length us)))))"

text \<open>
  One peer entry: \<open>None\<close> when it is skipped (no such adapter, or a \<open>TypeError\<close> or
  \<open>ValueError\<close> while decoding), an error when another exception escapes.
\<close>

definition read_entry ::
  "coercions \<Rightarrow> (string \<Rightarrow> peer_id res) \<Rightarrow> string option \<Rightarrow> string \<times> pyval
   \<Rightarrow> (peer_id \<times> server_info) option res" where
  "read_entry C from_base58 active_adapter kv =
    (case rbind (from_base58 (fst kv)) (\<lambda>p. rbind (from_tuple C (snd kv)) (\<lambda>si.
            Inr (case active_adapter of
                   None \<Rightarrow> Some (p, si)
                 | Some a \<Rightarrow> if a \<noteq> [] \<and> a \<notin> set (si_adapters si) then None else Some (p, si)))) of
       Inr r \<Rightarrow> Inr r
     | Inl e \<Rightarrow> if e = TypeError \<or> e = ValueError then Inr None else Inl e)"

definition read_entries ::
  "coercions \<Rightarrow> (string \<Rightarrow> peer_id res) \<Rightarrow> string option \<Rightarrow> (string \<times> pyval) list
   \<Rightarrow> (peer_id, server_info) dict res" where
  "read_entries C b58 adapter entries =
     rfold (\<lambda>kv servers. rbind (read_entry C b58 adapter kv) (\<lambda>r.
       Inr (case r of None \<Rightarrow> servers | Some (p, si) \<Rightarrow> AList.update p si servers))) entries []"

definition read_module ::
  "coercions \<Rightarrow> (string \<Rightarrow> peer_id res) \<Rightarrow> string option \<Rightarrow> (module_uid \<times> dht_entry option) list
   \<Rightarrow> module_uid \<Rightarrow> remote_module_info res" where
  "read_module C b58 adapter found uid =
     rbind (dict_get found uid) (\<lambda>metadata.
       case metadata of
         Some (DhtDict entries) \<Rightarrow>
           rbind (read_entries C b58 adapter entries) (\<lambda>servers. Inr \<lparr>rm_uid = uid, rm_servers = servers\<rparr>)
       | _ \<Rightarrow> Inr \<lparr>rm_uid = uid, rm_servers = []\<rparr>)"

definition get_remote_module_infos ::
  "(module_uid list \<Rightarrow> dht_time \<Rightarrow> nat \<Rightarrow> (module_uid \<times> dht_entry option) list) \<Rightarrow> rat \<Rightarrow> nat option
   \<Rightarrow> coercions \<Rightarrow> (string \<Rightarrow> peer_id res) \<Rightarrow> module_uid list \<Rightarrow> string option \<Rightarrow> dht_time option \<Rightarrow> bool
   \<Rightarrow> remote_module_info list res" where
  "get_remote_module_infos get_many now workers C b58 uids adapter expiration latest =
     rbind (if latest then rbind (rassert (expiration = None) AssertionError) (\<lambda>_. Inr DhtInfinity)
            else Inr (case expiration of None \<Rightarrow> DhtAt now | Some t \<Rightarrow> t)) (\<lambda>t.
       let found = get_many uids t (num_dht_workers workers (length uids))
       in rmap (read_module C b58 adapter found) uids)"

section \<open>Spans\<close>

definition new_span :: "int \<Rightarrow> int \<Rightarrow> int \<Rightarrow> peer_id \<Rightarrow> server_info \<Rightarrow> remote_span" where
  "new_span block_offset num_blocks block_idx peer_id info =
     (case (si_start_block info, si_end_block info) of
        (Some sb, Some eb) \<Rightarrow>
          \<lparr>rs_peer_id = peer_id, rs_start = max (sb - block_offset) 0,
           rs_end = min (eb - block_offset) num_blocks, rs_server_info = info\<rparr>
      | _ \<Rightarrow> \<lparr>rs_peer_id = peer_id, rs_start = block_idx, rs_end = block_idx + 1,
              rs_server_info = info\<rparr>)"

definition span_step ::
  "server_state \<Rightarrow> int \<Rightarrow> int \<Rightarrow> int \<Rightarrow> peer_id \<times> server_info
   \<Rightarrow> (peer_id, remote_span) dict \<Rightarrow> (peer_id, remote_span) dict" where
  "span_step min_state off n idx ps spans =
     (let (p, info) = ps in
      if state_value (si_state info) < state_value min_state then spans
      else case map_of spans p of
        None \<Rightarrow> AList.update p (new_span off n idx p info) spans
      | Some sp \<Rightarrow>
          if state_value (span_state sp) < state_value (si_state info)
          then AList.update p (new_span off n idx p info) spans
          else if span_state sp = si_state info
          then AList.update p (sp\<lparr>rs_end := max (rs_end sp) (idx + 1)\<rparr>) spans
          else spans)"

definition module_step ::
  "server_state \<Rightarrow> int \<Rightarrow> int \<Rightarrow> int \<times> remote_module_info
   \<Rightarrow> (peer_id, remote_span) dict \<Rightarrow> (peer_id, remote_span) dict" where
  "module_step min_state off n im spans =
     fold (span_step min_state off n (fst im)) (sort_key fst (rm_servers (snd im))) spans"

definition py_enumerate :: "'a list \<Rightarrow> (int \<times> 'a) list" where
  "py_enumerate xs = zip (map int [0..<length xs]) xs"

definition spans_from :: "server_state \<Rightarrow> int \<Rightarrow> remote_module_info list \<Rightarrow> (peer_id, remote_span) dict" where
  "spans_from min_state off infos =
     fold (module_step min_state off (int (length infos))) (py_enumerate infos) []"

definition compute_spans ::
  "remote_module_info list \<Rightarrow> server_state \<Rightarrow> (peer_id, remote_span) dict res" where
  "compute_spans infos min_state =
     rbind (case infos of [] \<Rightarrow> Inr 0 | m # _ \<Rightarrow> rbind (parse_uid (rm_uid m)) (\<lambda>u. Inr (snd u)))
       (\<lambda>off. Inr (spans_from min_state off infos))"

section \<open>Properties of the spans\<close>

text \<open>The announcements of one swarm snapshot, in the order \<open>compute_spans\<close> reads them.\<close>

definition announcements :: "remote_module_info list \<Rightarrow> (int \<times> peer_id \<times> server_info) list" where
  "announcements infos =
     concat (map (\<lambda>(i, m). map (\<lambda>ps. (i, ps)) (sort_key fst (rm_servers m))) (py_enumerate infos))"

lemma fold_concat_map: "fold f (concat (map g xs)) s = fold (\<lambda>x. fold f (g x)) xs s"
  by (induction xs arbitrary: s) auto

lemma spans_from_announcements:
  "spans_from ms off infos =
     fold (\<lambda>(i, ps). span_step ms off (int (length infos)) i ps) (announcements infos) []"
proof -
  let ?n = "int (length infos)"
  have fm: "fold (\<lambda>(i, ps). span_step ms off ?n i ps) (map (Pair i) xs) s = fold (span_step ms off ?n i) xs s"
    for i xs s
    by (induction xs arbitrary: s) auto
  have "module_step ms off ?n =
      (\<lambda>im. fold (\<lambda>(i, ps). span_step ms off ?n i ps)
        ((\<lambda>(i, m). map (\<lambda>ps. (i, ps)) (sort_key fst (rm_servers m))) im))"
  proof
    fix im :: "int \<times> remote_module_info"
    show "module_step ms off ?n im = fold (\<lambda>(i, ps). span_step ms off ?n i ps)
        ((\<lambda>(i, m). map (\<lambda>ps. (i, ps)) (sort_key fst (rm_servers m))) im)"
      by (cases im) (simp add: module_step_def fm fun_eq_iff)
  qed
  then show ?thesis
    by (simp add: spans_from_def announcements_def fold_concat_map)
qed

lemma in_set_py_enumerate:
  "(i, x) \<in> set (py_enumerate xs) \<longleftrightarrow> 0 \<le> i \<and> i < int (length xs) \<and> x = xs ! nat i"
proof
  assume "(i, x) \<in> set (py_enumerate xs)"
  then show "0 \<le> i \<and> i < int (length xs) \<and> x = xs ! nat i"
    by (auto simp: py_enumerate_def set_zip)
next
  assume *: "0 \<le> i \<and> i < int (length xs) \<and> x = xs ! nat i"
  then have "nat i < length xs" by linarith
  with * show "(i, x) \<in> set (py_enumerate xs)"
    by (auto simp: py_enumerate_def set_zip intro!: exI [of _ "nat i"])
qed

lemma set_announcements:
  "(i, p, si) \<in> set (announcements infos) \<longleftrightarrow>
     0 \<le> i \<and> i < int (length infos) \<and> (p, si) \<in> set (rm_servers (infos ! nat i))"
proof -
  have "(i, p, si) \<in> set (announcements infos) \<longleftrightarrow>
      (\<exists>m. (i, m) \<in> set (py_enumerate infos) \<and> (p, si) \<in> set (rm_servers m))"
    by (force simp: announcements_def)
  then show ?thesis by (simp add: in_set_py_enumerate)
qed

text \<open>Everything \<open>compute_spans\<close> guarantees of an entry, whatever the peers announced.\<close>

definition span_ok :: "server_state \<Rightarrow> int \<Rightarrow> (int \<times> peer_id \<times> server_info) list \<Rightarrow> peer_id \<Rightarrow> remote_span \<Rightarrow> bool" where
  "span_ok ms n as p sp \<longleftrightarrow>
     rs_peer_id sp = p \<and> 0 \<le> rs_start sp \<and> rs_end sp \<le> n
     \<and> state_value ms \<le> state_value (span_state sp)
     \<and> (\<exists>i. (i, p, rs_server_info sp) \<in> set as)
     \<and> (\<forall>(i, q, si) \<in> set as. q = p \<longrightarrow> state_value ms \<le> state_value (si_state si)
            \<longrightarrow> state_value (si_state si) \<le> state_value (span_state sp))"

definition spans_ok :: "server_state \<Rightarrow> int \<Rightarrow> (int \<times> peer_id \<times> server_info) list \<Rightarrow> (peer_id, remote_span) dict \<Rightarrow> bool" where
  "spans_ok ms n as spans \<longleftrightarrow> dict_ok spans
     \<and> (\<forall>p sp. map_of spans p = Some sp \<longrightarrow> span_ok ms n as p sp)
     \<and> (\<forall>(i, p, si) \<in> set as. state_value ms \<le> state_value (si_state si) \<longrightarrow> map_of spans p \<noteq> None)"

lemma new_span_fields [simp]:
  "rs_peer_id (new_span off n i p si) = p"
  "rs_server_info (new_span off n i p si) = si"
  "span_state (new_span off n i p si) = si_state si"
  by (auto simp: new_span_def span_state_def split: option.splits)

lemma new_span_bounds:
  "0 \<le> i \<Longrightarrow> i < n \<Longrightarrow> 0 \<le> rs_start (new_span off n i p si) \<and> rs_end (new_span off n i p si) \<le> n"
  by (auto simp: new_span_def split: option.splits)

lemma span_ok_other:
  "q \<noteq> p \<Longrightarrow> span_ok ms n as q sp \<Longrightarrow> span_ok ms n (as @ [(i, p, si)]) q sp"
  by (auto simp: span_ok_def)

lemma spans_ok_update:
  assumes "spans_ok ms n as spans" "span_ok ms n (as @ [(i, p, si)]) p sp"
  shows "spans_ok ms n (as @ [(i, p, si)]) (AList.update p sp spans)"
  unfolding spans_ok_def
proof (intro conjI allI impI)
  show "dict_ok (AList.update p sp spans)" using assms(1) by (simp add: spans_ok_def)
  show "span_ok ms n (as @ [(i, p, si)]) q s" if "map_of (AList.update p sp spans) q = Some s" for q s
    using that assms by (cases "q = p") (auto simp: spans_ok_def intro: span_ok_other)
  show "\<forall>(j, q, s) \<in> set (as @ [(i, p, si)]). state_value ms \<le> state_value (si_state s)
      \<longrightarrow> map_of (AList.update p sp spans) q \<noteq> None"
    using assms(1) by (fastforce simp: spans_ok_def)
qed

lemma spans_ok_keep:
  assumes "spans_ok ms n as spans" "map_of spans p = Some sp" "span_ok ms n (as @ [(i, p, si)]) p sp"
  shows "spans_ok ms n (as @ [(i, p, si)]) spans"
  unfolding spans_ok_def
proof (intro conjI allI impI)
  show "dict_ok spans" using assms(1) by (simp add: spans_ok_def)
  show "span_ok ms n (as @ [(i, p, si)]) q s" if "map_of spans q = Some s" for q s
    using that assms by (cases "q = p") (auto simp: spans_ok_def intro: span_ok_other)
  show "\<forall>(j, q, s) \<in> set (as @ [(i, p, si)]). state_value ms \<le> state_value (si_state s)
      \<longrightarrow> map_of spans q \<noteq> None"
    using assms by (auto simp: spans_ok_def)
qed

lemma spans_ok_skip:
  assumes "spans_ok ms n as spans" "state_value (si_state si) < state_value ms"
  shows "spans_ok ms n (as @ [(i, p, si)]) spans"
  using assms by (fastforce simp: spans_ok_def span_ok_def)

lemma span_ok_new:
  assumes "0 \<le> i" "i < n" "state_value ms \<le> state_value (si_state si)"
    and "\<And>j s. (j, p, s) \<in> set as \<Longrightarrow> state_value ms \<le> state_value (si_state s)
          \<Longrightarrow> state_value (si_state s) \<le> state_value (si_state si)"
  shows "span_ok ms n (as @ [(i, p, si)]) p (new_span off n i p si)"
  using assms new_span_bounds [OF assms(1,2)] by (auto simp: span_ok_def)

lemma span_ok_extend:
  assumes "span_ok ms n as p sp" "i < n" "state_value (si_state si) \<le> state_value (span_state sp)"
  shows "span_ok ms n (as @ [(i, p, si)]) p (sp\<lparr>rs_end := max (rs_end sp) (i + 1)\<rparr>)"
    and "span_ok ms n (as @ [(i, p, si)]) p sp"
  using assms by (auto simp: span_ok_def span_state_def)

lemma spans_ok_step:
  assumes ok: "spans_ok ms n as spans" and i: "0 \<le> i" "i < n"
  shows "spans_ok ms n (as @ [(i, p, si)]) (span_step ms off n i (p, si) spans)"
proof (cases "state_value (si_state si) < state_value ms")
  case True
  with ok show ?thesis by (simp add: span_step_def spans_ok_skip)
next
  case ge: False
  show ?thesis
  proof (cases "map_of spans p")
    case None
    have "span_ok ms n (as @ [(i, p, si)]) p (new_span off n i p si)"
      using ok None ge by (intro span_ok_new i) (auto simp: spans_ok_def)
    with ok ge None show ?thesis by (simp add: span_step_def spans_ok_update)
  next
    case (Some sp)
    then have sp: "span_ok ms n as p sp" using ok by (simp add: spans_ok_def)
    consider "state_value (span_state sp) < state_value (si_state si)"
      | "span_state sp = si_state si"
      | "state_value (si_state si) < state_value (span_state sp)" "span_state sp \<noteq> si_state si"
      using state_value_inject [of "span_state sp" "si_state si"] by linarith
    then show ?thesis
    proof cases
      case 1
      have "span_ok ms n (as @ [(i, p, si)]) p (new_span off n i p si)"
        using sp 1 ge by (intro span_ok_new i) (fastforce simp: span_ok_def)+
      with ok ge Some 1 show ?thesis by (simp add: span_step_def spans_ok_update)
    next
      case 2
      with ok ge Some sp i show ?thesis
        by (simp add: span_step_def spans_ok_update span_ok_extend)
    next
      case 3
      with sp i have "span_ok ms n (as @ [(i, p, si)]) p sp" by (intro span_ok_extend(2)) auto
      with ok ge Some 3 show ?thesis by (simp add: span_step_def spans_ok_keep)
    qed
  qed
qed

lemma spans_ok_fold:
  assumes "spans_ok ms n as spans" "\<forall>(i, p, si) \<in> set bs. 0 \<le> i \<and> i < n"
  shows "spans_ok ms n (as @ bs) (fold (\<lambda>(i, ps). span_step ms off n i ps) bs spans)"
  using assms
proof (induction bs arbitrary: as spans)
  case Nil
  then show ?case by simp
next
  case (Cons b bs)
  obtain i p si where b: "b = (i, p, si)" by (cases b) auto
  with Cons.prems have "spans_ok ms n (as @ [b]) (span_step ms off n i (p, si) spans)"
    using spans_ok_step by auto
  from Cons.IH [OF this] Cons.prems(2) show ?case by (simp add: b)
qed

lemma spans_ok_spans_from:
  "spans_ok ms (int (length infos)) (announcements infos) (spans_from ms off infos)"
proof -
  have "spans_ok ms (int (length infos)) [] []" by (simp add: spans_ok_def)
  from spans_ok_fold [OF this, of "announcements infos" off] show ?thesis
    by (force simp: spans_from_announcements set_announcements)
qed

lemma compute_spans_Inr:
  "compute_spans infos ms = Inr spans \<Longrightarrow> \<exists>off. spans = spans_from ms off infos"
  by (auto simp: compute_spans_def res_simps)

lemma compute_spans_ok:
  assumes "compute_spans infos ms = Inr spans"
  shows "spans_ok ms (int (length infos)) (announcements infos) spans"
  using assms compute_spans_Inr spans_ok_spans_from by blast

text \<open>
  Coverage: where every announcement names a range around its own block (or none),
  the span of a peer contains every block it announced in the state of the span.
\<close>

definition hints_ok :: "int \<Rightarrow> int \<times> peer_id \<times> server_info \<Rightarrow> bool" where
  "hints_ok off a = (case a of (i, p, si) \<Rightarrow>
     (case (si_start_block si, si_end_block si) of
        (Some sb, Some eb) \<Rightarrow> sb - off \<le> i \<and> i < eb - off
      | _ \<Rightarrow> True))"

definition spans_cover :: "(int \<times> peer_id \<times> server_info) list \<Rightarrow> int \<Rightarrow> (peer_id, remote_span) dict \<Rightarrow> bool" where
  "spans_cover as m spans \<longleftrightarrow>
     (\<forall>p sp. map_of spans p = Some sp \<longrightarrow> rs_start sp \<le> m
        \<and> (\<forall>(i, q, si) \<in> set as. q = p \<longrightarrow> span_state sp = si_state si
              \<longrightarrow> rs_start sp \<le> i \<and> i < rs_end sp))"

lemma new_span_contains:
  "hints_ok off (i, p, si) \<Longrightarrow> 0 \<le> i \<Longrightarrow> i < n \<Longrightarrow>
     rs_start (new_span off n i p si) \<le> i \<and> i < rs_end (new_span off n i p si)"
  by (auto simp: hints_ok_def new_span_def split: option.splits)

lemma spans_cover_update:
  assumes "spans_cover as m spans" "m \<le> i" "rs_start sp \<le> i"
    and "\<And>j s. (j, p, s) \<in> set (as @ [(i, p, si)]) \<Longrightarrow> span_state sp = si_state s \<Longrightarrow> rs_start sp \<le> j \<and> j < rs_end sp"
  shows "spans_cover (as @ [(i, p, si)]) i (AList.update p sp spans)"
  using assms by (fastforce simp: spans_cover_def)

lemma spans_cover_fresh:
  assumes "spans_cover as m spans" "m \<le> i" "0 \<le> i" "i < n" "hints_ok off (i, p, si)"
    and none: "\<forall>j s. (j, p, s) \<in> set as \<longrightarrow> si_state s \<noteq> si_state si"
  shows "spans_cover (as @ [(i, p, si)]) i (AList.update p (new_span off n i p si) spans)"
proof (rule spans_cover_update [OF assms(1,2)])
  note new = new_span_contains [OF assms(5,3,4)]
  show "rs_start (new_span off n i p si) \<le> i" using new by simp
  show "rs_start (new_span off n i p si) \<le> j \<and> j < rs_end (new_span off n i p si)"
    if "(j, p, s) \<in> set (as @ [(i, p, si)])" "span_state (new_span off n i p si) = si_state s" for j s
    using that none new by auto
qed

lemma spans_cover_keep:
  assumes "spans_cover as m spans" "m \<le> i"
    and "\<And>sp. map_of spans p = Some sp \<Longrightarrow> span_state sp \<noteq> si_state si"
  shows "spans_cover (as @ [(i, p, si)]) i spans"
  using assms by (fastforce simp: spans_cover_def)

lemma spans_cover_step:
  assumes ok: "spans_ok ms n as spans" and cov: "spans_cover as m spans"
    and i: "m \<le> i" "0 \<le> i" "i < n" and h: "hints_ok off (i, p, si)"
  shows "spans_cover (as @ [(i, p, si)]) i (span_step ms off n i (p, si) spans)"
proof (cases "state_value (si_state si) < state_value ms")
  case True
  have "span_state sp \<noteq> si_state si" if "map_of spans p = Some sp" for sp
    using ok that True unfolding spans_ok_def span_ok_def by (metis not_less)
  with True cov i(1) show ?thesis by (simp add: span_step_def spans_cover_keep)
next
  case ge: False
  show ?thesis
  proof (cases "map_of spans p")
    case None
    have "\<forall>j s. (j, p, s) \<in> set as \<longrightarrow> si_state s \<noteq> si_state si"
      using ok None ge by (auto simp: spans_ok_def)
    with None ge cov i h show ?thesis by (simp add: span_step_def spans_cover_fresh)
  next
    case (Some sp)
    then have sp: "span_ok ms n as p sp" using ok by (simp add: spans_ok_def)
    have old: "rs_start sp \<le> m" "(j, p, s) \<in> set as \<Longrightarrow> span_state sp = si_state s \<Longrightarrow>
        rs_start sp \<le> j \<and> j < rs_end sp" for j s
      using cov Some by (fastforce simp: spans_cover_def)+
    consider "state_value (span_state sp) < state_value (si_state si)"
      | "span_state sp = si_state si"
      | "\<not> state_value (span_state sp) < state_value (si_state si)" "span_state sp \<noteq> si_state si"
      by blast
    then show ?thesis
    proof cases
      case 1
      have "\<forall>j s. (j, p, s) \<in> set as \<longrightarrow> si_state s \<noteq> si_state si"
        using sp 1 ge by (fastforce simp: span_ok_def)
      with 1 ge Some cov i h show ?thesis by (simp add: span_step_def spans_cover_fresh)
    next
      case 2
      let ?sp = "sp\<lparr>rs_end := max (rs_end sp) (i + 1)\<rparr>"
      have "rs_start ?sp \<le> j \<and> j < rs_end ?sp"
        if "(j, p, s) \<in> set (as @ [(i, p, si)])" "span_state ?sp = si_state s" for j s
        using that old i(1) by (fastforce simp: span_state_def)
      then have "spans_cover (as @ [(i, p, si)]) i (AList.update p ?sp spans)"
        using cov i(1) old(1) by (intro spans_cover_update) auto
      with 2 ge Some show ?thesis by (simp add: span_step_def)
    next
      case 3
      have "spans_cover (as @ [(i, p, si)]) i spans"
        using cov i(1) by (rule spans_cover_keep) (use Some 3 in auto)
      with Some ge 3 show ?thesis by (simp add: span_step_def)
    qed
  qed
qed

lemma spans_cover_fold:
  assumes "spans_ok ms n as spans" "spans_cover as m spans" "sorted (map fst bs)"
    "\<forall>b \<in> set bs. m \<le> fst b \<and> 0 \<le> fst b \<and> fst b < n \<and> hints_ok off b"
  shows "\<exists>m'. spans_cover (as @ bs) m' (fold (\<lambda>(i, ps). span_step ms off n i ps) bs spans)"
  using assms
proof (induction bs arbitrary: as spans m)
  case Nil
  then show ?case by auto
next
  case (Cons b bs)
  obtain i p si where b: "b = (i, p, si)" by (cases b) auto
  let ?s = "span_step ms off n i (p, si) spans"
  have "spans_ok ms n (as @ [b]) ?s" "spans_cover (as @ [b]) i ?s"
    using Cons.prems b spans_ok_step spans_cover_step by auto
  moreover have "sorted (map fst bs)"
    "\<forall>b \<in> set bs. i \<le> fst b \<and> 0 \<le> fst b \<and> fst b < n \<and> hints_ok off b"
    using Cons.prems b by auto
  ultimately have "\<exists>m'. spans_cover ((as @ [b]) @ bs) m' (fold (\<lambda>(i, ps). span_step ms off n i ps) bs ?s)"
    by (rule Cons.IH)
  then show ?case by (simp add: b)
qed

lemma sorted_announcements: "sorted (map fst (announcements infos))"
proof -
  have "sorted (map fst (concat (map (\<lambda>(i, m). map (Pair i) (g m)) xs)))"
    if "sorted (map fst xs)" for xs :: "(int \<times> 'x) list" and g :: "'x \<Rightarrow> 'y list"
    using that by (induction xs) (auto simp: sorted_append comp_def map_replicate_const)
  moreover have "sorted (map fst (py_enumerate infos))"
    by (simp add: py_enumerate_def sorted_map strict_sorted_imp_sorted)
  ultimately show ?thesis by (simp add: announcements_def)
qed

lemma spans_from_cover:
  assumes "\<forall>a \<in> set (announcements infos). hints_ok off a"
  shows "\<exists>m. spans_cover (announcements infos) m (spans_from ms off infos)"
proof -
  have "spans_ok ms (int (length infos)) [] []" "spans_cover [] 0 []"
    by (simp_all add: spans_ok_def spans_cover_def)
  from spans_cover_fold [OF this sorted_announcements, of infos off] assms show ?thesis
    by (force simp: spans_from_announcements set_announcements)
qed

section \<open>Properties of the component\<close>

definition sample_swarm :: "remote_module_info list" where
  "sample_swarm =
     [\<lparr>rm_uid = ''m.0'', rm_servers = [(''B'', sample_info ONLINE 1), (''A'', sample_info ONLINE 1)]\<rparr>,
      \<lparr>rm_uid = ''m.1'', rm_servers = [(''A'', sample_info ONLINE 1), (''C'', sample_info JOINING 1)]\<rparr>]"

definition sample_span :: "peer_id \<Rightarrow> int \<Rightarrow> int \<Rightarrow> server_state \<Rightarrow> remote_span" where
  "sample_span p a b st =
     \<lparr>rs_peer_id = p, rs_start = a, rs_end = b, rs_server_info = sample_info st 1\<rparr>"

lemma sample_swarm_spans:
  "compute_spans sample_swarm ONLINE =
     Inr [(''A'', sample_span ''A'' 0 2 ONLINE), (''B'', sample_span ''B'' 0 1 ONLINE)]"
proof -
  have u: "parse_uid ''m.0'' = Inr (''m'', 0)" by code_simp
  show ?thesis
    by (simp add: compute_spans_def sample_swarm_def u spans_from_def py_enumerate_def
        module_step_def span_step_def new_span_def span_state_def sample_span_def upt_rec)
qed

lemma compute_spans_facts:
  assumes "compute_spans infos ms = Inr spans"
  shows "distinct (map fst spans)"
    "\<And>p sp. map_of spans p = Some sp \<Longrightarrow> rs_peer_id sp = p \<and> 0 \<le> rs_start sp \<and> rs_end sp \<le> int (length infos)
       \<and> state_value ms \<le> state_value (span_state sp)"
  using compute_spans_ok [OF assms] by (simp_all add: spans_ok_def dict_ok_def span_ok_def)

text \<open>C20. Whatever peers announce, \<open>compute_spans\<close> yields one span per peer that is inside the
  model, comes from an announcement of that peer in a sufficient state, and reports the most
  advanced such state; and no peer with a sufficient announcement is lost.\<close>
theorem compute_spans_sound:
  assumes "compute_spans infos ms = Inr spans"
  shows "distinct (map fst spans)
    \<and> (\<forall>p sp. map_of spans p = Some sp \<longrightarrow>
         rs_peer_id sp = p \<and> 0 \<le> rs_start sp \<and> rs_end sp \<le> int (length infos)
         \<and> state_value ms \<le> state_value (span_state sp)
         \<and> (\<exists>m \<in> set infos. (p, rs_server_info sp) \<in> set (rm_servers m))
         \<and> (\<forall>m \<in> set infos. \<forall>si. (p, si) \<in> set (rm_servers m) \<longrightarrow>
              state_value ms \<le> state_value (si_state si) \<longrightarrow>
              state_value (si_state si) \<le> state_value (span_state sp)))
    \<and> (\<forall>m \<in> set infos. \<forall>(p, si) \<in> set (rm_servers m).
         state_value ms \<le> state_value (si_state si) \<longrightarrow> p \<in> fst ` set spans)"
proof -
  note ok = compute_spans_ok [OF assms]
  have ann: "\<exists>i. (i, p, si) \<in> set (announcements infos)"
    if m: "m \<in> set infos" "(p, si) \<in> set (rm_servers m)" for m p si
  proof -
    obtain j where "j < length infos" "infos ! j = m"
      using m(1) by (auto simp: in_set_conv_nth)
    then have "(int j, p, si) \<in> set (announcements infos)"
      using m(2) by (simp add: set_announcements)
    then show ?thesis by blast
  qed
  have mod: "\<exists>m \<in> set infos. (p, si) \<in> set (rm_servers m)"
    if "(i, p, si) \<in> set (announcements infos)" for i p si
    using that by (intro bexI [of _ "infos ! nat i"]) (auto simp: set_announcements nat_less_iff)
  have fst_dom: "map_of spans p \<noteq> None \<longleftrightarrow> p \<in> fst ` set spans" for p
    by (simp add: map_of_eq_None_iff)
  show ?thesis
  proof (intro conjI allI impI ballI)
    show "distinct (map fst spans)" using ok by (simp add: spans_ok_def dict_ok_def)
  next
    fix p sp assume "map_of spans p = Some sp"
    then have sp: "span_ok ms (int (length infos)) (announcements infos) p sp"
      using ok by (simp add: spans_ok_def)
    then show "rs_peer_id sp = p" "0 \<le> rs_start sp" "rs_end sp \<le> int (length infos)"
      "state_value ms \<le> state_value (span_state sp)" by (auto simp: span_ok_def)
    show "\<exists>m \<in> set infos. (p, rs_server_info sp) \<in> set (rm_servers m)"
      using sp mod by (auto simp: span_ok_def)
    show "state_value (si_state si) \<le> state_value (span_state sp)"
      if "m \<in> set infos" "(p, si) \<in> set (rm_servers m)" "state_value ms \<le> state_value (si_state si)" for m si
      using sp ann [OF that(1,2)] that(3) by (fastforce simp: span_ok_def)
  next
    fix m x assume "m \<in> set infos" "x \<in> set (rm_servers m)"
    then show "case x of (p, si) \<Rightarrow> state_value ms \<le> state_value (si_state si) \<longrightarrow> p \<in> fst ` set spans"
      using ok ann fst_dom by (cases x) (fastforce simp: spans_ok_def)
  qed
qed

theorem compute_spans_sound_witness:
  "distinct (map fst [(''A'', sample_span ''A'' 0 2 ONLINE), (''B'', sample_span ''B'' 0 1 ONLINE)])"
  using compute_spans_sound [OF sample_swarm_spans] by blast

text \<open>The spans lose no block: when every announcement names a range around its own block,
  or none, each block a peer announced in the state of its span lies in that span.\<close>
theorem compute_spans_covers:
  assumes "compute_spans infos ms = Inr spans"
    and "parse_uid (rm_uid (infos ! 0)) = Inr (pre, off)"
    and "\<forall>a \<in> set (announcements infos). hints_ok off a"
    and "i < length infos" "(p, si) \<in> set (rm_servers (infos ! i))"
    and "map_of spans p = Some sp" "span_state sp = si_state si"
  shows "rs_start sp \<le> int i \<and> int i < rs_end sp"
proof -
  have s: "spans = spans_from ms off infos"
    using assms(1,2,4) by (auto simp: compute_spans_def res_simps split: list.splits)
  obtain m where "spans_cover (announcements infos) m spans"
    using spans_from_cover [OF assms(3)] s by blast
  moreover have "(int i, p, si) \<in> set (announcements infos)"
    using assms(4,5) by (simp add: set_announcements)
  ultimately show ?thesis using assms(6,7) by (fastforce simp: spans_cover_def)
qed

theorem compute_spans_covers_witness:
  "rs_start (sample_span ''A'' 0 2 ONLINE) \<le> int 1 \<and> int 1 < rs_end (sample_span ''A'' 0 2 ONLINE)"
proof (rule compute_spans_covers [OF sample_swarm_spans])
  show "parse_uid (rm_uid (sample_swarm ! 0)) = Inr (''m'', 0)" by code_simp
  show "\<forall>a \<in> set (announcements sample_swarm). hints_ok 0 a"
    by (simp add: sample_swarm_def announcements_def py_enumerate_def hints_ok_def upt_rec)
  show "1 < length sample_swarm" by (simp add: sample_swarm_def)
  show "(''A'', sample_info ONLINE 1) \<in> set (rm_servers (sample_swarm ! 1))"
    by (simp add: sample_swarm_def)
qed (simp_all add: sample_span_def span_state_def)

end
