(* ===== verification/Block_Selection.thy ===== *)
theory Block_Selection
  imports Swarm_Dht
begin

text \<open>
  Models \<open>src/drift/server/block_selection.py\<close>: where a server places its span of
  blocks, and when it should move it. Throughputs are rationals; \<open>_choose_best_start\<close>
  only compares them and is defined for any linear order. The random order in which
  \<open>should_choose_other_blocks\<close> visits the servers is an argument: one list of peers per
  round of its loop. The loop has no bound in the code, so running out of rounds is the
  result \<open>None\<close>.
\<close>

section \<open>Throughputs\<close>

definition add_to_blocks :: "rat \<Rightarrow> remote_span \<Rightarrow> rat list \<Rightarrow> rat list" where
  "add_to_blocks x s throughputs =
     slice_update (\<lambda>t. t + x) (rs_start s) (rs_end s) throughputs"

definition compute_throughputs :: "(peer_id, remote_span) dict \<Rightarrow> nat \<Rightarrow> rat list" where
  "compute_throughputs spans total_blocks =
     fold (\<lambda>span. add_to_blocks (span_throughput span) span)
       (sort_key rs_peer_id (map snd spans)) (replicate total_blocks 0)"

section \<open>The best window\<close>

definition window_options :: "'a::linorder list \<Rightarrow> int \<Rightarrow> ('a list \<times> int) list" where
  "window_options throughputs num_blocks =
     map (\<lambda>i. (sort (py_slice throughputs i (i + num_blocks)), i))
       (py_range 0 (int (length throughputs) - num_blocks + 1))"

definition choose_best_start :: "'a::linorder list \<Rightarrow> int \<Rightarrow> int res" where
  "choose_best_start throughputs num_blocks =
     (case window_options throughputs num_blocks of
        [] \<Rightarrow> Inl ValueError
      | opt # opts \<Rightarrow> Inr (snd (fold min opts opt)))"

definition choose_best_blocks :: "int \<Rightarrow> remote_module_info list \<Rightarrow> int list res" where
  "choose_best_blocks num_blocks module_infos =
     rbind (compute_spans module_infos JOINING) (\<lambda>spans.
     rbind (choose_best_start (compute_throughputs spans (length module_infos)) num_blocks) (\<lambda>start.
       Inr (py_range start (start + num_blocks))))"

section \<open>Rebalancing\<close>

definition move_span :: "remote_span \<Rightarrow> int \<Rightarrow> remote_span" where
  "move_span s new_start = s\<lparr>rs_start := new_start, rs_end := new_start + span_length s\<rparr>"

definition np_min :: "rat list \<Rightarrow> rat res" where
  "np_min xs = (case xs of [] \<Rightarrow> Inl ValueError | x # ys \<Rightarrow> Inr (fold min ys x))"

definition balance_eps :: rat where
  "balance_eps = 1 / 1000"

type_synonym layout = "(peer_id, remote_span) dict \<times> rat list"

text \<open>
  Lift one span out of the totals (slightly more than its throughput), find the best
  place for it and put it there: the body of the inner loop. The flag says it moved.
\<close>

definition visit_server :: "peer_id \<Rightarrow> layout \<times> bool \<Rightarrow> (layout \<times> bool) res" where
  "visit_server p lm =
    (let ((spans, tp), moved) = lm in
     rbind (dict_get spans p) (\<lambda>span.
       let t = span_throughput span; tp1 = add_to_blocks (- (t * (1 + balance_eps))) span tp in
       rbind (choose_best_start tp1 (span_length span)) (\<lambda>new_start.
         let tp2 = add_to_blocks (t * balance_eps) span tp1;
             span' = (if rs_start span \<noteq> new_start then move_span span new_start else span) in
         Inr ((AList.update p span' spans, add_to_blocks t span' tp2),
              moved \<or> rs_start span \<noteq> new_start))))"

definition balance_round :: "peer_id list \<Rightarrow> layout \<Rightarrow> (layout \<times> bool) res" where
  "balance_round servers l = rfold visit_server servers (l, False)"

fun balance_loop :: "peer_id list list \<Rightarrow> layout \<Rightarrow> layout option res" where
  "balance_loop [] l = Inr None"
| "balance_loop (servers # rest) l =
     rbind (balance_round servers l) (\<lambda>(l', moved). if moved then balance_loop rest l' else Inr (Some l'))"

definition balance_decision :: "rat \<Rightarrow> rat \<Rightarrow> rat \<Rightarrow> bool" where
  "balance_decision initial_throughput new_throughput balance_quality =
     (if new_throughput < initial_throughput \<or> new_throughput < balance_eps then False
      else initial_throughput / new_throughput < balance_quality - balance_eps)"

definition should_choose_other_blocks ::
  "peer_id list list \<Rightarrow> peer_id \<Rightarrow> remote_module_info list \<Rightarrow> rat \<Rightarrow> bool option res" where
  "should_choose_other_blocks orders local_peer_id module_infos balance_quality =
    (if balance_quality > 1 then Inr (Some True)
     else
       rbind (compute_spans module_infos JOINING) (\<lambda>spans.
       let tp0 = compute_throughputs spans (length module_infos) in
       rbind (np_min tp0) (\<lambda>initial_throughput.
       rbind (case map_of spans local_peer_id of None \<Rightarrow> Inl AssertionError | Some s \<Rightarrow> Inr s) (\<lambda>local_span.
       let t = span_throughput local_span;
           tp1 = add_to_blocks (- (t * (1 + balance_eps))) local_span tp0 in
       rbind (if initial_throughput > balance_eps
              then rbind (np_min tp1) (\<lambda>m. Inr (m \<le> 0)) else Inr False) (\<lambda>disjoint.
       if disjoint then Inr (Some False)
       else
         rbind (choose_best_start tp1 (span_length local_span)) (\<lambda>new_start.
         if rs_start local_span = new_start then Inr (Some False)
         else
           let tp2 = add_to_blocks (t * balance_eps) local_span tp1;
               local_span' = move_span local_span new_start;
               spans' = AList.update local_peer_id local_span' spans;
               tp3 = add_to_blocks t local_span' tp2 in
           rbind (balance_loop orders (spans', tp3)) (\<lambda>final.
             case final of
               None \<Rightarrow> Inr None
             | Some (_, tp) \<Rightarrow>
                 rbind (np_min tp) (\<lambda>new_throughput.
                   Inr (Some (balance_decision initial_throughput new_throughput balance_quality))))))))))"

section \<open>Properties of the window choice\<close>

lemma fold_min_le: "fold min xs (a::'a::linorder) \<le> a \<and> (\<forall>x \<in> set xs. fold min xs a \<le> x)"
proof (induction xs arbitrary: a)
  case Nil
  then show ?case by simp
next
  case (Cons x xs)
  from Cons.IH [of "min x a"] show ?case by (simp add: min.bounded_iff)
qed

lemma fold_min_in: "fold min xs (a::'a::linorder) \<in> insert a (set xs)"
  by (induction xs arbitrary: a) (auto simp: min_def split: if_splits)

lemma choose_best_start_Inr:
  assumes "choose_best_start tp k = Inr i"
  shows "(sort (py_slice tp i (i + k)), i) \<in> set (window_options tp k)"
    and "\<And>opt. opt \<in> set (window_options tp k) \<Longrightarrow> (sort (py_slice tp i (i + k)), i) \<le> opt"
proof -
  obtain opt opts where o: "window_options tp k = opt # opts" "i = snd (fold min opts opt)"
    using assms by (auto simp: choose_best_start_def split: list.splits)
  have mem: "fold min opts opt \<in> set (window_options tp k)"
    using fold_min_in [of opts opt] o(1) by simp
  then have eq: "fold min opts opt = (sort (py_slice tp i (i + k)), i)"
    using o(2) by (auto simp: window_options_def)
  show "(sort (py_slice tp i (i + k)), i) \<in> set (window_options tp k)"
    and "\<And>opt. opt \<in> set (window_options tp k) \<Longrightarrow> (sort (py_slice tp i (i + k)), i) \<le> opt"
    using mem fold_min_le [of opts opt] o(1) unfolding eq by auto
qed

lemma choose_best_start_bounds:
  "choose_best_start tp k = Inr i \<Longrightarrow> 0 \<le> i \<and> i + k \<le> int (length tp)"
  by (drule choose_best_start_Inr(1)) (auto simp: window_options_def)

lemma choose_best_start_fails:
  "choose_best_start tp k = Inl e \<longleftrightarrow> int (length tp) < k \<and> e = ValueError"
proof -
  have "window_options tp k = [] \<longleftrightarrow> int (length tp) < k"
    by (auto simp: window_options_def py_range_def)
  then show ?thesis by (auto simp: choose_best_start_def split: list.splits)
qed

section \<open>Properties of the throughputs\<close>

definition covers :: "nat \<Rightarrow> remote_span \<Rightarrow> nat \<Rightarrow> bool" where
  "covers n sp k \<longleftrightarrow> slice_index n (rs_start sp) \<le> k \<and> k < slice_index n (rs_end sp)"

definition contrib :: "nat \<Rightarrow> nat \<Rightarrow> remote_span \<Rightarrow> rat" where
  "contrib n k sp = (if covers n sp k then span_throughput sp else 0)"

definition block_throughput :: "nat \<Rightarrow> (peer_id, remote_span) dict \<Rightarrow> nat \<Rightarrow> rat" where
  "block_throughput n spans k = sum_list (map (contrib n k \<circ> snd) spans)"

definition tracks :: "(peer_id, remote_span) dict \<Rightarrow> rat list \<Rightarrow> bool" where
  "tracks spans tp \<longleftrightarrow> dict_ok spans \<and> (\<forall>k < length tp. tp ! k = block_throughput (length tp) spans k)"

lemma length_add_to_blocks [simp]: "length (add_to_blocks x s tp) = length tp"
  by (simp add: add_to_blocks_def)

lemma nth_add_to_blocks:
  "k < length tp \<Longrightarrow> add_to_blocks x s tp ! k = (if covers (length tp) s k then tp ! k + x else tp ! k)"
  by (simp add: add_to_blocks_def nth_slice_update covers_def)

lemma fold_add_to_blocks:
  "length (fold (\<lambda>s. add_to_blocks (span_throughput s) s) ss tp) = length tp
   \<and> (k < length tp \<longrightarrow> fold (\<lambda>s. add_to_blocks (span_throughput s) s) ss tp ! k
        = tp ! k + sum_list (map (contrib (length tp) k) ss))"
  by (induction ss arbitrary: tp) (auto simp: nth_add_to_blocks contrib_def)

lemma length_compute_throughputs [simp]: "length (compute_throughputs spans n) = n"
  using fold_add_to_blocks [of _ "replicate n 0"] by (simp add: compute_throughputs_def)

lemma sum_list_map_sort: "sum_list (map f (sort_key g xs)) = sum_list (map f (xs :: 'b list) :: rat list)"
  by (metis mset_map mset_sort sum_mset_sum_list)

lemma nth_compute_throughputs:
  "k < n \<Longrightarrow> compute_throughputs spans n ! k = block_throughput n spans k"
  using fold_add_to_blocks [of "sort_key rs_peer_id (map snd spans)" "replicate n 0" k]
  by (simp add: compute_throughputs_def block_throughput_def sum_list_map_sort)

lemma tracks_compute: "dict_ok spans \<Longrightarrow> tracks spans (compute_throughputs spans n)"
  by (simp add: tracks_def nth_compute_throughputs)

lemma block_throughput_update:
  assumes "dict_ok spans" "map_of spans p = Some sp"
  shows "block_throughput n (AList.update p sp' spans) k
     = block_throughput n spans k - contrib n k sp + contrib n k sp'"
  using assms
proof (induction spans)
  case Nil
  then show ?case by simp
next
  case (Cons a spans)
  show ?case
  proof (cases "fst a = p")
    case True
    then show ?thesis using Cons.prems by (cases a) (simp add: block_throughput_def)
  next
    case False
    then show ?thesis using Cons by (cases a) (simp add: block_throughput_def dict_ok_def)
  qed
qed

text \<open>Lifting a span out and putting it down elsewhere keeps the books exact.\<close>

lemma tracks_move:
  assumes "tracks spans tp" "map_of spans p = Some sp" "span_throughput sp' = span_throughput sp"
  shows "tracks (AList.update p sp' spans)
     (add_to_blocks (span_throughput sp) sp' (add_to_blocks (span_throughput sp * e) sp
        (add_to_blocks (- (span_throughput sp * (1 + e))) sp tp)))"
  using assms
  by (auto simp: tracks_def nth_add_to_blocks block_throughput_update contrib_def algebra_simps)

lemma span_throughput_move [simp]: "span_throughput (move_span s i) = span_throughput s"
  by (simp add: move_span_def span_throughput_def)

lemma span_length_move [simp]: "span_length (move_span s i) = span_length s"
  by (simp add: move_span_def span_length_def)

text \<open>What every visit keeps: exact totals, and each peer's span length and server.\<close>

definition same_servers :: "(peer_id, remote_span) dict \<Rightarrow> (peer_id, remote_span) dict \<Rightarrow> bool" where
  "same_servers spans spans' \<longleftrightarrow> map fst spans = map fst spans'
     \<and> (\<forall>p. map_option (\<lambda>s. (span_length s, rs_server_info s)) (map_of spans p)
          = map_option (\<lambda>s. (span_length s, rs_server_info s)) (map_of spans' p))"

lemma same_servers_refl [simp]: "same_servers spans spans"
  by (simp add: same_servers_def)

lemma same_servers_trans: "same_servers a b \<Longrightarrow> same_servers b c \<Longrightarrow> same_servers a c"
  by (simp add: same_servers_def)

lemma same_servers_update:
  assumes "map_of spans p = Some sp" "span_length sp' = span_length sp" "rs_server_info sp' = rs_server_info sp"
  shows "same_servers spans (AList.update p sp' spans)"
proof -
  have "p \<in> fst ` set spans" using assms(1) by (metis map_of_eq_None_iff option.distinct(1))
  then have "map fst (AList.update p sp' spans) = map fst spans"
    by (simp add: update_keys)
  with assms show ?thesis by (auto simp: same_servers_def)
qed

lemma rs_server_info_move [simp]: "rs_server_info (move_span s i) = rs_server_info s"
  by (simp add: move_span_def)

lemma visit_server_keeps:
  assumes "visit_server p ((spans, tp), b) = Inr ((spans', tp'), b')" "tracks spans tp"
  shows "tracks spans' tp' \<and> length tp' = length tp \<and> same_servers spans spans'"
proof -
  obtain sp i where sp: "map_of spans p = Some sp"
    and s': "spans' = AList.update p (if rs_start sp \<noteq> i then move_span sp i else sp) spans"
    and t': "tp' = add_to_blocks (span_throughput sp) (if rs_start sp \<noteq> i then move_span sp i else sp)
        (add_to_blocks (span_throughput sp * balance_eps) sp
          (add_to_blocks (- (span_throughput sp * (1 + balance_eps))) sp tp))"
    using assms(1) by (auto simp: visit_server_def Let_def res_simps)
  let ?sp = "if rs_start sp \<noteq> i then move_span sp i else sp"
  have "span_throughput ?sp = span_throughput sp" "span_length ?sp = span_length sp"
    "rs_server_info ?sp = rs_server_info sp" by auto
  then show ?thesis
    unfolding s' t' using tracks_move [OF assms(2) sp] same_servers_update [OF sp] by simp
qed

lemma balance_round_keeps:
  assumes "rfold visit_server servers ((spans, tp), b) = Inr ((spans', tp'), b')" "tracks spans tp"
  shows "tracks spans' tp' \<and> length tp' = length tp \<and> same_servers spans spans'"
proof -
  let ?P = "\<lambda>x. tracks (fst (fst x)) (snd (fst x)) \<and> length (snd (fst x)) = length tp
      \<and> same_servers spans (fst (fst x))"
  have "?P ((spans', tp'), b')"
  proof (rule rfold_invariant [OF assms(1), where P = ?P])
    show "?P ((spans, tp), b)" using assms(2) by simp
  next
    fix p x x'
    assume "?P x" "visit_server p x = Inr x'"
    then show "?P x'"
      using visit_server_keeps [of p "fst (fst x)" "snd (fst x)" "snd x" "fst (fst x')" "snd (fst x')" "snd x'"]
        same_servers_trans [of spans "fst (fst x)" "fst (fst x')"] by simp
  qed
  then show ?thesis by simp
qed

lemma balance_loop_keeps:
  "balance_loop orders (spans, tp) = Inr (Some (spans', tp')) \<Longrightarrow> tracks spans tp \<Longrightarrow>
     tracks spans' tp' \<and> length tp' = length tp \<and> same_servers spans spans'"
proof (induction orders arbitrary: spans tp)
  case Nil
  then show ?case by simp
next
  case (Cons servers orders)
  obtain s1 t1 m where r: "balance_round servers (spans, tp) = Inr ((s1, t1), m)"
    and rest: "(if m then balance_loop orders (s1, t1) else Inr (Some (s1, t1))) = Inr (Some (spans', tp'))"
    using Cons.prems(1) by (auto simp: res_simps)
  have k: "tracks s1 t1 \<and> length t1 = length tp \<and> same_servers spans s1"
    using balance_round_keeps r Cons.prems(2) unfolding balance_round_def by blast
  show ?case
  proof (cases m)
    case True
    with rest have "tracks spans' tp' \<and> length tp' = length t1 \<and> same_servers s1 spans'"
      using Cons.IH k by simp
    then show ?thesis using k same_servers_trans by auto
  next
    case False
    with rest k show ?thesis by simp
  qed
qed

lemma np_min_Inr: "np_min xs = Inr m \<longleftrightarrow> xs \<noteq> [] \<and> m = Min (set xs)"
proof (cases xs)
  case Nil
  then show ?thesis by (simp add: np_min_def)
next
  case (Cons x ys)
  have "fold min ys x = Min (set xs)"
    using fold_min_le [of ys x] fold_min_in [of ys x] Cons
    by (intro Min_eqI [symmetric]) auto
  then show ?thesis using Cons by (auto simp: np_min_def)
qed

section \<open>Properties of the component\<close>

text \<open>C18. \<open>_choose_best_start\<close> returns the best placement: its window lies inside the model,
  and no other window of that length is sorted-lexicographically worse off, ties going to
  the lowest start.\<close>
theorem choose_best_start_optimal:
  assumes "choose_best_start tp k = Inr i"
  shows "0 \<le> i \<and> i + k \<le> int (length tp) \<and>
    (\<forall>j. 0 \<le> j \<longrightarrow> j + k \<le> int (length tp) \<longrightarrow>
       sort (py_slice tp i (i + k)) \<le> sort (py_slice tp j (j + k)) \<and>
       (sort (py_slice tp i (i + k)) = sort (py_slice tp j (j + k)) \<longrightarrow> i \<le> j))"
proof -
  have opt: "(sort (py_slice tp i (i + k)), i) \<le> (sort (py_slice tp j (j + k)), j)"
    if "0 \<le> j" "j + k \<le> int (length tp)" for j
    using that by (intro choose_best_start_Inr(2) [OF assms]) (auto simp: window_options_def)
  have "sort (py_slice tp i (i + k)) \<le> sort (py_slice tp j (j + k)) \<and>
      (sort (py_slice tp i (i + k)) = sort (py_slice tp j (j + k)) \<longrightarrow> i \<le> j)"
    if "0 \<le> j" "j + k \<le> int (length tp)" for j
    using opt [OF that] by (auto simp: less_eq_prod_def)
  then show ?thesis using choose_best_start_bounds [OF assms] by blast
qed

theorem choose_best_start_optimal_witness:
  "sort (py_slice [3, 1, 1, 2 :: rat] 1 3) \<le> sort (py_slice [3, 1, 1, 2 :: rat] 2 4)"
proof -
  have "choose_best_start [3, 1, 1, 2 :: rat] 2 = Inr 1" by code_simp
  from choose_best_start_optimal [OF this] show ?thesis by (elim conjE allE [of _ 2]) simp
qed

text \<open>Throughputs do not depend on the order in which servers were discovered: the totals
  are the same list for any two dictionaries with the same spans. The proof never regroups a
  sum, so it carries over to floating-point addition.\<close>
theorem compute_throughputs_deterministic:
  assumes "mset spans = mset spans'" "dict_ok spans" "\<forall>(p, s) \<in> set spans. rs_peer_id s = p"
  shows "compute_throughputs spans n = compute_throughputs spans' n"
proof -
  have keys: "\<forall>x \<in> set spans. rs_peer_id (snd x) = fst x" using assms(3) by auto
  have "inj_on fst (set spans)" using assms(2) by (simp add: dict_ok_def distinct_map)
  then have "inj_on rs_peer_id (set (map snd spans))"
    using keys by (auto simp: inj_on_def)
  moreover have "mset (map snd spans) = mset (sort_key rs_peer_id (map snd spans'))"
    using assms(1) by simp
  ultimately have "sort_key rs_peer_id (map snd spans) = sort_key rs_peer_id (map snd spans')"
    by (intro sort_key_inj_key_eq) auto
  then show ?thesis by (simp add: compute_throughputs_def)
qed

theorem compute_throughputs_deterministic_witness:
  "compute_throughputs [(''A'', sample_span ''A'' 0 2 ONLINE), (''B'', sample_span ''B'' 0 1 ONLINE)] 2
   = compute_throughputs [(''B'', sample_span ''B'' 0 1 ONLINE), (''A'', sample_span ''A'' 0 2 ONLINE)] 2"
  by (rule compute_throughputs_deterministic) (auto simp: sample_span_def dict_ok_def)

text \<open>C19. A server only moves for a real gain: when \<open>should_choose_other_blocks\<close> says yes (and is
  not forced by a quality above one), there is a placement of the same servers, each serving as
  many blocks as now, whose slowest block is faster by the required factor.\<close>
theorem rebalancing_improves:
  assumes "should_choose_other_blocks orders p infos quality = Inr (Some True)" "quality \<le> 1"
  shows "\<exists>spans spans'. compute_spans infos JOINING = Inr spans \<and> same_servers spans spans'
    \<and> (let old = Min (set (compute_throughputs spans (length infos)));
           new = Min (set (compute_throughputs spans' (length infos)))
       in balance_eps \<le> new \<and> old \<le> new \<and> old < (quality - balance_eps) * new)"
proof -
  let ?n = "length infos"
  obtain spans init sp i spans' tp new where
    spans: "compute_spans infos JOINING = Inr spans"
    and init: "np_min (compute_throughputs spans ?n) = Inr init"
    and sp: "map_of spans p = Some sp"
    and loop: "balance_loop orders (AList.update p (move_span sp i) spans,
        add_to_blocks (span_throughput sp) (move_span sp i)
          (add_to_blocks (span_throughput sp * balance_eps) sp
            (add_to_blocks (- (span_throughput sp * (1 + balance_eps))) sp (compute_throughputs spans ?n))))
      = Inr (Some (spans', tp))"
    and new: "np_min tp = Inr new" and dec: "balance_decision init new quality"
    using assms
    by (auto simp: should_choose_other_blocks_def Let_def res_simps split: if_splits option.splits)
  have "dict_ok spans" using compute_spans_ok [OF spans] by (simp add: spans_ok_def)
  note t0 = tracks_move [OF tracks_compute [OF this, of ?n] sp, of "move_span sp i" balance_eps]
  have t: "tracks spans' tp" "length tp = ?n"
    "same_servers (AList.update p (move_span sp i) spans) spans'"
    using balance_loop_keeps [OF loop] t0 by auto
  have same: "same_servers spans spans'"
    by (rule same_servers_trans [OF same_servers_update [OF sp] t(3)]) auto
  have "tp = compute_throughputs spans' ?n"
    using t(1,2) by (intro nth_equalityI) (auto simp: tracks_def nth_compute_throughputs)
  moreover have "balance_eps \<le> new" "init \<le> new" "init < (quality - balance_eps) * new"
    using dec by (auto simp: balance_decision_def balance_eps_def field_simps split: if_splits)
  ultimately show ?thesis using spans same init new by (auto simp: np_min_Inr Let_def)
qed

definition crowded_swarm :: "remote_module_info list" where
  "crowded_swarm =
     [\<lparr>rm_uid = ''m.0'', rm_servers = [(''A'', sample_info ONLINE 1), (''B'', sample_info ONLINE 1)]\<rparr>,
      \<lparr>rm_uid = ''m.1'', rm_servers = []\<rparr>]"

theorem rebalancing_improves_witness:
  "\<exists>spans spans'. compute_spans crowded_swarm JOINING = Inr spans \<and> same_servers spans spans'
    \<and> (let old = Min (set (compute_throughputs spans (length crowded_swarm)));
           new = Min (set (compute_throughputs spans' (length crowded_swarm)))
       in balance_eps \<le> new \<and> old \<le> new \<and> old < (3 / 4 - balance_eps) * new)"
proof -
  have "should_choose_other_blocks [[''A'', ''B'']] ''B'' crowded_swarm (3 / 4) = Inr (Some True)"
    by code_simp
  from rebalancing_improves [OF this] show ?thesis by simp
qed

text \<open>A joining server takes consecutive blocks of the model, at the place where the sorted
  throughputs of its window are lexicographically lowest.\<close>
theorem choose_best_blocks_correct:
  assumes "choose_best_blocks k infos = Inr blocks"
  shows "\<exists>spans s. compute_spans infos JOINING = Inr spans \<and> blocks = py_range s (s + k)
    \<and> 0 \<le> s \<and> s + k \<le> int (length infos)
    \<and> (let tp = compute_throughputs spans (length infos) in
       \<forall>j. 0 \<le> j \<longrightarrow> j + k \<le> int (length infos) \<longrightarrow>
         sort (py_slice tp s (s + k)) \<le> sort (py_slice tp j (j + k)))"
proof -
  obtain spans s where s: "compute_spans infos JOINING = Inr spans" "blocks = py_range s (s + k)"
    "choose_best_start (compute_throughputs spans (length infos)) k = Inr s"
    using assms by (auto simp: choose_best_blocks_def res_simps)
  note opt = choose_best_start_Inr(2) [OF s(3)]
  have "sort (py_slice tp s (s + k)) \<le> sort (py_slice tp j (j + k))"
    if "0 \<le> j" "j + k \<le> int (length infos)" "tp = compute_throughputs spans (length infos)" for j tp
    using opt [of "(sort (py_slice tp j (j + k)), j)"] that
    by (auto simp: window_options_def less_eq_prod_def)
  then show ?thesis using s choose_best_start_bounds [OF s(3)] by (auto simp: Let_def)
qed

theorem choose_best_blocks_correct_witness:
  "\<exists>spans s. compute_spans crowded_swarm JOINING = Inr spans \<and> [1] = py_range s (s + 1)"
proof -
  have "choose_best_blocks 1 crowded_swarm = Inr [1]" by code_simp
  from choose_best_blocks_correct [OF this] show ?thesis by blast
qed

end
