(* ===== verification/Tensors.thy ===== *)
theory Tensors
  imports Drift_Prelude
begin

text \<open>
  The fragment of PyTorch tensors the key/value cache uses: a tensor is its shape with its
  elements in row-major order. Along an axis it is an array of \<open>outer\<close> blocks of \<open>axis_len\<close>
  positions of \<open>inner\<close> consecutive elements; slicing an axis, assigning to a slice of an axis
  (with the broadcasting of a source of width one, and the error on any other mismatch), indexing
  the first axis by a list of indices, and \<open>view\<close> are defined on that reading.
\<close>

record 'a tensor =
  shape :: "nat list"
  elems :: "'a list"

definition numel :: "'a tensor \<Rightarrow> nat" where
  "numel t = prod_list (shape t)"

definition tensor_ok :: "'a tensor \<Rightarrow> bool" where
  "tensor_ok t \<longleftrightarrow> length (elems t) = prod_list (shape t)"

definition outer :: "nat \<Rightarrow> 'a tensor \<Rightarrow> nat" where
  "outer k t = prod_list (take k (shape t))"

definition inner :: "nat \<Rightarrow> 'a tensor \<Rightarrow> nat" where
  "inner k t = prod_list (drop (Suc k) (shape t))"

definition axis_len :: "nat \<Rightarrow> 'a tensor \<Rightarrow> nat" where
  "axis_len k t = shape t ! k"

text \<open>The element at block \<open>b\<close>, axis position \<open>j\<close>, offset \<open>i\<close>.\<close>

definition elem :: "nat \<Rightarrow> 'a tensor \<Rightarrow> nat \<Rightarrow> nat \<Rightarrow> nat \<Rightarrow> 'a" where
  "elem k t b j i = elems t ! ((b * axis_len k t + j) * inner k t + i)"

text \<open>A block-structured list from a function of block, position and offset.\<close>

definition tabulate3 :: "nat \<Rightarrow> nat \<Rightarrow> nat \<Rightarrow> (nat \<Rightarrow> nat \<Rightarrow> nat \<Rightarrow> 'a) \<Rightarrow> 'a list" where
  "tabulate3 o' n m f =
     map (\<lambda>x. f (x div m div n) (x div m mod n) (x mod m)) [0..<o' * n * m]"

definition select_axis :: "nat \<Rightarrow> int \<Rightarrow> int \<Rightarrow> 'a tensor \<Rightarrow> 'a tensor" where
  "select_axis k a b t =
     (let lo = slice_index (axis_len k t) a; w = slice_index (axis_len k t) b - lo in
      \<lparr>shape = (shape t)[k := w],
       elems = tabulate3 (outer k t) w (inner k t) (\<lambda>c j i. elem k t c (lo + j) i)\<rparr>)"

text \<open>\<open>t[..., a:b, ...] = src\<close> along axis \<open>k\<close>.\<close>

definition assign_axis :: "nat \<Rightarrow> int \<Rightarrow> int \<Rightarrow> 'a tensor \<Rightarrow> 'a tensor \<Rightarrow> 'a tensor res" where
  "assign_axis k a b src t =
     (let lo = slice_index (axis_len k t) a; w = slice_index (axis_len k t) b - lo;
          v = axis_len k src in
      if (shape src)[k := 0] \<noteq> (shape t)[k := 0] \<or> (v \<noteq> w \<and> v \<noteq> 1) then Inl RuntimeError
      else Inr (t\<lparr>elems := tabulate3 (outer k t) (axis_len k t) (inner k t)
             (\<lambda>c j i. if lo \<le> j \<and> j < lo + w
                      then elem k src c (if v = 1 then 0 else j - lo) i else elem k t c j i)\<rparr>))"

definition view :: "nat list \<Rightarrow> 'a tensor \<Rightarrow> 'a tensor res" where
  "view sh t = (if prod_list sh = numel t then Inr (t\<lparr>shape := sh\<rparr>) else Inl RuntimeError)"

text \<open>\<open>t.flatten(0, 1)\<close>.\<close>

definition flatten01 :: "'a tensor \<Rightarrow> 'a tensor" where
  "flatten01 t = t\<lparr>shape := (shape t ! 0 * shape t ! 1) # drop 2 (shape t)\<rparr>"

text \<open>\<open>t[ids]\<close>: the first axis indexed by a list of indices, negative ones from the end.\<close>

definition index_first :: "int list \<Rightarrow> 'a tensor \<Rightarrow> 'a tensor res" where
  "index_first ids t =
     (if list_all (\<lambda>i. - int (axis_len 0 t) \<le> i \<and> i < int (axis_len 0 t)) ids
      then Inr \<lparr>shape = (shape t)[0 := length ids],
                elems = tabulate3 1 (length ids) (inner 0 t)
                  (\<lambda>c j i. elem 0 t 0 (nat (if ids ! j < 0 then int (axis_len 0 t) + ids ! j else ids ! j)) i)\<rparr>
      else Inl IndexError)"

section \<open>Block arithmetic\<close>

lemma block_decode:
  assumes "j < n" "i < (m :: nat)"
  shows "((b * n + j) * m + i) div m = b * n + j" "((b * n + j) * m + i) mod m = i"
    "(b * n + j) div n = b" "(b * n + j) mod n = j"
  using assms by auto

lemma block_less:
  assumes "b < o'" "j < n" "i < (m :: nat)"
  shows "(b * n + j) * m + i < o' * n * m"
proof -
  have "b * n + j < o' * n"
  proof -
    have "b * n + j < Suc b * n" using assms(2) by simp
    also have "\<dots> \<le> o' * n" using assms(1) by (intro mult_le_mono1) simp
    finally show ?thesis .
  qed
  then have "(b * n + j) * m + i < Suc (b * n + j) * m \<and> Suc (b * n + j) * m \<le> o' * n * m"
    using assms(3) by (intro conjI mult_le_mono1) auto
  then show ?thesis by linarith
qed

lemma block_encode:
  fixes m :: nat
  assumes "x < o' * n * m"
  shows "x = (x div m div n * n + x div m mod n) * m + x mod m"
    "x div m div n < o'" "x div m mod n < n" "x mod m < m"
proof -
  from assms have m: "0 < m" and n: "0 < n" by (auto intro!: Nat.gr0I)
  show "x = (x div m div n * n + x div m mod n) * m + x mod m" by simp
  have "x div m < o' * n" using assms by (simp add: less_mult_imp_div_less)
  then show "x div m div n < o'" by (simp add: less_mult_imp_div_less)
  show "x div m mod n < n" "x mod m < m" using m n by auto
qed

lemma length_tabulate3 [simp]: "length (tabulate3 o' n m f) = o' * n * m"
  by (simp add: tabulate3_def)

lemma nth_tabulate3:
  assumes "b < o'" "j < n" "i < m"
  shows "tabulate3 o' n m f ! ((b * n + j) * m + i) = f b j i"
  using block_less [OF assms] block_decode [OF assms(2,3)] by (simp add: tabulate3_def)

lemma tabulate3_cong:
  assumes "\<And>b j i. b < o' \<Longrightarrow> j < n \<Longrightarrow> i < m \<Longrightarrow> f b j i = g b j i"
  shows "tabulate3 o' n m f = tabulate3 o' n m g"
proof -
  { fix x assume "x \<in> set [0..<o' * n * m]"
    then have "x < o' * n * m" by simp
    from assms [OF block_encode(2-4) [OF this]]
    have "f (x div m div n) (x div m mod n) (x mod m) = g (x div m div n) (x div m mod n) (x mod m)" . }
  then show ?thesis unfolding tabulate3_def by simp
qed

lemma tabulate3_eq_iff:
  "tabulate3 o' n m f = tabulate3 o' n m g \<longleftrightarrow> (\<forall>b<o'. \<forall>j<n. \<forall>i<m. f b j i = g b j i)"
proof
  assume eq: "tabulate3 o' n m f = tabulate3 o' n m g"
  show "\<forall>b<o'. \<forall>j<n. \<forall>i<m. f b j i = g b j i"
  proof (intro allI impI)
    fix b j i assume b: "b < o'" "j < n" "i < m"
    show "f b j i = g b j i" using nth_tabulate3 [OF b, of f] nth_tabulate3 [OF b, of g] eq by simp
  qed
next
  assume "\<forall>b<o'. \<forall>j<n. \<forall>i<m. f b j i = g b j i"
  then show "tabulate3 o' n m f = tabulate3 o' n m g" by (intro tabulate3_cong) simp
qed

lemma prod_split:
  assumes "k < length sh"
  shows "prod_list sh = prod_list (take k sh) * sh ! k * prod_list (drop (Suc k) (sh :: nat list))"
proof -
  have "sh = take k sh @ sh ! k # drop (Suc k) sh" using assms by (simp add: id_take_nth_drop)
  then have "prod_list sh = prod_list (take k sh @ sh ! k # drop (Suc k) sh)" by simp
  also have "\<dots> = prod_list (take k sh) * sh ! k * prod_list (drop (Suc k) sh)"
    by (simp add: mult.assoc)
  finally show ?thesis .
qed

lemma tensor_ok_axis:
  "tensor_ok t \<Longrightarrow> k < length (shape t) \<Longrightarrow> length (elems t) = outer k t * axis_len k t * inner k t"
  by (simp add: tensor_ok_def outer_def axis_len_def inner_def prod_split)

text \<open>A tensor is its table of elements.\<close>

lemma elems_tabulate3:
  assumes "tensor_ok t" "k < length (shape t)"
  shows "elems t = tabulate3 (outer k t) (axis_len k t) (inner k t) (elem k t)"
proof (rule nth_equalityI)
  show "length (elems t) = length (tabulate3 (outer k t) (axis_len k t) (inner k t) (elem k t))"
    using tensor_ok_axis [OF assms] by simp
  fix x assume "x < length (elems t)"
  then have x: "x < outer k t * axis_len k t * inner k t" using tensor_ok_axis [OF assms] by simp
  have "tabulate3 (outer k t) (axis_len k t) (inner k t) (elem k t) ! x
    = elem k t (x div inner k t div axis_len k t) (x div inner k t mod axis_len k t) (x mod inner k t)"
    using x by (simp add: tabulate3_def)
  also have "\<dots> = elems t ! x"
    unfolding elem_def using block_encode(1) [OF x] by simp
  finally show "elems t ! x = tabulate3 (outer k t) (axis_len k t) (inner k t) (elem k t) ! x" by simp
qed

lemma elem_of_tabulate3:
  assumes "elems t = tabulate3 (outer k t) (axis_len k t) (inner k t) f"
    and "b < outer k t" "j < axis_len k t" "i < inner k t"
  shows "elem k t b j i = f b j i"
  using nth_tabulate3 [OF assms(2-4), of f] assms(1) by (simp add: elem_def)

section \<open>Slices\<close>

lemma axis_update [simp]:
  "outer k (t\<lparr>elems := e\<rparr>) = outer k t" "inner k (t\<lparr>elems := e\<rparr>) = inner k t"
  "axis_len k (t\<lparr>elems := e\<rparr>) = axis_len k t"
  by (simp_all add: outer_def inner_def axis_len_def)

lemma select_axis_dims [simp]:
  assumes "k < length (shape t)"
  shows "outer k (select_axis k a b t) = outer k t" "inner k (select_axis k a b t) = inner k t"
    "axis_len k (select_axis k a b t) = slice_index (axis_len k t) b - slice_index (axis_len k t) a"
    "shape (select_axis k a b t) = (shape t)[k := slice_index (axis_len k t) b - slice_index (axis_len k t) a]"
  using assms by (simp_all add: select_axis_def Let_def outer_def inner_def axis_len_def)

lemma tensor_ok_select:
  "k < length (shape t) \<Longrightarrow> tensor_ok (select_axis k a b t)"
  by (simp add: tensor_ok_def prod_split [of k] select_axis_def Let_def outer_def inner_def axis_len_def)

lemma elem_select:
  assumes "k < length (shape t)" "c < outer k t"
    "j < slice_index (axis_len k t) b - slice_index (axis_len k t) a" "i < inner k t"
  shows "elem k (select_axis k a b t) c j i = elem k t c (slice_index (axis_len k t) a + j) i"
proof (rule elem_of_tabulate3)
  show "elems (select_axis k a b t)
    = tabulate3 (outer k (select_axis k a b t)) (axis_len k (select_axis k a b t)) (inner k (select_axis k a b t))
        (\<lambda>c j i. elem k t c (slice_index (axis_len k t) a + j) i)"
    using assms(1) by (simp add: select_axis_def Let_def outer_def inner_def axis_len_def)
qed (use assms in simp_all)

text \<open>A prefix of a prefix is a prefix.\<close>

lemma select_select:
  assumes k: "k < length (shape t)" and p: "p \<le> n" "n \<le> axis_len k t"
  shows "select_axis k 0 (int p) (select_axis k 0 (int n) t) = select_axis k 0 (int p) t"
proof -
  let ?s = "select_axis k 0 (int n) t"
  have si: "slice_index (axis_len k t) (int n) = n" "slice_index (axis_len k t) (int p) = p"
    "slice_index n (int p) = p" "slice_index m 0 = 0" for m
    using p by (auto simp: slice_index_def)
  have ks: "k < length (shape ?s)" "axis_len k ?s = n" using k si by simp_all
  have "tabulate3 (outer k t) p (inner k t) (\<lambda>c j i. elem k ?s c j i)
    = tabulate3 (outer k t) p (inner k t) (\<lambda>c j i. elem k t c j i)"
  proof (rule tabulate3_cong)
    fix c j i assume c: "c < outer k t" "j < p" "i < inner k t"
    show "elem k ?s c j i = elem k t c j i"
      using elem_select [OF k c(1), of j "int n" 0 i] c p(1) si by simp
  qed
  then show ?thesis using k ks si by (simp add: select_axis_def [of k 0 "int p"] Let_def)
qed

lemma list_update_same_dims:
  assumes "xs[k := 0] = ys[k := 0]"
  shows "take k xs = take k ys" "drop (Suc k) xs = drop (Suc k) ys" "length xs = length (ys :: nat list)"
proof -
  have "take k (xs[k := 0]) = take k (ys[k := 0])" "drop (Suc k) (xs[k := 0]) = drop (Suc k) (ys[k := 0])"
    using assms by simp_all
  then show "take k xs = take k ys" "drop (Suc k) xs = drop (Suc k) ys" by simp_all
  show "length xs = length ys" using assms by (metis length_list_update)
qed

text \<open>Reading the first \<open>n\<close> positions after a slice assignment that ends at \<open>n\<close>.\<close>

lemma assign_then_select:
  assumes t: "tensor_ok t" "k < length (shape t)" and src: "tensor_ok new"
    and dims: "shape new = (shape t)[k := n]"
    and pn: "p \<le> n" and n: "n \<le> axis_len k t"
    and old: "elems (select_axis k 0 (int p) t) = elems (select_axis k 0 (int p) new)"
  shows "\<exists>t'. assign_axis k (int p) (int n) (select_axis k (int p) (int n) new) t = Inr t'
     \<and> tensor_ok t' \<and> shape t' = shape t
     \<and> elems (select_axis k 0 (int n) t') = elems new
     \<and> (\<forall>c < outer k t. \<forall>j < axis_len k t. \<forall>i < inner k t. n \<le> j \<longrightarrow> elem k t' c j i = elem k t c j i)"
proof -
  let ?s = "select_axis k (int p) (int n) new"
  have kn: "k < length (shape new)" using t(2) dims by simp
  have nd: "outer k new = outer k t" "inner k new = inner k t" "axis_len k new = n"
    using t(2) dims by (simp_all add: outer_def inner_def axis_len_def)
  have si: "slice_index (axis_len k t) (int p) = p" "slice_index (axis_len k t) (int n) = n"
    "slice_index n (int p) = p" "slice_index n (int n) = n" "slice_index m 0 = 0" for m
    using pn n by (auto simp: slice_index_def)
  have sd: "axis_len k ?s = n - p" "(shape ?s)[k := 0] = (shape t)[k := 0]"
    using kn nd si dims by simp_all
  define f where "f = (\<lambda>c j i. if p \<le> j \<and> j < n
     then elem k ?s c (if n - p = 1 then 0 else j - p) i else elem k t c j i)"
  define t' where "t' = t\<lparr>elems := tabulate3 (outer k t) (axis_len k t) (inner k t) f\<rparr>"
  have assign: "assign_axis k (int p) (int n) ?s t = Inr t'"
    unfolding assign_axis_def Let_def sd si f_def t'_def using pn by simp
  have dims': "outer k t' = outer k t" "inner k t' = inner k t" "axis_len k t' = axis_len k t" "shape t' = shape t"
    by (simp_all add: t'_def)
  have ok': "tensor_ok t'"
    using t(2) by (simp add: t'_def tensor_ok_def prod_split [of k] outer_def inner_def axis_len_def)
  have e': "elem k t' c j i = f c j i" if "c < outer k t" "j < axis_len k t" "i < inner k t" for c j i
    by (rule elem_of_tabulate3) (use that dims' in \<open>simp_all add: t'_def\<close>)
  have es: "elem k ?s c j i = elem k new c (p + j) i"
    if "c < outer k t" "j < n - p" "i < inner k t" for c j i
    using elem_select [OF kn, of c j "int n" "int p" i] that nd si by simp
  have old_elem: "elem k t c j i = elem k new c j i" if "c < outer k t" "j < p" "i < inner k t" for c j i
  proof -
    have "elem k (select_axis k 0 (int p) t) c j i = elem k (select_axis k 0 (int p) new) c j i"
      using old t(2) kn nd si by (simp add: elem_def)
    then show ?thesis
      using elem_select [OF t(2), of c j "int p" 0 i] elem_select [OF kn, of c j "int p" 0 i] that nd si by simp
  qed
  have feq: "f c j i = elem k new c j i" if c: "c < outer k t" "j < n" "i < inner k t" for c j i
  proof (cases "p \<le> j")
    case True
    have "n - p = 1 \<Longrightarrow> j = p" using True c(2) by linarith
    then have "f c j i = elem k ?s c (j - p) i" using True c(2) by (simp add: f_def)
    also have "\<dots> = elem k new c j i" using es [of c "j - p" i] True c by simp
    finally show ?thesis .
  next
    case False
    then show ?thesis using old_elem [OF c(1) _ c(3)] c(2) by (simp add: f_def)
  qed
  have "elems (select_axis k 0 (int n) t')
    = tabulate3 (outer k t) n (inner k t) (\<lambda>c j i. elem k t' c j i)"
    using si dims' by (simp add: select_axis_def Let_def)
  also have "\<dots> = tabulate3 (outer k t) n (inner k t) (elem k new)"
    using e' feq n by (intro tabulate3_cong) auto
  also have "\<dots> = elems new" using elems_tabulate3 [OF src kn] nd by simp
  finally have sel: "elems (select_axis k 0 (int n) t') = elems new" .
  have rest: "\<forall>c < outer k t. \<forall>j < axis_len k t. \<forall>i < inner k t. n \<le> j \<longrightarrow> elem k t' c j i = elem k t c j i"
    using e' by (auto simp: f_def)
  show ?thesis using assign ok' dims'(4) sel rest by blast
qed

text \<open>An assignment whose source is wider than the room left fails, except for a source of width one.\<close>

lemma assign_overflow:
  assumes "k < length (shape t)" "k < length (shape new)" "axis_len k new = n" "p < n"
    and "axis_len k t < n" "n - p \<noteq> 1"
  shows "assign_axis k (int p) (int n) (select_axis k (int p) (int n) new) t = Inl RuntimeError"
proof -
  let ?s = "select_axis k (int p) (int n) new"
  have "axis_len k ?s = n - p"
    using assms by (simp add: slice_index_def)
  moreover have "slice_index (axis_len k t) (int n) - slice_index (axis_len k t) (int p) = axis_len k t - min (axis_len k t) p"
    using assms by (auto simp: slice_index_def)
  moreover have "axis_len k t - min (axis_len k t) p \<noteq> n - p" using assms by (auto simp: min_def)
  ultimately show ?thesis using assms(6) unfolding assign_axis_def Let_def by simp
qed

end
