(* ===== verification/KV_Cache.thy ===== *)
theory KV_Cache
  imports Tensors
begin

text \<open>
  Models \<open>src/drift/utils/kv_cache.py\<close> (the contiguous cache layouts: descriptor sizing,
  prefix selection, write-back) and the numeric helpers of \<open>src/drift/utils/misc.py\<close>.
  \<open>PerDeviceTensors\<close> is a marker around the same list and is not represented. In-place
  updates return the tensors they leave behind, also when they raise half-way.
\<close>

section \<open>Element types and attention geometry\<close>

datatype dtype = DBool | DQInt8 | DQInt32 | DInt nat | DFloat nat | DComplex nat

text \<open>\<open>torch.iinfo\<close> rejects complex types, so the factor for them is never reached.\<close>

definition get_size_in_bytes :: "dtype \<Rightarrow> nat res" where
  "get_size_in_bytes dt =
     (case dt of DBool \<Rightarrow> Inr 1 | DQInt8 \<Rightarrow> Inr 1 | DQInt32 \<Rightarrow> Inr 4
      | DFloat b \<Rightarrow> Inr (b div 8) | DInt b \<Rightarrow> Inr (b div 8) | DComplex b \<Rightarrow> Inl TypeError)"

record model_config =
  cfg_head_dim :: "nat option"
  hidden_size :: nat
  num_attention_heads :: nat
  cfg_kv_groups :: "nat option"
  cfg_kv_heads :: "nat option"
  qk_nope_head_dim :: nat
  qk_rope_head_dim :: nat
  mla_v_head_dim :: nat
  alibi :: bool
  cfg_model_type :: string
  softcapping :: bool

definition default_attn_implementation :: "model_config \<Rightarrow> string" where
  "default_attn_implementation cfg =
     (if (alibi cfg \<or> cfg_model_type cfg = ''bloom'') \<or> softcapping cfg then ''eager'' else ''sdpa'')"

definition int_div :: "nat \<Rightarrow> nat \<Rightarrow> nat res" where
  "int_div a b = (if b = 0 then Inl ZeroDivisionError else Inr (a div b))"

definition get_num_key_value_groups :: "model_config \<Rightarrow> nat res" where
  "get_num_key_value_groups cfg =
     (case cfg_kv_groups cfg of
        Some g \<Rightarrow> Inr g
      | None \<Rightarrow> int_div (num_attention_heads cfg)
          (case cfg_kv_heads cfg of None \<Rightarrow> num_attention_heads cfg | Some h \<Rightarrow> h))"

text \<open>
  The attention module as \<open>get_num_attention_heads\<close> sees it: its \<open>num_heads\<close> and \<open>head_dim\<close>
  attributes and the first projection it has, by name, with its output width.
\<close>

record attn_module =
  am_num_heads :: "nat option"
  am_head_dim :: "nat option"
  am_q_proj :: "nat option"
  am_query_key_value :: "nat option"
  am_query :: "nat option"

definition get_num_attention_heads :: "attn_module \<Rightarrow> model_config \<Rightarrow> nat res" where
  "get_num_attention_heads m cfg =
     (case am_num_heads m of
        Some n \<Rightarrow> Inr n
      | None \<Rightarrow>
         rbind (int_div (hidden_size cfg) (num_attention_heads cfg)) (\<lambda>derived.
           let head_dim = (case am_head_dim m of Some d \<Rightarrow> d | None \<Rightarrow> derived) in
           case am_q_proj m of
             Some w \<Rightarrow> int_div w head_dim
           | None \<Rightarrow>
              (case am_query_key_value m of
                 Some _ \<Rightarrow> Inr (num_attention_heads cfg)
               | None \<Rightarrow>
                  (case am_query m of
                     Some w \<Rightarrow> int_div w head_dim
                   | None \<Rightarrow> Inr (num_attention_heads cfg)))))"

section \<open>Descriptors\<close>

record 'd descriptor =
  d_size :: "nat list"
  d_dtype :: dtype
  d_device :: 'd

definition descr_numel :: "'d descriptor \<Rightarrow> nat" where
  "descr_numel d = prod_list (d_size d)"

definition head_dim_of :: "model_config \<Rightarrow> nat option \<Rightarrow> nat res" where
  "head_dim_of cfg head_dim =
     (case head_dim of
        Some d \<Rightarrow> Inr d
      | None \<Rightarrow> (case cfg_head_dim cfg of
                   Some d \<Rightarrow> if d \<noteq> 0 then Inr d else int_div (hidden_size cfg) (num_attention_heads cfg)
                 | None \<Rightarrow> int_div (hidden_size cfg) (num_attention_heads cfg)))"

definition shard_descriptors ::
  "nat \<Rightarrow> nat \<Rightarrow> dtype \<Rightarrow> nat \<Rightarrow> nat \<Rightarrow> nat \<Rightarrow> 'd \<times> nat \<Rightarrow> 'd descriptor list res" where
  "shard_descriptors batch_size max_length dt groups k_dim v_dim shard =
     rbind (int_div (snd shard) groups) (\<lambda>num_kv_heads.
       Inr [\<lparr>d_size = [batch_size, num_kv_heads, k_dim, max_length], d_dtype = dt, d_device = fst shard\<rparr>,
            \<lparr>d_size = [batch_size, num_kv_heads, max_length, v_dim], d_dtype = dt, d_device = fst shard\<rparr>])"

definition gqa_cache_descriptors ::
  "model_config \<Rightarrow> nat \<Rightarrow> nat \<Rightarrow> dtype \<Rightarrow> 'd list \<Rightarrow> nat list \<Rightarrow> nat option \<Rightarrow> nat option
   \<Rightarrow> 'd descriptor list res" where
  "gqa_cache_descriptors cfg batch_size max_length dt devices shard_num_heads head_dim groups =
     rbind (head_dim_of cfg head_dim) (\<lambda>hd.
     rbind (case groups of Some g \<Rightarrow> Inr g
            | None \<Rightarrow> (case cfg_kv_groups cfg of Some g \<Rightarrow> Inr g | None \<Rightarrow> Inl GenericException)) (\<lambda>g.
     rbind (rmap (shard_descriptors batch_size max_length dt g hd hd) (zip devices shard_num_heads)) (\<lambda>ds.
     Inr (concat ds))))"

text \<open>The MLA layout ignores the overrides and gives keys and values different head dims.\<close>

definition mla_cache_descriptors ::
  "model_config \<Rightarrow> nat \<Rightarrow> nat \<Rightarrow> dtype \<Rightarrow> 'd list \<Rightarrow> nat list \<Rightarrow> nat option \<Rightarrow> nat option
   \<Rightarrow> 'd descriptor list res" where
  "mla_cache_descriptors cfg batch_size max_length dt devices shard_num_heads head_dim groups =
     rbind (case cfg_kv_groups cfg of Some g \<Rightarrow> Inr g | None \<Rightarrow> Inl GenericException) (\<lambda>g.
     rbind (rmap (shard_descriptors batch_size max_length dt g
              (qk_nope_head_dim cfg + qk_rope_head_dim cfg) (mla_v_head_dim cfg)) (zip devices shard_num_heads)) (\<lambda>ds.
     Inr (concat ds)))"

section \<open>Prefix selection and write-back\<close>

text \<open>Cache tensors alternate keys and values; an odd one out has no partner in \<open>zip\<close>.\<close>

fun select_layer_past :: "int \<Rightarrow> 'a tensor list \<Rightarrow> 'a tensor list" where
  "select_layer_past prefix_length (key # value # ts) =
     select_axis 2 0 prefix_length (flatten01 key) # select_axis 1 0 prefix_length (flatten01 value)
     # select_layer_past prefix_length ts"
| "select_layer_past prefix_length ts = []"

definition write_tensor :: "nat \<Rightarrow> nat list \<Rightarrow> nat \<Rightarrow> int \<Rightarrow> 'a tensor \<Rightarrow> 'a tensor \<Rightarrow> 'a tensor res" where
  "write_tensor axis sh new_length prefix_length cache new =
     rbind (view sh new) (\<lambda>new'.
       assign_axis axis prefix_length (int new_length) (select_axis axis prefix_length (int new_length) new') cache)"

definition update_key :: "nat \<Rightarrow> int \<Rightarrow> 'a tensor \<Rightarrow> 'a tensor \<Rightarrow> 'a tensor res" where
  "update_key new_length prefix_length cache new =
     write_tensor 3 (take 3 (shape cache) @ [new_length]) new_length prefix_length cache new"

definition update_value :: "nat \<Rightarrow> int \<Rightarrow> 'a tensor \<Rightarrow> 'a tensor \<Rightarrow> 'a tensor res" where
  "update_value new_length prefix_length cache new =
     write_tensor 2 (take 2 (shape cache) @ [new_length, shape cache ! 3]) new_length prefix_length cache new"

fun update_keys :: "nat \<Rightarrow> int \<Rightarrow> 'a tensor list \<Rightarrow> 'a tensor list \<Rightarrow> unit res \<times> 'a tensor list" where
  "update_keys n p (k # ts) (nk # ns) =
     (case update_key n p k nk of
        Inl e \<Rightarrow> (Inl e, k # ts)
      | Inr k' \<Rightarrow>
          (case (ts, ns) of
             (v # ts', _ # ns') \<Rightarrow> let (r, ts'') = update_keys n p ts' ns' in (r, k' # v # ts'')
           | _ \<Rightarrow> (Inr (), k' # ts)))"
| "update_keys n p ts ns = (Inr (), ts)"

fun update_values :: "nat \<Rightarrow> int \<Rightarrow> 'a tensor list \<Rightarrow> 'a tensor list \<Rightarrow> unit res \<times> 'a tensor list" where
  "update_values n p (k # v # ts) (_ # nv # ns) =
     (case update_value n p v nv of
        Inl e \<Rightarrow> (Inl e, k # v # ts)
      | Inr v' \<Rightarrow> let (r, ts') = update_values n p ts ns in (r, k # v' # ts'))"
| "update_values n p ts ns = (Inr (), ts)"

definition update_cache :: "'a tensor list \<Rightarrow> 'a tensor list \<Rightarrow> int \<Rightarrow> unit res \<times> 'a tensor list" where
  "update_cache cache_tensors new_kvs prefix_length =
     (if new_kvs = [] \<or> shape (hd new_kvs) = [] then (Inl IndexError, cache_tensors)
      else
        let new_length = last (shape (hd new_kvs)) in
        case update_keys new_length prefix_length cache_tensors new_kvs of
          (Inl e, ts) \<Rightarrow> (Inl e, ts)
        | (Inr _, ts) \<Rightarrow> update_values new_length prefix_length ts new_kvs)"

section \<open>Exactness of the contiguous layout\<close>

text \<open>Alternating key and value tensors of one session: batch \<open>b\<close>, room for \<open>L\<close> tokens.\<close>

fun shards_ok :: "nat \<Rightarrow> nat \<Rightarrow> 'a tensor list \<Rightarrow> bool" where
  "shards_ok b L [] \<longleftrightarrow> True"
| "shards_ok b L [t] \<longleftrightarrow> False"
| "shards_ok b L (k # v # ts) \<longleftrightarrow> tensor_ok k \<and> tensor_ok v
     \<and> shape k = [b, shape k ! 1, shape k ! 2, L] \<and> shape v = [b, shape v ! 1, L, shape v ! 3]
     \<and> shards_ok b L ts"

text \<open>Keys and values of \<open>n\<close> tokens, as a block returns them for those shards.\<close>

fun kvs_ok :: "nat \<Rightarrow> 'a tensor list \<Rightarrow> 'a tensor list \<Rightarrow> bool" where
  "kvs_ok n [] [] \<longleftrightarrow> True"
| "kvs_ok n (k # v # ts) (nk # nv # ns) \<longleftrightarrow> tensor_ok nk \<and> tensor_ok nv
     \<and> shape nk = [shape k ! 0 * shape k ! 1, shape k ! 2, n]
     \<and> shape nv = [shape v ! 0 * shape v ! 1, n, shape v ! 3] \<and> kvs_ok n ts ns"
| "kvs_ok n _ _ \<longleftrightarrow> False"

text \<open>The first \<open>p\<close> tokens of such keys and values.\<close>

fun kvs_take :: "int \<Rightarrow> 'a tensor list \<Rightarrow> 'a tensor list" where
  "kvs_take p (nk # nv # ns) = select_axis 2 0 p nk # select_axis 1 0 p nv # kvs_take p ns"
| "kvs_take p _ = []"

lemma tensor_eqI: "shape s = shape t \<Longrightarrow> elems s = elems t \<Longrightarrow> s = (t :: 'a tensor)"
  by (cases s, cases t) simp

lemma select_flatten:
  assumes "length (shape t) = 4" "k \<in> {2, 3}"
  shows "elems (select_axis (k - 1) a b (flatten01 t)) = elems (select_axis k a b t)"
proof -
  obtain s0 s1 s2 s3 where sh: "shape t = [s0, s1, s2, s3]"
    using assms(1) by (auto simp: numeral_eq_Suc length_Suc_conv)
  have d: "outer (k - 1) (flatten01 t) = outer k t" "inner (k - 1) (flatten01 t) = inner k t"
    "axis_len (k - 1) (flatten01 t) = axis_len k t"
    using assms(2) sh by (auto simp: outer_def inner_def axis_len_def flatten01_def numeral_eq_Suc)
  have "elem (k - 1) (flatten01 t) = elem k t"
    unfolding elem_def d by (simp add: flatten01_def)
  then show ?thesis unfolding select_axis_def Let_def d by simp
qed

lemma select_flatten_shape:
  assumes "length (shape t) = 4" "k \<in> {2, 3}" "int n \<le> int (axis_len k t)"
  shows "shape (select_axis (k - 1) 0 (int n) (flatten01 t))
    = (case shape t of [a, b, c, d] \<Rightarrow> if k = 3 then [a * b, c, n] else [a * b, n, d] | _ \<Rightarrow> [])"
proof -
  obtain s0 s1 s2 s3 where sh: "shape t = [s0, s1, s2, s3]"
    using assms(1) by (auto simp: numeral_eq_Suc length_Suc_conv)
  show ?thesis using assms(2,3) sh
    by (auto simp: select_axis_def Let_def axis_len_def flatten01_def numeral_eq_Suc slice_index_def)
qed

lemma select_view:
  assumes "tensor_ok nw" "shape nw = [s0 * s1, x, y]" "k \<in> {2, 3}"
  shows "elems (select_axis k a b (nw\<lparr>shape := [s0, s1, x, y]\<rparr>)) = elems (select_axis (k - 1) a b nw)"
proof -
  have "flatten01 (nw\<lparr>shape := [s0, s1, x, y]\<rparr>) = nw"
    using assms(2) by (simp add: flatten01_def numeral_eq_Suc)
  then show ?thesis using select_flatten [of "nw\<lparr>shape := [s0, s1, x, y]\<rparr>" k a b] assms(3) by simp
qed

text \<open>One tensor: the write-back succeeds and reading back returns exactly what was written.\<close>

lemma write_tensor_exact:
  assumes c: "tensor_ok c" "shape c = [s0, s1, s2, s3]" and k: "k \<in> {2, 3}"
    and nw: "tensor_ok nw" "shape nw = (if k = 3 then [s0 * s1, s2, n] else [s0 * s1, n, s3])"
    and pn: "p \<le> n" "n \<le> shape c ! k"
    and old: "select_axis (k - 1) 0 (int p) (flatten01 c) = select_axis (k - 1) 0 (int p) nw"
  shows "\<exists>c'. write_tensor k (if k = 3 then [s0, s1, s2, n] else [s0, s1, n, s3]) n (int p) c nw = Inr c'
    \<and> tensor_ok c' \<and> shape c' = shape c \<and> select_axis (k - 1) 0 (int n) (flatten01 c') = nw"
proof -
  define sh where "sh = (if k = 3 then [s0, s1, s2, n] else [s0, s1, n, s3])"
  let ?v = "nw\<lparr>shape := sh\<rparr>"
  have v: "view sh nw = Inr ?v" using k nw by (auto simp: view_def numel_def sh_def)
  have vok: "tensor_ok ?v" using k nw by (auto simp: tensor_ok_def sh_def)
  have vsh: "shape ?v = (shape c)[k := n]" using k c(2) by (auto simp: sh_def numeral_eq_Suc)
  have kc: "k < length (shape c)" using c(2) k by auto
  have "elems (select_axis k 0 (int p) c) = elems (select_axis (k - 1) 0 (int p) (flatten01 c))"
    using select_flatten [of c k] c(2) k by simp
  also have "\<dots> = elems (select_axis (k - 1) 0 (int p) nw)" using old by simp
  also have "\<dots> = elems (select_axis k 0 (int p) ?v)"
    using select_view [OF nw(1), of s0 s1 _ _ k 0 "int p"] k nw(2) by (auto simp: sh_def)
  finally have "elems (select_axis k 0 (int p) c) = elems (select_axis k 0 (int p) ?v)" .
  then obtain c' where c': "assign_axis k (int p) (int n) (select_axis k (int p) (int n) ?v) c = Inr c'"
    "tensor_ok c'" "shape c' = shape c" "elems (select_axis k 0 (int n) c') = elems ?v"
    using assign_then_select [OF c(1) kc vok vsh pn(1)] pn(2) by (auto simp: axis_len_def)
  have "elems (select_axis (k - 1) 0 (int n) (flatten01 c')) = elems nw"
    using select_flatten [of c' k] c'(3,4) c(2) k by simp
  moreover have "shape (select_axis (k - 1) 0 (int n) (flatten01 c')) = shape nw"
    using select_flatten_shape [of c' k n] c'(3) c(2) k pn(2) nw(2) by (auto simp: axis_len_def)
  ultimately have "select_axis (k - 1) 0 (int n) (flatten01 c') = nw" by (intro tensor_eqI)
  then show ?thesis using c' v by (auto simp: write_tensor_def sh_def)
qed

lemma update_key_exact:
  assumes "tensor_ok k" "shape k = [b, h, d, L]" "tensor_ok nk" "shape nk = [b * h, d, n]" "p \<le> n" "n \<le> L"
    and "select_axis 2 0 (int p) (flatten01 k) = select_axis 2 0 (int p) nk"
  shows "\<exists>k'. update_key n (int p) k nk = Inr k' \<and> tensor_ok k' \<and> shape k' = shape k
    \<and> select_axis 2 0 (int n) (flatten01 k') = nk"
  using write_tensor_exact [of k b h d L 3 nk n p] assms by (simp add: update_key_def numeral_eq_Suc)

lemma update_value_exact:
  assumes "tensor_ok v" "shape v = [b, h, L, d]" "tensor_ok nv" "shape nv = [b * h, n, d]" "p \<le> n" "n \<le> L"
    and "select_axis 1 0 (int p) (flatten01 v) = select_axis 1 0 (int p) nv"
  shows "\<exists>v'. update_value n (int p) v nv = Inr v' \<and> tensor_ok v' \<and> shape v' = shape v
    \<and> select_axis 1 0 (int n) (flatten01 v') = nv"
  using write_tensor_exact [of v b h L d 2 nv n p] assms by (simp add: update_value_def numeral_eq_Suc)

lemma update_loops_exact:
  assumes "shards_ok b L ts" "kvs_ok n ts ns" "p \<le> n" "n \<le> L"
    and "select_layer_past (int p) ts = kvs_take (int p) ns"
  shows "\<exists>ts' ts''. update_keys n (int p) ts ns = (Inr (), ts') \<and> update_values n (int p) ts' ns = (Inr (), ts'')
    \<and> shards_ok b L ts'' \<and> select_layer_past (int n) ts'' = ns"
  using assms
proof (induction b L ts arbitrary: ns rule: shards_ok.induct)
  case (1 b L)
  then have "ns = []" by (cases ns) auto
  then show ?case by simp
next
  case (2 b L t)
  then show ?case by simp
next
  case (3 b L k v ts)
  from 3(3) obtain nk nv ns' where ns: "ns = nk # nv # ns'"
    by (cases "(n, k # v # ts, ns)" rule: kvs_ok.cases) auto
  from 3(2) have k: "tensor_ok k" "shape k = [b, shape k ! 1, shape k ! 2, L]"
    and v: "tensor_ok v" "shape v = [b, shape v ! 1, L, shape v ! 3]" and r: "shards_ok b L ts" by simp_all
  have k0: "shape k ! 0 = b" "shape v ! 0 = b" using arg_cong [OF k(2), of hd] arg_cong [OF v(2), of hd] k(2) v(2)
    by (metis nth_Cons_0)+
  from 3(3) ns have nk: "tensor_ok nk" "shape nk = [b * shape k ! 1, shape k ! 2, n]"
    and nv: "tensor_ok nv" "shape nv = [b * shape v ! 1, n, shape v ! 3]" and rk: "kvs_ok n ts ns'"
    using k0 by simp_all
  from 3(6) ns have old: "select_axis 2 0 (int p) (flatten01 k) = select_axis 2 0 (int p) nk"
    "select_axis 1 0 (int p) (flatten01 v) = select_axis 1 0 (int p) nv"
    "select_layer_past (int p) ts = kvs_take (int p) ns'" by simp_all
  obtain k' where k': "update_key n (int p) k nk = Inr k'" "tensor_ok k'" "shape k' = shape k"
    "select_axis 2 0 (int n) (flatten01 k') = nk"
    using update_key_exact [OF k nk 3(4,5) old(1)] by blast
  obtain v' where v': "update_value n (int p) v nv = Inr v'" "tensor_ok v'" "shape v' = shape v"
    "select_axis 1 0 (int n) (flatten01 v') = nv"
    using update_value_exact [OF v nv 3(4,5) old(2)] by blast
  obtain ts' ts'' where ts: "update_keys n (int p) ts ns' = (Inr (), ts')"
    "update_values n (int p) ts' ns' = (Inr (), ts'')" "shards_ok b L ts''" "select_layer_past (int n) ts'' = ns'"
    using 3(1) [OF r rk 3(4,5) old(3)] by blast
  have "shards_ok b L (k' # v' # ts'')" using k' v' k v ts(3) by simp
  then show ?case using k' v' ts ns by simp
qed

text \<open>Reading a shorter prefix is reading the longer one and cutting it.\<close>

lemma select_layer_past_prefix:
  assumes "shards_ok b L ts" "p \<le> n" "n \<le> L"
  shows "select_layer_past (int p) ts = kvs_take (int p) (select_layer_past (int n) ts)"
  using assms
proof (induction b L ts rule: shards_ok.induct)
  case (3 b L k v ts)
  then obtain h d h' d' where "shape k = [b, h, d, L]" "shape v = [b, h', L, d']" by force
  then show ?case using 3
    by (simp add: select_select flatten01_def axis_len_def numeral_eq_Suc)
qed simp_all

text \<open>
  The contiguous cache is exact: if the cached prefix is the prefix of the keys and values the
  block returned, writing them back succeeds and the longer prefix reads as exactly those.
\<close>

lemma update_cache_exact:
  assumes "shards_ok b L ts" "kvs_ok n ts ns" "ts \<noteq> []" "p \<le> n" "n \<le> L"
    and "select_layer_past (int p) ts = kvs_take (int p) ns"
  shows "\<exists>ts'. update_cache ts ns (int p) = (Inr (), ts') \<and> shards_ok b L ts'
    \<and> select_layer_past (int n) ts' = ns"
proof -
  obtain k v us where us: "ts = k # v # us" using assms(1,3) by (cases "(b, L, ts)" rule: shards_ok.cases) auto
  obtain nk nv ms where ms: "ns = nk # nv # ms" "shape nk = [shape k ! 0 * shape k ! 1, shape k ! 2, n]"
    using assms(2) us by (cases "(n, ts, ns)" rule: kvs_ok.cases) auto
  have "shape (hd ns) \<noteq> []" "last (shape (hd ns)) = n" "ns \<noteq> []" using ms by simp_all
  with update_loops_exact [OF assms(1,2,4,5,6)] show ?thesis
    by (auto simp: update_cache_def Let_def)
qed

lemma gqa_descriptor_sizes:
  fixes devices :: "'d list"
  assumes "gqa_cache_descriptors cfg b L dt devices heads (Some w) (Some g) = Inr ds"
  shows "map d_size ds = concat (map (\<lambda>h. [[b, h div g, w, L], [b, h div g, L, w]]) (take (length devices) heads))"
proof -
  have sizes: "map d_size (concat ds') = concat (map (\<lambda>h. [[b, h div g, w, L], [b, h div g, L, w]]) (map snd zs))"
    if "rmap (shard_descriptors b L dt g w w) zs = Inr ds'" for zs :: "('d \<times> nat) list" and ds'
    using that
    by (induction zs arbitrary: ds') (auto simp: res_simps shard_descriptors_def int_div_def split: if_splits)
  from assms obtain x where x: "rmap (shard_descriptors b L dt g w w) (zip devices heads) = Inr x" "ds = concat x"
    unfolding gqa_cache_descriptors_def head_dim_of_def by (auto simp: res_simps)
  have "map snd (zip devices heads) = take (length devices) heads"
    by (simp add: map_snd_zip_take take_all_iff min_def)
  then show ?thesis using sizes [OF x(1)] x(2) by (simp only:)
qed

end
