(* ===== verification/Paged_Pool.thy ===== *)
theory Paged_Pool
  imports Py_Strings
begin

text \<open>
  Models \<open>PagedKVPool\<close> of \<open>src/drift/server/memory_cache.py\<close>: the paged key/value store
  all inference sessions of a server share. Keys and values are only ever indexed along
  the token axis, so a physical page is a list of \<open>page_size\<close> cells, a cell being the
  pair of key and value columns of one token (over all heads): the element type \<open>'c\<close>.
  Operations that raise may already have changed the pool, so they return the result
  together with the pool they leave behind. Rows are lists of page numbers, held by
  value: the code shares a row between two entries only for negative beam indices.
\<close>

section \<open>State\<close>

record 'c pool =
  num_pages :: nat
  page_size :: nat
  pages :: "'c list list"
  free_pages :: "nat list"
  block_tables :: "(int, nat list list) dict"

definition init_pool :: "'c \<Rightarrow> nat \<Rightarrow> nat \<Rightarrow> 'c pool" where
  "init_pool zero n ps =
     \<lparr>num_pages = n, page_size = ps, pages = replicate n (replicate ps zero),
      free_pages = [0..<n], block_tables = []\<rparr>"

definition num_free_pages :: "'c pool \<Rightarrow> nat" where
  "num_free_pages p = length (free_pages p)"

definition num_used_pages :: "'c pool \<Rightarrow> nat" where
  "num_used_pages p = num_pages p - length (free_pages p)"

section \<open>Operations\<close>

definition register_slot :: "int \<Rightarrow> nat \<Rightarrow> 'c pool \<Rightarrow> 'c pool" where
  "register_slot slot_id batch_size p =
     (if dict_has (block_tables p) slot_id then p
      else p\<lparr>block_tables := AList.update slot_id (replicate batch_size []) (block_tables p)\<rparr>)"

definition free_slot :: "int \<Rightarrow> 'c pool \<Rightarrow> 'c pool" where
  "free_slot slot_id p =
     (case map_of (block_tables p) slot_id of
        None \<Rightarrow> p
      | Some block_table \<Rightarrow>
          p\<lparr>block_tables := AList.delete slot_id (block_tables p),
            free_pages := free_pages p @ concat block_table\<rparr>)"

text \<open>\<open>_acquire_page\<close> pops the last free page.\<close>

definition acquire_page :: "nat list \<Rightarrow> (nat \<times> nat list) res" where
  "acquire_page free = (if free = [] then Inl AllocationFailed else Inr (last free, butlast free))"

definition row_cells :: "'c list list \<Rightarrow> nat list \<Rightarrow> 'c list" where
  "row_cells pgs row = concat (map (\<lambda>q. pgs ! q) row)"

text \<open>
  Gathering indexes the pool with a \<open>[batch, pages]\<close> tensor: ragged rows and a page count
  that does not reshape to the requested length are errors.
\<close>

definition gather :: "int \<Rightarrow> nat \<Rightarrow> 'c pool \<Rightarrow> 'c list list res" where
  "gather slot_id prefix_length p =
     rbind (dict_get (block_tables p) slot_id) (\<lambda>block_table.
       if prefix_length = 0 then Inr (replicate (length block_table) [])
       else
         let n = ceil_div prefix_length (page_size p); idx = map (take n) block_table in
         if block_table = [] then Inl IndexError
         else if \<not> list_all (\<lambda>r. length r = length (hd idx)) idx then Inl ValueError
         else if length (hd idx) \<noteq> n then Inl RuntimeError
         else Inr (map (\<lambda>row. take prefix_length (row_cells (pages p) row)) idx))"

text \<open>
  A negative prefix length, as a request may carry it: the pages from the end are left out, and the
  reshape to a negative number of tokens raises, except to \<open>-1\<close>, which stands for whatever there is.
  No pages at all are an index tensor of the wrong type.
\<close>

definition gather_at :: "int \<Rightarrow> int \<Rightarrow> 'c pool \<Rightarrow> 'c list list res" where
  "gather_at slot_id prefix_length p =
     (if 0 \<le> prefix_length then gather slot_id (nat prefix_length) p
      else
        rbind (dict_get (block_tables p) slot_id) (\<lambda>block_table.
          let n = - (- prefix_length div int (page_size p)); idx = map (\<lambda>row. py_slice row 0 n) block_table in
          if block_table = [] then Inl IndexError
          else if \<not> list_all (\<lambda>r. length r = length (hd idx)) idx then Inl ValueError
          else if hd idx = [] then Inl IndexError
          else if n * int (page_size p) \<noteq> -1 then Inl RuntimeError
          else Inr (map (\<lambda>row. butlast (row_cells (pages p) row)) idx)))"

function grow_row :: "nat \<Rightarrow> nat list \<Rightarrow> nat list \<Rightarrow> bool \<times> nat list \<times> nat list" where
  "grow_row n row free =
     (if length row < n
      then (case acquire_page free of
              Inl _ \<Rightarrow> (False, row, free)
            | Inr (pg, free') \<Rightarrow> grow_row n (row @ [pg]) free')
      else (True, row, free))"
  by pat_completeness auto
termination
  by (relation "measure (\<lambda>(n, row, free). n - length row)") auto

declare grow_row.simps [simp del]

fun grow_rows :: "nat \<Rightarrow> nat list list \<Rightarrow> nat list \<Rightarrow> bool \<times> nat list list \<times> nat list" where
  "grow_rows n [] free = (True, [], free)"
| "grow_rows n (row # rows) free =
     (let (ok, row', free') = grow_row n row free in
      if ok then let (ok', rows', free'') = grow_rows n rows free' in (ok', row' # rows', free'')
      else (False, row' # rows, free'))"

definition write_span :: "nat \<Rightarrow> 'c list \<Rightarrow> 'c list \<Rightarrow> 'c list" where
  "write_span off toks old = take off old @ toks @ drop (off + length toks) old"

text \<open>The page writes of \<open>scatter\<close>: for each logical page, one slice per batch row.\<close>

definition page_writes ::
  "nat \<Rightarrow> nat \<Rightarrow> nat \<Rightarrow> nat list list \<Rightarrow> 'c list list \<Rightarrow> (nat \<times> nat \<times> 'c list) list" where
  "page_writes ps prefix_length new_length table news =
     concat (map (\<lambda>lp.
       let tok_start = max prefix_length (lp * ps); tok_end = min new_length ((lp + 1) * ps) in
       map (\<lambda>(row, new). (row ! lp, tok_start - lp * ps, take (tok_end - tok_start) (drop tok_start new)))
         (zip table news))
       [prefix_length div ps..<ceil_div new_length ps])"

fun apply_writes :: "(nat \<times> nat \<times> 'c list) list \<Rightarrow> 'c list list \<Rightarrow> 'c list list" where
  "apply_writes [] pgs = pgs"
| "apply_writes ((q, off, toks) # ws) pgs = apply_writes ws (pgs[q := write_span off toks (pgs ! q)])"

definition scatter :: "int \<Rightarrow> nat \<Rightarrow> 'c list list \<Rightarrow> nat \<Rightarrow> 'c pool \<Rightarrow> unit res \<times> 'c pool" where
  "scatter slot_id new_length news prefix_length p =
    (case dict_get (block_tables p) slot_id of
       Inl e \<Rightarrow> (Inl e, p)
     | Inr block_table \<Rightarrow>
         if new_length \<le> prefix_length then (Inr (), p)
         else if length news \<noteq> length block_table then (Inl RuntimeError, p)
         else
           let (ok, table, free) = grow_rows (ceil_div new_length (page_size p)) block_table (free_pages p);
               p' = p\<lparr>block_tables := AList.update slot_id table (block_tables p), free_pages := free\<rparr> in
           if \<not> ok then (Inl AllocationFailed, p')
           else (Inr (), p'\<lparr>pages := apply_writes
                   (page_writes (page_size p) prefix_length new_length table news) (pages p)\<rparr>))"

text \<open>
  Of the negative prefixes only \<open>-1\<close> with pages of one token gets past \<open>gather_at\<close>; then the first page
  to write takes an empty slice of the new keys for its one position, which raises.
\<close>

definition scatter_at :: "int \<Rightarrow> nat \<Rightarrow> 'c list list \<Rightarrow> int \<Rightarrow> 'c pool \<Rightarrow> unit res \<times> 'c pool" where
  "scatter_at slot_id new_length news prefix_length p =
    (if 0 \<le> prefix_length then scatter slot_id new_length news (nat prefix_length) p
     else
       case dict_get (block_tables p) slot_id of
         Inl e \<Rightarrow> (Inl e, p)
       | Inr block_table \<Rightarrow>
           if length news \<noteq> length block_table then (Inl RuntimeError, p)
           else
             let (ok, table, free) = grow_rows (ceil_div new_length (page_size p)) block_table (free_pages p);
                 p' = p\<lparr>block_tables := AList.update slot_id table (block_tables p), free_pages := free\<rparr> in
             (Inl (if ok then RuntimeError else AllocationFailed), p'))"

fun copy_row :: "nat list \<Rightarrow> nat list \<Rightarrow> nat list \<Rightarrow> 'c list list \<Rightarrow> nat list res \<times> nat list \<times> 'c list list" where
  "copy_row [] copied free pgs = (Inr copied, free, pgs)"
| "copy_row (pg # row) copied free pgs =
     (case acquire_page free of
        Inl e \<Rightarrow> (Inl e, free, pgs)
      | Inr (new_page, free') \<Rightarrow> copy_row row (copied @ [new_page]) free' (pgs[new_page := pgs ! pg]))"

text \<open>The loop over destination rows, from what is built so far.\<close>

fun reorder_rows ::
  "nat list list \<Rightarrow> int list \<Rightarrow> nat list list \<Rightarrow> int list \<Rightarrow> nat list \<Rightarrow> 'c list list
   \<Rightarrow> (nat list list \<times> int list) res \<times> nat list \<times> 'c list list" where
  "reorder_rows table [] acc claimed free pgs = (Inr (acc, claimed), free, pgs)"
| "reorder_rows table (src # ids) acc claimed free pgs =
     (case py_get table src of
        Inl e \<Rightarrow> (Inl e, free, pgs)
      | Inr row \<Rightarrow>
          if src \<notin> set claimed
          then reorder_rows table ids (acc @ [row]) (claimed @ [src]) free pgs
          else (case copy_row row [] free pgs of
                  (Inl e, free', pgs') \<Rightarrow> (Inl e, free', pgs')
                | (Inr copied, free', pgs') \<Rightarrow>
                    reorder_rows table ids (acc @ [copied]) claimed free' pgs'))"

definition reclaimed :: "nat list list \<Rightarrow> int list \<Rightarrow> nat list" where
  "reclaimed table claimed =
     concat (map (\<lambda>(src, row). if int src \<notin> set claimed then row else [])
       (zip [0..<length table] table))"

definition reorder :: "int \<Rightarrow> int list \<Rightarrow> 'c pool \<Rightarrow> unit res \<times> 'c pool" where
  "reorder slot_id hypo_ids p =
    (case dict_get (block_tables p) slot_id of
       Inl e \<Rightarrow> (Inl e, p)
     | Inr table \<Rightarrow>
         (case reorder_rows table hypo_ids [] [] (free_pages p) (pages p) of
            (Inl e, free, pgs) \<Rightarrow> (Inl e, p\<lparr>free_pages := free, pages := pgs\<rparr>)
          | (Inr (new_table, claimed), free, pgs) \<Rightarrow>
              (Inr (), p\<lparr>free_pages := free @ reclaimed table claimed, pages := pgs,
                         block_tables := AList.update slot_id new_table (block_tables p)\<rparr>)))"

section \<open>Page ownership\<close>

definition table_pages :: "(int, nat list list) dict \<Rightarrow> nat list" where
  "table_pages tables = concat (concat (map snd tables))"

text \<open>
  Every physical page is owned exactly once: it is free, or it belongs to exactly one
  place of one row of one slot.
\<close>

definition pool_ok :: "'c pool \<Rightarrow> bool" where
  "pool_ok p \<longleftrightarrow> 0 < page_size p \<and> length (pages p) = num_pages p
     \<and> (\<forall>pg \<in> set (pages p). length pg = page_size p)
     \<and> dict_ok (block_tables p)
     \<and> mset (free_pages p) + mset (table_pages (block_tables p)) = mset [0..<num_pages p]"

lemma mset_table_pages_update:
  assumes "dict_ok d" "map_of d k = Some t"
  shows "mset (table_pages (AList.update k t' d)) + mset (concat t) = mset (table_pages d) + mset (concat t')"
  using assms
proof (induction d)
  case Nil
  then show ?case by simp
next
  case (Cons a d)
  then show ?case by (cases a) (auto simp: table_pages_def dict_ok_def ac_simps split: if_splits)
qed

lemma mset_table_pages_insert:
  "map_of d k = None \<Longrightarrow> mset (table_pages (AList.update k t' d)) = mset (table_pages d) + mset (concat t')"
  by (induction d) (auto simp: table_pages_def split: if_splits)

lemma mset_table_pages_delete:
  assumes "dict_ok d" "map_of d k = Some t"
  shows "mset (table_pages d) = mset (table_pages (AList.delete k d)) + mset (concat t)"
  using assms
proof (induction d)
  case Nil
  then show ?case by simp
next
  case (Cons a d)
  show ?case
  proof (cases "fst a = k")
    case True
    then have "k \<notin> fst ` set d" using Cons.prems(1) by (auto simp: dict_ok_def)
    then have "AList.delete k d = d" by (simp add: delete_id)
    with True Cons.prems show ?thesis by (cases a) (simp add: table_pages_def)
  next
    case False
    with Cons show ?thesis by (cases a) (auto simp: table_pages_def dict_ok_def)
  qed
qed

lemma pool_ok_table:
  assumes "pool_ok p" "map_of (block_tables p) k = Some t"
  shows "distinct (concat t)" "\<forall>q \<in> set (concat t). q < length (pages p)"
    "set (concat t) \<inter> set (free_pages p) = {}" "distinct (free_pages p)"
    "\<forall>q \<in> set (free_pages p). q < length (pages p)"
proof -
  let ?rest = "table_pages (AList.delete k (block_tables p))"
  have all: "mset (free_pages p @ ?rest @ concat t) = mset [0..<num_pages p]"
    using assms mset_table_pages_delete [of "block_tables p" k t] by (simp add: pool_ok_def)
  have d: "distinct (free_pages p @ ?rest @ concat t)"
    using mset_eq_imp_distinct_iff [OF all] by simp
  have s: "set (free_pages p @ ?rest @ concat t) = {0..<num_pages p}"
    using mset_eq_setD [OF all] by simp
  from d show "distinct (concat t)" "set (concat t) \<inter> set (free_pages p) = {}"
    "distinct (free_pages p)" by auto
  have n: "num_pages p = length (pages p)" using assms(1) by (simp add: pool_ok_def)
  show "\<forall>q \<in> set (concat t). q < length (pages p)" "\<forall>q \<in> set (free_pages p). q < length (pages p)"
    using s unfolding n by auto
qed

lemma pool_ok_other_slot:
  assumes "pool_ok p" "map_of (block_tables p) k = Some t" "map_of (block_tables p) k' = Some t'" "k \<noteq> k'"
  shows "set (concat t) \<inter> set (concat t') = {}"
proof -
  let ?d = "AList.delete k (block_tables p)"
  have d: "dict_ok (block_tables p)" using assms(1) by (simp add: pool_ok_def)
  have k': "map_of ?d k' = Some t'" using assms(3,4) by simp
  have "mset (free_pages p @ table_pages (AList.delete k' ?d) @ concat t' @ concat t) = mset [0..<num_pages p]"
    using assms(1) mset_table_pages_delete [OF d assms(2)] mset_table_pages_delete [OF _ k'] d
    by (simp add: pool_ok_def add.assoc)
  then have "distinct (free_pages p @ table_pages (AList.delete k' ?d) @ concat t' @ concat t)"
    using mset_eq_imp_distinct_iff by fastforce
  then show ?thesis by auto
qed

lemma pool_ok_init: "0 < ps \<Longrightarrow> pool_ok (init_pool z n ps)"
  by (auto simp: pool_ok_def init_pool_def table_pages_def)

lemma pool_ok_register: "pool_ok p \<Longrightarrow> pool_ok (register_slot s b p)"
proof -
  have "concat (replicate b []) = ([] :: nat list)" by (induction b) auto
  then show "pool_ok p \<Longrightarrow> pool_ok (register_slot s b p)"
    by (auto simp: pool_ok_def register_slot_def dict_has_def mset_table_pages_insert)
qed

lemma pool_ok_free: "pool_ok p \<Longrightarrow> pool_ok (free_slot s p)"
proof (cases "map_of (block_tables p) s")
  case None
  then show "pool_ok p \<Longrightarrow> pool_ok (free_slot s p)" by (simp add: free_slot_def)
next
  case (Some t)
  then show "pool_ok p \<Longrightarrow> pool_ok (free_slot s p)"
    using mset_table_pages_delete [of "block_tables p" s t]
    by (simp add: pool_ok_def free_slot_def ac_simps)
qed

end
