(* ===== verification/Paged_Pool_Correct.thy ===== *)
theory Paged_Pool_Correct
  imports Paged_Pool
begin

text \<open>
  Correctness of the paged pool: page ownership is preserved, a gather after a scatter
  returns exactly what a contiguous cache would hold, beam reordering is a permutation of
  the rows, and no operation on one session changes what another session reads.
\<close>

section \<open>Growing the block table\<close>

lemma grow_row_props:
  "grow_row n row free = (ok, row', free') \<Longrightarrow>
     (\<exists>ext. row' = row @ ext) \<and> mset free' + mset row' = mset free + mset row
     \<and> (ok \<longrightarrow> n \<le> length row') \<and> set free' \<subseteq> set free"
proof (induction n row free arbitrary: ok row' free' rule: grow_row.induct)
  case (1 n row free)
  show ?case
  proof (cases "length row < n \<and> free \<noteq> []")
    case True
    then have acq: "acquire_page free = Inr (last free, butlast free)"
      by (simp add: acquire_page_def)
    have "grow_row n (row @ [last free]) (butlast free) = (ok, row', free')"
      using 1(2) True acq by (simp add: grow_row.simps [of n row free])
    from 1(1) [OF _ acq refl this] True
    have IH: "(\<exists>ext. row' = (row @ [last free]) @ ext)"
      "mset free' + mset row' = mset (butlast free) + mset (row @ [last free])"
      "ok \<longrightarrow> n \<le> length row'" "set free' \<subseteq> set (butlast free)" by auto
    have "mset (butlast free) + {#last free#} = mset free"
      using True by (metis append_butlast_last_id mset.simps(1) mset.simps(2) mset_append add.commute)
    then show ?thesis using IH by (auto simp: ac_simps dest: in_set_butlastD)
  next
    case False
    then show ?thesis using 1(2)
      by (auto simp: grow_row.simps [of n row free] acquire_page_def split: if_splits)
  qed
qed

lemma grow_rows_props:
  "grow_rows n rows free = (ok, rows', free') \<Longrightarrow>
     list_all2 (\<lambda>r r'. \<exists>ext. r' = r @ ext) rows rows'
     \<and> mset free' + mset (concat rows') = mset free + mset (concat rows)
     \<and> (ok \<longrightarrow> (\<forall>r \<in> set rows'. n \<le> length r))"
proof (induction rows arbitrary: free ok rows' free')
  case Nil
  then show ?case by simp
next
  case (Cons row rows)
  obtain ok1 row1 free1 where g: "grow_row n row free = (ok1, row1, free1)" by (cases "grow_row n row free")
  note r = grow_row_props [OF g]
  show ?case
  proof (cases ok1)
    case True
    obtain ok2 rows2 free2 where g2: "grow_rows n rows free1 = (ok2, rows2, free2)"
      by (cases "grow_rows n rows free1")
    have eq: "ok = ok2" "rows' = row1 # rows2" "free' = free2"
      using Cons.prems g g2 True by auto
    have m: "mset free2 + mset (concat rows2) = mset free1 + mset (concat rows)"
      using Cons.IH [OF g2] by blast
    have "mset free' + mset (concat rows') = mset row1 + (mset free1 + mset (concat rows))"
      unfolding eq m [symmetric] by (simp add: ac_simps)
    also have "\<dots> = mset free + mset (concat (row # rows))"
      using r by (metis add.assoc add.commute concat.simps(2) mset_append)
    finally show ?thesis using Cons.IH [OF g2] r eq True by auto
  next
    case False
    then have eq: "ok = False" "rows' = row1 # rows" "free' = free1" using Cons.prems g by auto
    have "list_all2 (\<lambda>r r'. \<exists>ext. r' = r @ ext) rows rows" by (simp add: list_all2_same)
    moreover have "mset free' + mset (concat rows') = mset free + mset (concat (row # rows))"
      unfolding eq using r by (metis add.assoc concat.simps(2) mset_append)
    ultimately show ?thesis using r eq by auto
  qed
qed

section \<open>Page writes\<close>

lemma length_write_span:
  "off + length toks \<le> length old \<Longrightarrow> length (write_span off toks old) = length old"
  by (simp add: write_span_def)

lemma nth_write_span:
  assumes "off + length toks \<le> length old" "o' < length old"
  shows "write_span off toks old ! o' =
    (if off \<le> o' \<and> o' < off + length toks then toks ! (o' - off) else old ! o')"
  using assms by (auto simp: write_span_def nth_append)

lemma write_bound:
  fixes ps pre lp new :: nat
  assumes "0 < ps" "pre div ps \<le> lp"
  shows "max pre (lp * ps) - lp * ps + (min new ((lp + 1) * ps) - max pre (lp * ps)) \<le> ps"
proof -
  have "pre < Suc (pre div ps) * ps" using assms(1) dividend_less_div_times [of ps pre] by simp
  also have "\<dots> \<le> Suc lp * ps" using assms(2) by (intro mult_le_mono1) simp
  finally have m: "max pre (lp * ps) \<le> lp * ps + ps" by simp
  have k: "min new ((lp + 1) * ps) \<le> lp * ps + ps" "lp * ps \<le> max pre (lp * ps)" by auto
  show ?thesis using m k by linarith
qed

lemma length_apply_writes [simp]: "length (apply_writes ws pgs) = length pgs"
  by (induction ws pgs rule: apply_writes.induct) auto

lemma apply_writes_other: "q \<notin> fst ` set ws \<Longrightarrow> apply_writes ws pgs ! q = pgs ! q"
  by (induction ws pgs rule: apply_writes.induct) auto

lemma apply_writes_one:
  "distinct (map fst ws) \<Longrightarrow> (q, off, toks) \<in> set ws \<Longrightarrow> q < length pgs \<Longrightarrow>
     apply_writes ws pgs ! q = write_span off toks (pgs ! q)"
proof (induction ws pgs rule: apply_writes.induct)
  case (1 pgs)
  then show ?case by simp
next
  case (2 q' off' toks' ws pgs)
  show ?case
  proof (cases "q = q'")
    case True
    with 2(2) have "q \<notin> fst ` set ws" by auto
    moreover have "off = off' \<and> toks = toks'" using 2(2,3) True by force
    ultimately show ?thesis using True 2(4) by (simp add: apply_writes_other)
  next
    case False
    with 2 show ?thesis by auto
  qed
qed

lemma distinct_concat_inj:
  assumes "distinct (concat xss)" "i < length xss" "j < length xss" "a < length (xss ! i)" "b < length (xss ! j)"
    "xss ! i ! a = xss ! j ! b"
  shows "i = j \<and> a = b"
proof -
  have "i = j"
  proof (rule ccontr)
    assume "i \<noteq> j"
    have "xss ! i ! a \<in> set (xss ! i)" "xss ! i ! a \<in> set (xss ! j)"
      using assms(4,5,6) by (metis nth_mem)+
    then show False
      using assms(1-3) \<open>i \<noteq> j\<close>
    proof (induction xss arbitrary: i j)
      case Nil
      then show ?case by simp
    next
      case (Cons x xss)
      then show ?case by (cases i; cases j) (fastforce simp: in_set_conv_nth)+
    qed
  qed
  moreover have "distinct (xss ! i)"
    using assms(1,2) by (auto simp: distinct_concat_iff)
  ultimately show ?thesis using assms by (auto simp: nth_eq_iff_index_eq)
qed

definition write_at :: "nat \<Rightarrow> nat \<Rightarrow> nat \<Rightarrow> nat list list \<Rightarrow> 'c list list \<Rightarrow> nat \<Rightarrow> nat \<Rightarrow> nat \<times> nat \<times> 'c list" where
  "write_at ps pre new table news lp b =
     (table ! b ! lp, max pre (lp * ps) - lp * ps,
      take (min new ((lp + 1) * ps) - max pre (lp * ps)) (drop (max pre (lp * ps)) (news ! b)))"

lemma page_writes_product:
  assumes "length news = length table"
  shows "page_writes ps pre new table news =
    map (\<lambda>(lp, b). write_at ps pre new table news lp b)
      (List.product [pre div ps..<ceil_div new ps] [0..<length table])"
proof -
  have "zip table news = map (\<lambda>b. (table ! b, news ! b)) [0..<length table]"
    using assms by (intro nth_equalityI) auto
  then show ?thesis
    by (simp add: page_writes_def product_concat_map map_concat comp_def write_at_def Let_def)
qed

lemma write_at_in_page_writes:
  assumes "length news = length table" "pre div ps \<le> lp" "lp < ceil_div new ps" "b < length table"
  shows "write_at ps pre new table news lp b \<in> set (page_writes ps pre new table news)"
proof -
  have "(lp, b) \<in> set (List.product [pre div ps..<ceil_div new ps] [0..<length table])"
    using assms by simp
  then show ?thesis unfolding page_writes_product [OF assms(1)] by (force simp only: set_map)
qed

lemma page_writes_targets:
  assumes "length news = length table" "q \<in> fst ` set (page_writes ps pre new table news)"
  obtains lp b where "q = table ! b ! lp" "pre div ps \<le> lp" "lp < ceil_div new ps" "b < length table"
  using assms(2) unfolding page_writes_product [OF assms(1)] by (auto simp: write_at_def)

lemma fst_write_at [simp]: "fst (write_at ps pre new table news lp b) = table ! b ! lp"
  by (simp add: write_at_def)

lemma distinct_page_writes:
  assumes "length news = length table" "distinct (concat table)"
    "\<forall>r \<in> set table. ceil_div new ps \<le> length r"
  shows "distinct (map fst (page_writes ps pre new table news))"
proof -
  let ?P = "List.product [pre div ps..<ceil_div new ps] [0..<length table]"
  have "map fst (page_writes ps pre new table news) = map (\<lambda>(lp, b). table ! b ! lp) ?P"
    by (auto simp: page_writes_product [OF assms(1)])
  moreover have "inj_on (\<lambda>(lp, b). table ! b ! lp) (set ?P)"
  proof (rule inj_onI, clarify)
    fix lp b lp' b'
    assume "(lp, b) \<in> set ?P" "(lp', b') \<in> set ?P" and eq: "table ! b ! lp = table ! b' ! lp'"
    then have b: "b < length table" "b' < length table" "lp < ceil_div new ps" "lp' < ceil_div new ps" by auto
    then have "lp < length (table ! b)" "lp' < length (table ! b')"
      using assms(3) by (meson nth_mem order_less_le_trans)+
    from distinct_concat_inj [OF assms(2) b(1,2) this eq] show "lp = lp' \<and> b = b'" by simp
  qed
  moreover have "distinct ?P" by (simp add: distinct_product)
  ultimately show ?thesis by (simp add: distinct_map)
qed

section \<open>Reading a row\<close>

lemma row_cells_Cons [simp]: "row_cells pgs (q # row) = pgs ! q @ row_cells pgs row"
  by (simp add: row_cells_def)

lemma row_cells_Nil [simp]: "row_cells pgs [] = []"
  by (simp add: row_cells_def)

lemma length_row_cells:
  "\<forall>q \<in> set row. length (pgs ! q) = ps \<Longrightarrow> length (row_cells pgs row) = length row * ps"
  by (induction row) auto

lemma nth_row_cells:
  "\<forall>q \<in> set row. length (pgs ! q) = ps \<Longrightarrow> 0 < ps \<Longrightarrow> t < length row * ps \<Longrightarrow>
     row_cells pgs row ! t = pgs ! (row ! (t div ps)) ! (t mod ps)"
proof (induction row arbitrary: t)
  case Nil
  then show ?case by simp
next
  case (Cons q row)
  show ?case
  proof (cases "t < ps")
    case True
    then show ?thesis using Cons.prems by (simp add: nth_append)
  next
    case False
    then have "t div ps = Suc ((t - ps) div ps)" "t mod ps = (t - ps) mod ps"
      using Cons.prems(2) by (simp_all add: le_div_geq le_mod_geq)
    then show ?thesis using False Cons by (simp add: nth_append)
  qed
qed

lemma row_cells_cong:
  "(\<And>q. q \<in> set row \<Longrightarrow> pgs ! q = pgs' ! q) \<Longrightarrow> row_cells pgs row = row_cells pgs' row"
  by (induction row) auto

lemma gather_eq:
  assumes "0 < L" "map_of (block_tables p) s = Some t" "t \<noteq> []"
  defines "n \<equiv> ceil_div L (page_size p)"
  shows "gather s L p =
    (if \<not> list_all (\<lambda>r. length r = length (take n (hd t))) (map (take n) t) then Inl ValueError
     else if length (take n (hd t)) \<noteq> n then Inl RuntimeError
     else Inr (map (\<lambda>r. take L (row_cells (pages p) (take n r))) t))"
  using assms by (simp add: gather_def dict_get_def Let_def comp_def hd_map)

lemma gather_Inr_iff:
  assumes L: "0 < L"
  shows "gather s L p = Inr rows \<longleftrightarrow>
     (\<exists>t. map_of (block_tables p) s = Some t \<and> t \<noteq> []
        \<and> (\<forall>r \<in> set t. ceil_div L (page_size p) \<le> length r)
        \<and> rows = map (\<lambda>r. take L (row_cells (pages p) (take (ceil_div L (page_size p)) r))) t)"
proof (cases "\<exists>t. map_of (block_tables p) s = Some t \<and> t \<noteq> []")
  case False
  then have "gather s L p \<noteq> Inr rows"
    using L by (cases "map_of (block_tables p) s") (auto simp: gather_def dict_get_def Let_def)
  with False show ?thesis by blast
next
  case True
  then obtain t where t: "map_of (block_tables p) s = Some t" "t \<noteq> []" by blast
  define n where "n = ceil_div L (page_size p)"
  have len: "length (take n r) = n \<longleftrightarrow> n \<le> length r" for r :: "nat list"
    by (auto simp: min_def)
  define P where "P \<longleftrightarrow> list_all (\<lambda>r. length r = length (take n (hd t))) (map (take n) t)"
  define Q where "Q \<longleftrightarrow> length (take n (hd t)) \<noteq> n"
  have uni: "P \<and> \<not> Q \<longleftrightarrow> (\<forall>r \<in> set t. n \<le> length r)"
    unfolding P_def Q_def list_all_iff set_map ball_simps using len t(2) by (metis list.set_sel(1))
  have g: "gather s L p = (if \<not> P then Inl ValueError else if Q then Inl RuntimeError
      else Inr (map (\<lambda>r. take L (row_cells (pages p) (take n r))) t))"
    unfolding P_def Q_def n_def by (rule gather_eq [OF L t])
  show ?thesis
  proof (cases "P \<and> \<not> Q")
    case True
    then show ?thesis using g uni t by (auto simp: n_def)
  next
    case False
    then have "gather s L p \<noteq> Inr rows" using g by auto
    then show ?thesis using False uni t by (auto simp: n_def)
  qed
qed

lemma gather_0: "gather s 0 p = Inr rows \<longleftrightarrow>
    (\<exists>t. map_of (block_tables p) s = Some t \<and> rows = replicate (length t) [])"
  by (auto simp: gather_def res_simps)

lemma gather_cong:
  assumes "page_size p' = page_size p" "map_of (block_tables p') s = map_of (block_tables p) s"
    and "\<And>t q. map_of (block_tables p) s = Some t \<Longrightarrow> q \<in> set (concat t) \<Longrightarrow> pages p' ! q = pages p ! q"
  shows "gather s L p' = gather s L p"
proof (cases "map_of (block_tables p) s")
  case None
  then show ?thesis using assms by (simp add: gather_def dict_get_def)
next
  case (Some t)
  have "row_cells (pages p') (take n r) = row_cells (pages p) (take n r)" if "r \<in> set t" for n r
    using assms(3) [OF Some] that by (intro row_cells_cong) (auto dest: in_set_takeD)
  then have "map (\<lambda>row. take L (row_cells (pages p') row)) (map (take n) t)
      = map (\<lambda>row. take L (row_cells (pages p) row)) (map (take n) t)" for n
    by auto
  then show ?thesis using assms(1,2) Some by (simp add: gather_def dict_get_def Let_def)
qed

section \<open>Scatter\<close>

lemma scatter_cell:
  assumes ps: "0 < ps" and d: "distinct (concat table)" and len: "\<forall>q \<in> set (concat table). length (pgs ! q) = ps"
    and dom: "\<forall>q \<in> set (concat table). q < length pgs"
    and rows: "\<forall>r \<in> set table. ceil_div new ps \<le> length r"
    and news: "length news = length table" "\<forall>r \<in> set news. length r = new"
    and b: "b < length table" and t: "t < new"
    and pgs'_def: "pgs' = apply_writes (page_writes ps pre new table news) pgs"
  shows "pgs' ! (table ! b ! (t div ps)) ! (t mod ps) =
    (if t < pre then pgs ! (table ! b ! (t div ps)) ! (t mod ps) else news ! b ! t)"
proof -
  let ?lp = "t div ps" let ?q = "table ! b ! ?lp"
  have lp: "?lp < ceil_div new ps" using ceil_div_less [OF ps t] .
  have lpr: "?lp < length (table ! b)" using rows b lp by (meson nth_mem order_less_le_trans)
  have q: "?q \<in> set (concat table)" using b lpr by (auto intro!: bexI [of _ "table ! b"])
  note dw = distinct_page_writes [OF news(1) d rows, of pre]
  show ?thesis
  proof (cases "pre div ps \<le> ?lp")
    case True
    let ?ts = "max pre (?lp * ps)" let ?te = "min new ((?lp + 1) * ps)"
    let ?off = "?ts - ?lp * ps" let ?toks = "take (?te - ?ts) (drop ?ts (news ! b))"
    have "write_at ps pre new table news ?lp b \<in> set (page_writes ps pre new table news)"
      using news(1) True lp b by (rule write_at_in_page_writes)
    then have w: "pgs' ! ?q = write_span ?off ?toks (pgs ! ?q)"
      using dw dom q unfolding pgs'_def write_at_def by (intro apply_writes_one) auto
    have tm: "t = ?lp * ps + t mod ps" "t mod ps < ps" using ps by auto
    have nb: "length (news ! b) = new" using news b by simp
    have lt: "length ?toks = ?te - ?ts" using nb by simp
    have fits: "?off + length ?toks \<le> length (pgs ! ?q)"
      unfolding lt using len q write_bound [OF ps True, of new] by auto
    have read: "pgs' ! ?q ! (t mod ps) =
        (if ?off \<le> t mod ps \<and> t mod ps < ?off + length ?toks then ?toks ! (t mod ps - ?off)
         else pgs ! ?q ! (t mod ps))"
      unfolding w using fits len q tm(2) by (intro nth_write_span) auto
    show ?thesis
    proof (cases "t < pre")
      case True
      then have neg: "\<not> ?off \<le> t mod ps" using tm by linarith
      have "pgs' ! ?q ! (t mod ps) = pgs ! ?q ! (t mod ps)"
        using read by (simp only: neg simp_thms if_False)
      then show ?thesis using True by simp
    next
      case False
      have "t < ?lp * ps + ps" using tm by linarith
      with False have ge: "?ts \<le> t" "t < ?te" using t by auto
      have "?off \<le> t mod ps" "t mod ps - ?off = t - ?ts" "t mod ps < ?off + (?te - ?ts)"
        using ge tm by linarith+
      note pos = this
      have "pgs' ! ?q ! (t mod ps) = ?toks ! (t - ?ts)"
        using read unfolding lt by (simp only: pos simp_thms if_True)
      moreover have "?toks ! (t - ?ts) = drop ?ts (news ! b) ! (t - ?ts)"
        using ge by (intro nth_take) linarith
      moreover have "drop ?ts (news ! b) ! (t - ?ts) = news ! b ! (?ts + (t - ?ts))"
        using ge nb t by (intro nth_drop) linarith
      ultimately have "pgs' ! ?q ! (t mod ps) = news ! b ! t" using ge(1) by simp
      then show ?thesis using False by simp
    qed
  next
    case False
    then have "t < pre" by (metis div_le_mono linorder_not_le)
    moreover have "?q \<notin> fst ` set (page_writes ps pre new table news)"
    proof
      assume "?q \<in> fst ` set (page_writes ps pre new table news)"
      then obtain lp' b' where *: "?q = table ! b' ! lp'" "pre div ps \<le> lp'" "lp' < ceil_div new ps" "b' < length table"
        by (rule page_writes_targets [OF news(1)])
      then have "lp' < length (table ! b')" using rows by (meson nth_mem order_less_le_trans)
      from distinct_concat_inj [OF d b *(4) lpr this *(1)] * False show False by simp
    qed
    ultimately show ?thesis unfolding pgs'_def by (simp add: apply_writes_other)
  qed
qed

lemma scatter_other_pages:
  assumes "length news = length table" "\<forall>r \<in> set table. ceil_div new ps \<le> length r" "q \<notin> set (concat table)"
  shows "apply_writes (page_writes ps pre new table news) pgs ! q = pgs ! q"
proof (rule apply_writes_other, rule notI)
  assume "q \<in> fst ` set (page_writes ps pre new table news)"
  then obtain lp b where "q = table ! b ! lp" "lp < ceil_div new ps" "b < length table"
    by (rule page_writes_targets [OF assms(1)])
  moreover from this have "lp < length (table ! b)" using assms(2) by (meson nth_mem order_less_le_trans)
  ultimately show False using assms(3) by (auto intro: nth_mem)
qed

lemma apply_writes_lengths:
  assumes "\<forall>pg \<in> set pgs. length pg = ps"
    "\<forall>(q, off, toks) \<in> set ws. off + length toks \<le> ps"
  shows "\<forall>pg \<in> set (apply_writes ws pgs). length pg = ps"
  using assms
proof (induction ws pgs rule: apply_writes.induct)
  case (1 pgs)
  then show ?case by simp
next
  case (2 q off toks ws pgs)
  have "\<forall>pg \<in> set (pgs[q := write_span off toks (pgs ! q)]). length pg = ps"
  proof (cases "q < length pgs")
    case True
    then have "length (write_span off toks (pgs ! q)) = ps"
      using 2(2,3) by (simp add: length_write_span)
    then show ?thesis using 2(2) set_update_subset_insert by fastforce
  next
    case False
    then show ?thesis using 2(2) by (simp add: list_update_beyond)
  qed
  then show ?case using 2 by auto
qed

lemma page_writes_fit:
  assumes "0 < ps" "length news = length table" "(q, off, toks) \<in> set (page_writes ps pre new table news)"
  shows "off + length toks \<le> ps"
proof -
  obtain lp b where w: "(q, off, toks) = write_at ps pre new table news lp b" "pre div ps \<le> lp"
    using assms(3) unfolding page_writes_product [OF assms(2)] by auto
  then have "off = max pre (lp * ps) - lp * ps" "length toks \<le> min new ((lp + 1) * ps) - max pre (lp * ps)"
    by (simp_all add: write_at_def)
  then show ?thesis using write_bound [OF assms(1) w(2), of new] by linarith
qed

text \<open>What a scatter does, as one case distinction over its outcomes.\<close>

lemma scatter_outcome:
  assumes "scatter slot new news pre p = (r, p')" "map_of (block_tables p) slot = Some t"
    "pre < new" "length news = length t"
  obtains ok table free where
    "grow_rows (ceil_div new (page_size p)) t (free_pages p) = (ok, table, free)"
    "r = (if ok then Inr () else Inl AllocationFailed)"
    "p' = p\<lparr>block_tables := AList.update slot table (block_tables p), free_pages := free,
        pages := (if ok then apply_writes (page_writes (page_size p) pre new table news) (pages p) else pages p)\<rparr>"
proof -
  obtain ok table free where g: "grow_rows (ceil_div new (page_size p)) t (free_pages p) = (ok, table, free)"
    by (cases "grow_rows (ceil_div new (page_size p)) t (free_pages p)")
  with assms that [OF g] show ?thesis
    by (cases ok) (auto simp: scatter_def dict_get_def Let_def)
qed

lemma pool_ok_grow:
  assumes ok: "pool_ok p" and t: "map_of (block_tables p) slot = Some t"
    and g: "grow_rows n t (free_pages p) = (b, table, free)"
    and pgs: "length pgs = length (pages p)" "\<forall>pg \<in> set pgs. length pg = page_size p"
  shows "pool_ok (p\<lparr>block_tables := AList.update slot table (block_tables p), free_pages := free, pages := pgs\<rparr>)"
proof -
  let ?d = "block_tables p"
  have "mset (table_pages (AList.update slot table ?d)) + mset (concat t) = mset (table_pages ?d) + mset (concat table)"
    using ok t by (intro mset_table_pages_update) (auto simp: pool_ok_def)
  moreover have "mset free + mset (concat table) = mset (free_pages p) + mset (concat t)"
    using grow_rows_props [OF g] by blast
  ultimately have "(mset free + mset (table_pages (AList.update slot table ?d))) + mset (concat t)
      = (mset (free_pages p) + mset (table_pages ?d)) + mset (concat t)"
    by (metis add.assoc add.commute)
  then have "mset free + mset (table_pages (AList.update slot table ?d)) = mset (free_pages p) + mset (table_pages ?d)"
    by simp
  then show ?thesis using ok pgs by (simp add: pool_ok_def)
qed

lemma pool_ok_scatter:
  assumes ok: "pool_ok p" and s: "scatter slot new news pre p = (r, p')"
  shows "pool_ok p'"
proof (cases "map_of (block_tables p) slot")
  case None
  then show ?thesis using assms by (simp add: scatter_def dict_get_def)
next
  case (Some t)
  show ?thesis
  proof (cases "pre < new \<and> length news = length t")
    case False
    then show ?thesis using assms Some by (auto simp: scatter_def dict_get_def split: if_splits)
  next
    case True
    from scatter_outcome [OF s Some] True obtain b table free where
      g: "grow_rows (ceil_div new (page_size p)) t (free_pages p) = (b, table, free)"
      and p': "p' = p\<lparr>block_tables := AList.update slot table (block_tables p), free_pages := free,
        pages := (if b then apply_writes (page_writes (page_size p) pre new table news) (pages p) else pages p)\<rparr>"
      by metis
    have ps: "0 < page_size p" "\<forall>pg \<in> set (pages p). length pg = page_size p"
      using ok by (auto simp: pool_ok_def)
    have "length news = length table"
      using grow_rows_props [OF g] True by (auto dest: list_all2_lengthD)
    then have "\<forall>pg \<in> set (apply_writes (page_writes (page_size p) pre new table news) (pages p)). length pg = page_size p"
      using ps page_writes_fit by (intro apply_writes_lengths) blast+
    then show ?thesis unfolding p' using ps by (intro pool_ok_grow [OF ok Some g]) auto
  qed
qed

lemma pool_ok_page_length:
  "pool_ok p \<Longrightarrow> map_of (block_tables p) k = Some t \<Longrightarrow> q \<in> set (concat t) \<Longrightarrow> length (pages p ! q) = page_size p"
  using pool_ok_table(2) [of p k t] by (auto simp: pool_ok_def)

lemma gather_scatter:
  assumes ok: "pool_ok p" and s: "scatter slot new news pre p = (Inr (), p')"
    and t: "map_of (block_tables p) slot = Some t" "t \<noteq> []"
    and news: "length news = length t" "\<forall>r \<in> set news. length r = new" "pre < new"
    and past: "gather slot pre p = Inr (map (take pre) news)"
  shows "gather slot new p' = Inr news"
proof -
  let ?ps = "page_size p" let ?n = "ceil_div new ?ps"
  from scatter_outcome [OF s t(1) news(3,1)] obtain b table free where
    g: "grow_rows ?n t (free_pages p) = (b, table, free)" and b: "b"
    and p': "p' = p\<lparr>block_tables := AList.update slot table (block_tables p), free_pages := free,
      pages := (if b then apply_writes (page_writes ?ps pre new table news) (pages p) else pages p)\<rparr>"
    by (metis sum.distinct(1))
  note gp = grow_rows_props [OF g]
  have lt: "length table = length t" using gp by (auto dest: list_all2_lengthD)
  have rows: "\<forall>r \<in> set table. ?n \<le> length r" using gp b by blast
  have ps: "0 < ?ps" using ok by (simp add: pool_ok_def)
  let ?p1 = "p\<lparr>block_tables := AList.update slot table (block_tables p), free_pages := free, pages := pages p\<rparr>"
  have ok1: "pool_ok ?p1"
    using ok by (intro pool_ok_grow [OF ok t(1) g]) (auto simp: pool_ok_def)
  have t1: "map_of (block_tables ?p1) slot = Some table" by simp
  note own = pool_ok_table [OF ok1 t1, simplified] and plen = pool_ok_page_length [OF ok1 t1, simplified]
  have ok': "pool_ok p'" using pool_ok_scatter [OF ok s] .
  have t': "map_of (block_tables p') slot = Some table" by (simp add: p')
  have plen': "length (pages p' ! q) = ?ps" if "q \<in> set (concat table)" for q
    using pool_ok_page_length [OF ok' t' that] by (simp add: p')
  have "take new (row_cells (pages p') (take ?n (table ! i))) = news ! i" (is "take new ?cells = _")
    if i: "i < length table" for i
  proof (rule nth_equalityI)
    let ?row = "take ?n (table ! i)"
    have sub: "set ?row \<subseteq> set (concat table)" using i by (auto dest: in_set_takeD intro: nth_mem)
    have lrow: "length ?row = ?n" using rows i by (metis length_take min.absorb2 nth_mem)
    have lcells: "length ?cells = ?n * ?ps" using length_row_cells [of ?row "pages p'" ?ps] sub plen' lrow by auto
    show "length (take new ?cells) = length (news ! i)"
      using lcells ceil_div_upper [OF ps, of new] news i lt by (simp add: min_def)
    fix k assume "k < length (take new ?cells)"
    then have k: "k < new" "k < ?n * ?ps" using lcells by auto
    have kd: "k div ?ps < ?n" using ceil_div_less [OF ps k(1)] .
    have "take new ?cells ! k = pages p' ! (table ! i ! (k div ?ps)) ! (k mod ?ps)"
      using nth_row_cells [of ?row "pages p'" ?ps k] sub plen' ps k lrow kd by auto
    also have "\<dots> = (if k < pre then pages p ! (table ! i ! (k div ?ps)) ! (k mod ?ps) else news ! i ! k)"
      using own plen rows news i k b lt p' ps by (intro scatter_cell [where table = table]) auto
    also have "\<dots> = news ! i ! k"
    proof (cases "k < pre")
      case True
      then have "0 < pre" by simp
      from past [unfolded gather_Inr_iff [OF this]] t(1) have
        tl: "\<forall>r \<in> set t. ceil_div pre ?ps \<le> length r" and
        old: "map (take pre) news = map (\<lambda>r. take pre (row_cells (pages p) (take (ceil_div pre ?ps) r))) t" by auto
      obtain ext where ext: "table ! i = t ! i @ ext"
        using list_all2_nthD2 [OF conjunct1 [OF gp] i] by blast
      have it: "i < length t" using i lt by simp
      let ?old = "take (ceil_div pre ?ps) (t ! i)"
      have kp: "k div ?ps < ceil_div pre ?ps" using ceil_div_less [OF ps True] .
      have lo: "length ?old = ceil_div pre ?ps" using tl it by (metis length_take min.absorb2 nth_mem)
      have "set (t ! i) \<subseteq> set (concat t)" using it by (auto intro: nth_mem)
      then have "set ?old \<subseteq> set (concat t)" by (meson in_set_takeD subset_iff)
      then have pl: "\<forall>q \<in> set ?old. length (pages p ! q) = ?ps"
        using pool_ok_page_length [OF ok t(1)] by (meson subset_iff)
      have "k < length ?old * ?ps" using True ceil_div_upper [OF ps, of pre] lo by simp
      from nth_row_cells [OF pl ps this] kp lo
      have rc: "row_cells (pages p) ?old ! k = pages p ! (t ! i ! (k div ?ps)) ! (k mod ?ps)" by simp
      have "take pre (news ! i) = take pre (row_cells (pages p) ?old)"
        using arg_cong [OF old, of "\<lambda>xs. xs ! i"] it news(1) by simp
      then have "news ! i ! k = row_cells (pages p) ?old ! k"
        using True by (metis nth_take)
      moreover have "table ! i ! (k div ?ps) = t ! i ! (k div ?ps)"
        using ext kp tl it by (simp add: nth_append) (metis nth_mem order_less_le_trans)
      ultimately show ?thesis using True rc by simp
    qed simp
    finally show "take new ?cells ! k = news ! i ! k" .
  qed
  then have "map (\<lambda>r. take new (row_cells (pages p') (take ?n r))) table = news"
    using lt news(1) by (intro nth_equalityI) auto
  moreover have "0 < new" using news(3) by simp
  ultimately show ?thesis using t t' rows lt by (auto simp: gather_Inr_iff p')
qed

lemma gather_scatter_other:
  assumes ok: "pool_ok p" and s: "scatter slot new news pre p = (r, p')" and other: "slot' \<noteq> slot"
  shows "gather slot' L p' = gather slot' L p"
proof (cases "\<exists>t. map_of (block_tables p) slot = Some t \<and> pre < new \<and> length news = length t")
  case False
  then have "p' = p" using s by (auto simp: scatter_def dict_get_def split: option.splits if_splits)
  then show ?thesis by simp
next
  case True
  then obtain t where t: "map_of (block_tables p) slot = Some t" and news: "pre < new" "length news = length t" by blast
  from scatter_outcome [OF s t news] obtain b table free where
    g: "grow_rows (ceil_div new (page_size p)) t (free_pages p) = (b, table, free)"
    and p': "p' = p\<lparr>block_tables := AList.update slot table (block_tables p), free_pages := free,
      pages := (if b then apply_writes (page_writes (page_size p) pre new table news) (pages p) else pages p)\<rparr>"
    by metis
  let ?p1 = "p\<lparr>block_tables := AList.update slot table (block_tables p), free_pages := free, pages := pages p\<rparr>"
  have ok1: "pool_ok ?p1" using ok by (intro pool_ok_grow [OF ok t g]) (auto simp: pool_ok_def)
  have "pages p' ! q = pages p ! q"
    if "map_of (block_tables p) slot' = Some t'" "q \<in> set (concat t')" for t' q
  proof (cases b)
    case True
    have "set (concat table) \<inter> set (concat t') = {}"
      using ok1 by (rule pool_ok_other_slot [where k = slot and k' = slot']) (use that other in auto)
    then show ?thesis using that True grow_rows_props [OF g] news
      by (auto simp: p' dest!: list_all2_lengthD intro!: scatter_other_pages)
  qed (simp add: p')
  then show ?thesis using other by (intro gather_cong) (auto simp: p')
qed

end
