(* ===== verification/Paged_Pool_Reorder.thy ===== *)
theory Paged_Pool_Reorder
  imports Paged_Pool_Correct
begin

text \<open>
  Beam reordering of the paged pool: a successful reorder permutes (and copies) the rows
  of one session and nothing else; a failing one forgets every page that was free; and
  negative indices, which list indexing accepts, break page ownership.
\<close>

section \<open>Copying one row\<close>

lemma acquire_page_Inr:
  "acquire_page free = Inr (q, free') \<longleftrightarrow> free \<noteq> [] \<and> q = last free \<and> free' = butlast free"
  by (auto simp: acquire_page_def)

lemma acquire_page_mset: "acquire_page free = Inr (q, free') \<Longrightarrow> mset free = add_mset q (mset free')"
  by (auto simp: acquire_page_Inr) (metis append_butlast_last_id mset.simps(2) mset_append add_mset_add_single mset.simps(1))

lemma copy_row_props:
  "copy_row row cp free pgs = (Inr cp', free', pgs') \<Longrightarrow> distinct free \<Longrightarrow>
   \<forall>q \<in> set free. q < length pgs \<Longrightarrow> set row \<inter> set free = {} \<Longrightarrow>
   \<exists>ext. cp' = cp @ ext \<and> mset free' + mset ext = mset free \<and> (\<forall>q. q \<notin> set free \<longrightarrow> pgs' ! q = pgs ! q)
     \<and> (\<forall>q \<in> set free'. pgs' ! q = pgs ! q)
     \<and> map ((!) pgs') ext = map ((!) pgs) row \<and> length pgs' = length pgs"
proof (induction row arbitrary: cp free pgs)
  case Nil
  then show ?case by auto
next
  case (Cons pg row)
  obtain n free1 where a: "acquire_page free = Inr (n, free1)"
    and c: "copy_row row (cp @ [n]) free1 (pgs[n := pgs ! pg]) = (Inr cp', free', pgs')"
    using Cons.prems(1) by (auto split: sum.splits prod.splits)
  have m: "mset free = add_mset n (mset free1)" using acquire_page_mset [OF a] .
  then have s: "set free = insert n (set free1)" by (metis set_mset_add_mset_insert set_mset_mset)
  have d: "distinct free1" "n \<notin> set free1"
    using m Cons.prems(2) by (metis distinct.simps(2) mset.simps(2) mset_eq_imp_distinct_iff)+
  have n: "n < length pgs" "n \<notin> set (pg # row)" using s Cons.prems(3,4) by auto
  have "set row \<inter> set free1 = {}" "\<forall>q \<in> set free1. q < length (pgs[n := pgs ! pg])"
    using s Cons.prems(3,4) by auto
  from Cons.IH [OF c d(1) this(2,1)] obtain ext where e:
    "cp' = cp @ n # ext" "mset free' + mset ext = mset free1"
    "\<forall>q. q \<notin> set free1 \<longrightarrow> pgs' ! q = pgs[n := pgs ! pg] ! q"
    "\<forall>q \<in> set free'. pgs' ! q = pgs[n := pgs ! pg] ! q"
    "map ((!) pgs') ext = map ((!) (pgs[n := pgs ! pg])) row" "length pgs' = length pgs" by auto
  have sub: "set free' \<subseteq> set free1"
    using e(2) by (metis mset_subset_eq_add_left set_mset_mono set_mset_mset)
  have "map ((!) (pgs[n := pgs ! pg])) row = map ((!) pgs) row"
    using n by (auto simp: nth_list_update)
  moreover have "pgs' ! n = pgs ! pg" using e(3) d(2) n by simp
  moreover have "\<forall>q. q \<notin> set free \<longrightarrow> pgs' ! q = pgs ! q" using e(3) s by auto
  moreover have "\<forall>q \<in> set free'. pgs' ! q = pgs ! q" using e(4) sub d(2) by (metis nth_list_update_neq subsetD)
  ultimately show ?case using e m by (intro exI [of _ "n # ext"]) auto
qed

lemma copy_row_fails:
  "copy_row row cp free pgs = (Inl e, free', pgs') \<Longrightarrow> e = AllocationFailed \<and> free' = []"
  by (induction row arbitrary: cp free pgs) (auto simp: acquire_page_def split: if_splits)

lemma copy_row_lengths:
  "copy_row row cp free pgs = (r, free', pgs') \<Longrightarrow> \<forall>pg \<in> set pgs. length pg = ps \<Longrightarrow>
   \<forall>q \<in> set row. q < length pgs \<Longrightarrow> \<forall>pg \<in> set pgs'. length pg = ps"
proof (induction row arbitrary: cp free pgs)
  case Nil
  then show ?case by simp
next
  case (Cons pg row)
  show ?case
  proof (cases "acquire_page free")
    case (Inl e)
    then show ?thesis using Cons.prems by simp
  next
    case (Inr a)
    obtain n free1 where a: "a = (n, free1)" by (cases a)
    have "\<forall>x \<in> set (pgs[n := pgs ! pg]). length x = ps"
      using Cons.prems(2,3) set_update_subset_insert [of pgs n "pgs ! pg"] by auto
    then show ?thesis
      using Cons.IH [of "cp @ [n]" free1 "pgs[n := pgs ! pg]"] Cons.prems Inr a by simp
  qed
qed

section \<open>The loop over destination rows\<close>

definition rows_of :: "nat list list \<Rightarrow> int list \<Rightarrow> nat list list" where
  "rows_of table ids = map (\<lambda>i. table ! nat i) ids"

lemma py_get_nonneg: "0 \<le> i \<Longrightarrow> i < int (length xs) \<Longrightarrow> py_get xs i = Inr (xs ! nat i)"
  by (simp add: py_get_def)

lemma reorder_rows_props:
  assumes "reorder_rows table ids acc cl free pgs = (Inr (acc', cl'), free', pgs')"
    and "\<forall>i \<in> set ids. 0 \<le> i \<and> i < int (length table)"
    and "distinct free" "\<forall>q \<in> set free. q < length pgs" "set (concat table) \<inter> set free = {}"
  shows "\<exists>rows ncl. acc' = acc @ rows \<and> cl' = cl @ ncl \<and> distinct ncl \<and> set ncl = set ids - set cl
    \<and> mset free' + mset (concat rows) = mset free + mset (concat (rows_of table ncl))
    \<and> (\<forall>q. q \<notin> set free \<longrightarrow> pgs' ! q = pgs ! q) \<and> length pgs' = length pgs
    \<and> map (map ((!) pgs')) rows = map (map ((!) pgs)) (rows_of table ids)"
  using assms
proof (induction ids arbitrary: acc cl free pgs)
  case Nil
  then show ?case by (auto simp: rows_of_def)
next
  case (Cons src ids)
  let ?row = "table ! nat src"
  have src: "0 \<le> src" "src < int (length table)" using Cons.prems(2) by auto
  then have row: "py_get table src = Inr ?row" "?row \<in> set table" by (auto simp: py_get_nonneg)
  have ids: "\<forall>i \<in> set ids. 0 \<le> i \<and> i < int (length table)" using Cons.prems(2) by simp
  have rowfree: "set ?row \<inter> set free = {}" using Cons.prems(5) row(2) by auto
  show ?case
  proof (cases "src \<in> set cl")
    case False
    then have r: "reorder_rows table ids (acc @ [?row]) (cl @ [src]) free pgs = (Inr (acc', cl'), free', pgs')"
      using Cons.prems(1) row by simp
    from Cons.IH [OF r ids Cons.prems(3-5)] obtain rows ncl where e:
      "acc' = acc @ ?row # rows" "cl' = cl @ src # ncl" "distinct ncl" "set ncl = set ids - set (cl @ [src])"
      "mset free' + mset (concat rows) = mset free + mset (concat (rows_of table ncl))"
      "\<forall>q. q \<notin> set free \<longrightarrow> pgs' ! q = pgs ! q" "length pgs' = length pgs"
      "map (map ((!) pgs')) rows = map (map ((!) pgs)) (rows_of table ids)" by auto
    have "map ((!) pgs') ?row = map ((!) pgs) ?row" using e(6) rowfree by auto
    moreover have "mset free' + mset (concat (?row # rows)) = mset free + mset (concat (rows_of table (src # ncl)))"
      using e(5) by (simp add: rows_of_def)
    ultimately show ?thesis using e False
      by (intro exI [of _ "?row # rows"] exI [of _ "src # ncl"]) (auto simp: rows_of_def)
  next
    case True
    obtain copied free1 pgs1 where c: "copy_row ?row [] free pgs = (Inr copied, free1, pgs1)"
      and r: "reorder_rows table ids (acc @ [copied]) cl free1 pgs1 = (Inr (acc', cl'), free', pgs')"
      using Cons.prems(1) row True by (auto split: prod.splits sum.splits)
    from copy_row_props [OF c Cons.prems(3,4) rowfree] have cp:
      "mset free1 + mset copied = mset free" "\<forall>q. q \<notin> set free \<longrightarrow> pgs1 ! q = pgs ! q"
      "map ((!) pgs1) copied = map ((!) pgs) ?row" "length pgs1 = length pgs" by auto
    have "mset (free1 @ copied) = mset free" using cp(1) by simp
    then have "distinct (free1 @ copied)" "set (free1 @ copied) = set free"
      using Cons.prems(3) mset_eq_imp_distinct_iff mset_eq_setD by blast+
    then have d1: "distinct free1" "set free1 \<subseteq> set free" "set copied \<inter> set free1 = {}" by auto
    have "\<forall>q \<in> set free1. q < length pgs1" "set (concat table) \<inter> set free1 = {}"
      using d1 Cons.prems(4,5) cp(4) by auto
    from Cons.IH [OF r ids d1(1) this] obtain rows ncl where e:
      "acc' = acc @ copied # rows" "cl' = cl @ ncl" "distinct ncl" "set ncl = set ids - set cl"
      "mset free' + mset (concat rows) = mset free1 + mset (concat (rows_of table ncl))"
      "\<forall>q. q \<notin> set free1 \<longrightarrow> pgs' ! q = pgs1 ! q" "length pgs' = length pgs1"
      "map (map ((!) pgs')) rows = map (map ((!) pgs1)) (rows_of table ids)" by auto
    have "map ((!) pgs') copied = map ((!) pgs1) copied" using e(6) d1(3) by auto
    moreover have "map (map ((!) pgs1)) (rows_of table ids) = map (map ((!) pgs)) (rows_of table ids)"
    proof -
      have "pgs1 ! q = pgs ! q" if "i \<in> set ids" "q \<in> set (table ! nat i)" for i q
      proof -
        have "table ! nat i \<in> set table" using ids that(1) by (auto simp: nat_less_iff)
        then show ?thesis using that(2) Cons.prems(5) cp(2) by auto
      qed
      then show ?thesis by (auto simp: rows_of_def)
    qed
    moreover have "mset free' + mset (concat (copied # rows)) = mset free + mset (concat (rows_of table ncl))"
      using e(5) cp(1) by (metis add.assoc add.commute concat.simps(2) mset_append)
    moreover have "\<forall>q. q \<notin> set free \<longrightarrow> pgs' ! q = pgs ! q" using e(6) cp(2) d1(2) by auto
    ultimately show ?thesis using e True cp(3,4)
      by (intro exI [of _ "copied # rows"] exI [of _ ncl]) (auto simp: rows_of_def)
  qed
qed

lemma reorder_rows_fails:
  "reorder_rows table ids acc cl free pgs = (Inl AllocationFailed, free', pgs') \<Longrightarrow> free' = []"
proof (induction ids arbitrary: acc cl free pgs)
  case Nil
  then show ?case by simp
next
  case (Cons src ids)
  show ?case
  proof (cases "py_get table src")
    case (Inl e)
    then show ?thesis using Cons.prems by (auto simp: py_get_def Let_def split: if_splits)
  next
    case (Inr row)
    then show ?thesis using Cons.prems Cons.IH
      by (auto split: if_splits prod.splits sum.splits dest: copy_row_fails)
  qed
qed

lemma reorder_rows_lengths:
  "reorder_rows table ids acc cl free pgs = (r, free', pgs') \<Longrightarrow> \<forall>pg \<in> set pgs. length pg = ps \<Longrightarrow>
   \<forall>q \<in> set (concat table). q < length pgs \<Longrightarrow> length pgs' = length pgs \<and> (\<forall>pg \<in> set pgs'. length pg = ps)"
proof (induction ids arbitrary: acc cl free pgs)
  case Nil
  then show ?case by simp
next
  case (Cons src ids)
  have cl: "copy_row row cp free pgs = (r, f, g) \<Longrightarrow> length g = length pgs"
    for row cp free and pgs :: "'a list list" and r f g
    by (induction row arbitrary: cp free pgs) (auto split: sum.splits prod.splits)
  show ?case
  proof (cases "py_get table src")
    case (Inl e)
    then show ?thesis using Cons.prems by simp
  next
    case (Inr row)
    then have row: "row \<in> set table" by (auto simp: py_get_def Let_def nat_less_iff split: if_splits)
    obtain r1 free1 pgs1 where c: "copy_row row [] free pgs = (r1, free1, pgs1)"
      by (cases "copy_row row [] free pgs")
    have "\<forall>q \<in> set row. q < length pgs" using Cons.prems(3) row by auto
    note l = cl [OF c] copy_row_lengths [OF c Cons.prems(2) this]
    show ?thesis
    proof (cases "src \<in> set cl")
      case True
      then show ?thesis using Cons.prems Cons.IH [of "acc @ [_]" cl free1 pgs1] Inr c l
        by (cases r1) auto
    next
      case False
      then show ?thesis using Cons.prems Cons.IH [of "acc @ [row]" "cl @ [src]" free pgs] Inr by simp
    qed
  qed
qed

section \<open>Reorder\<close>

lemma mset_rows_of: "distinct ids \<Longrightarrow> mset (concat (rows_of table ids)) = (\<Sum>i \<in> set ids. mset (table ! nat i))"
  by (induction ids) (auto simp: rows_of_def)

lemma mset_concat_nth: "mset (concat xss) = (\<Sum>i < length xss. mset (xss ! i))"
  by (induction xss rule: rev_induct) (auto simp: nth_append)

lemma mset_reclaimed:
  assumes "distinct cl" "\<forall>i \<in> set cl. 0 \<le> i \<and> i < int (length table)"
  shows "mset (reclaimed table cl) + mset (concat (rows_of table cl)) = mset (concat table)"
proof -
  let ?A = "{..<length table}" let ?C = "nat ` set cl"
  have zip: "zip [0..<length table] table = map (\<lambda>i. (i, table ! i)) [0..<length table]"
    by (intro nth_equalityI) auto
  have mem: "int i \<in> set cl \<longleftrightarrow> i \<in> ?C" for i
  proof
    assume "int i \<in> set cl"
    then show "i \<in> ?C" by (metis image_eqI nat_int)
  next
    assume "i \<in> ?C"
    then obtain x where "x \<in> set cl" "i = nat x" by blast
    then show "int i \<in> set cl" using assms(2) by auto
  qed
  have "mset (reclaimed table cl) = mset (concat (map (\<lambda>i. if i \<notin> ?C then table ! i else []) [0..<length table]))"
    unfolding reclaimed_def zip by (simp add: comp_def mem)
  also have "\<dots> = (\<Sum>i \<in> ?A. if i \<in> ?C then {#} else mset (table ! i))"
    by (subst mset_concat_nth) (auto intro!: sum.cong)
  also have "\<dots> = (\<Sum>i \<in> ?A - ?C. mset (table ! i))"
    by (intro sum.mono_neutral_cong_right) auto
  finally have r: "mset (reclaimed table cl) = (\<Sum>i \<in> ?A - ?C. mset (table ! i))" .
  have "inj_on nat (set cl)" using assms(2) by (meson inj_onI nat_eq_iff2 eq_nat_nat_iff)
  then have c: "mset (concat (rows_of table cl)) = (\<Sum>i \<in> ?C. mset (table ! i))"
    using mset_rows_of [OF assms(1)] by (simp add: sum.reindex)
  have "?C \<subseteq> ?A" using assms(2) by (auto simp: nat_less_iff)
  then show ?thesis unfolding r c mset_concat_nth [of table] by (simp add: sum.subset_diff [of ?C ?A])
qed

lemma reorder_outcome:
  assumes "reorder slot ids p = (Inr (), p')"
  obtains t table cl free pgs where "map_of (block_tables p) slot = Some t"
    "reorder_rows t ids [] [] (free_pages p) (pages p) = (Inr (table, cl), free, pgs)"
    "p' = p\<lparr>free_pages := free @ reclaimed t cl, pages := pgs, block_tables := AList.update slot table (block_tables p)\<rparr>"
  using assms by (auto simp: reorder_def dict_get_def split: option.splits sum.splits prod.splits)

lemma reorder_effect:
  assumes ok: "pool_ok p" and r: "reorder slot ids p = (Inr (), p')"
    and t: "map_of (block_tables p) slot = Some t" and ids: "\<forall>i \<in> set ids. 0 \<le> i \<and> i < int (length t)"
  obtains table where "pool_ok p'" "map_of (block_tables p') slot = Some table" "page_size p' = page_size p"
    "map (map ((!) (pages p'))) table = map (map ((!) (pages p))) (rows_of t ids)"
    "\<forall>slot'. slot' \<noteq> slot \<longrightarrow> map_of (block_tables p') slot' = map_of (block_tables p) slot'"
    "\<forall>q. q \<notin> set (free_pages p) \<longrightarrow> pages p' ! q = pages p ! q"
proof -
  from reorder_outcome [OF r] t obtain table cl free pgs where
    rr: "reorder_rows t ids [] [] (free_pages p) (pages p) = (Inr (table, cl), free, pgs)"
    and p': "p' = p\<lparr>free_pages := free @ reclaimed t cl, pages := pgs, block_tables := AList.update slot table (block_tables p)\<rparr>"
    by (metis option.inject)
  note own = pool_ok_table [OF ok t]
  from reorder_rows_props [OF rr ids own(4,5,3)] have e:
    "distinct cl" "set cl = set ids"
    "mset free + mset (concat table) = mset (free_pages p) + mset (concat (rows_of t cl))"
    "\<forall>q. q \<notin> set (free_pages p) \<longrightarrow> pgs ! q = pages p ! q" "length pgs = length (pages p)"
    "map (map ((!) pgs)) table = map (map ((!) (pages p))) (rows_of t ids)" by auto
  have ps: "0 < page_size p" "\<forall>pg \<in> set (pages p). length pg = page_size p" "dict_ok (block_tables p)"
    using ok by (auto simp: pool_ok_def)
  have lens: "\<forall>pg \<in> set pgs. length pg = page_size p"
    using reorder_rows_lengths [OF rr ps(2) own(2)] by blast
  have recl: "mset (reclaimed t cl) + mset (concat (rows_of t cl)) = mset (concat t)"
    using e(1,2) ids by (intro mset_reclaimed) auto
  have upd: "mset (table_pages (AList.update slot table (block_tables p))) + mset (concat t)
      = mset (table_pages (block_tables p)) + mset (concat table)"
    by (rule mset_table_pages_update [OF ps(3) t])
  have "mset (free @ reclaimed t cl) + mset (table_pages (AList.update slot table (block_tables p))) + mset (concat t)
      = (mset free + mset (concat table)) + mset (reclaimed t cl) + mset (table_pages (block_tables p))"
    using upd by (simp add: ac_simps)
  also have "\<dots> = mset (free_pages p) + (mset (reclaimed t cl) + mset (concat (rows_of t cl))) + mset (table_pages (block_tables p))"
    unfolding e(3) by (simp add: ac_simps)
  finally have "mset (free @ reclaimed t cl) + mset (table_pages (AList.update slot table (block_tables p)))
      = mset (free_pages p) + mset (table_pages (block_tables p))"
    unfolding recl by (simp add: ac_simps)
  then have "pool_ok p'" using ok lens e(5) by (simp add: pool_ok_def p')
  with e show thesis by (intro that [of table]) (auto simp: p')
qed

lemma row_cells_map: "map ((!) pgs) r = map ((!) pgs') r' \<Longrightarrow> row_cells pgs (take n r) = row_cells pgs' (take n r')"
  by (metis row_cells_def take_map)

lemma gather_reorder:
  assumes ok: "pool_ok p" and r: "reorder slot ids p = (Inr (), p')" and g: "gather slot L p = Inr rows"
    and ids: "\<forall>i \<in> set ids. 0 \<le> i \<and> i < int (length rows)" "ids \<noteq> []"
  shows "gather slot L p' = Inr (map (\<lambda>i. rows ! nat i) ids)"
proof -
  obtain t where t: "map_of (block_tables p) slot = Some t" "length rows = length t"
    using g by (cases "L = 0") (auto simp: gather_0 gather_Inr_iff)
  from ids(1) t(2) have ids': "\<forall>i \<in> set ids. 0 \<le> i \<and> i < int (length t)" by simp
  from reorder_effect [OF ok r t(1) ids'] obtain table where e:
    "map_of (block_tables p') slot = Some table" "page_size p' = page_size p"
    "map (map ((!) (pages p'))) table = map (map ((!) (pages p))) (rows_of t ids)" by metis
  have lt: "length table = length ids"
    using arg_cong [OF e(3), of length] by (simp add: rows_of_def)
  have cells: "map ((!) (pages p')) (table ! k) = map ((!) (pages p)) (t ! nat (ids ! k))" if "k < length ids" for k
    using arg_cong [OF e(3), of "\<lambda>xs. xs ! k"] that lt by (simp add: rows_of_def)
  have range: "nat (ids ! k) < length t" if "k < length ids" for k
    using ids' that by (metis nat_less_iff nth_mem)
  show ?thesis
  proof (cases "L = 0")
    case True
    then have "rows = replicate (length t) []" using g t by (simp add: gather_0)
    moreover have "map (\<lambda>i. replicate (length t) [] ! nat i) ids = replicate (length ids) []"
      using range by (intro nth_equalityI) auto
    ultimately show ?thesis using True e(1) lt by (simp add: gather_0)
  next
    case False
    then have L: "0 < L" by simp
    let ?n = "ceil_div L (page_size p)"
    from g [unfolded gather_Inr_iff [OF L]] t(1) have
      lens: "\<forall>r \<in> set t. ?n \<le> length r" and
      rows: "rows = map (\<lambda>r. take L (row_cells (pages p) (take ?n r))) t" by auto
    have "\<forall>r \<in> set table. ?n \<le> length r"
    proof
      fix r assume "r \<in> set table"
      then obtain k where k: "k < length ids" "r = table ! k" using lt by (metis in_set_conv_nth)
      then have "length r = length (t ! nat (ids ! k))" using cells [OF k(1)] by (metis length_map)
      then show "?n \<le> length r" using lens range [OF k(1)] by simp
    qed
    moreover have "map (\<lambda>r. take L (row_cells (pages p') (take ?n r))) table = map (\<lambda>i. rows ! nat i) ids"
      using lt range row_cells_map [OF cells] by (intro nth_equalityI) (auto simp: rows)
    ultimately show ?thesis using e(1,2) lt ids(2) by (auto simp: gather_Inr_iff [OF L])
  qed
qed

lemma gather_reorder_other:
  assumes ok: "pool_ok p" and r: "reorder slot ids p = (Inr (), p')" and other: "slot' \<noteq> slot"
    and t: "map_of (block_tables p) slot = Some t" and ids: "\<forall>i \<in> set ids. 0 \<le> i \<and> i < int (length t)"
  shows "gather slot' L p' = gather slot' L p"
proof -
  from reorder_effect [OF ok r t ids] obtain table where e: "page_size p' = page_size p"
    "map_of (block_tables p') slot' = map_of (block_tables p) slot'"
    "\<forall>q. q \<notin> set (free_pages p) \<longrightarrow> pages p' ! q = pages p ! q" using other by metis
  show ?thesis
  proof (rule gather_cong [OF e(1,2)])
    fix t' q assume "map_of (block_tables p) slot' = Some t'" "q \<in> set (concat t')"
    then have "q \<notin> set (free_pages p)" using pool_ok_table(3) [OF ok] by blast
    then show "pages p' ! q = pages p ! q" using e(3) by blast
  qed
qed

section \<open>Properties of the component\<close>

definition sample_pool :: "nat pool" where
  "sample_pool = snd (scatter 7 3 [[10, 11, 12], [20, 21, 22]] 0 (register_slot 7 2 (init_pool 0 6 2)))"

lemma sample_pool_ok: "pool_ok sample_pool"
  unfolding sample_pool_def
  by (rule pool_ok_scatter [OF pool_ok_register [OF pool_ok_init]]) (auto simp: prod_eq_iff)

lemma sample_pool_table: "map_of (block_tables sample_pool) 7 = Some [[5, 4], [3, 2]]"
  by code_simp

lemma sample_pool_gather: "gather 7 3 sample_pool = Inr [[10, 11, 12], [20, 21, 22]]"
  by code_simp

lemma sample_pool_free: "free_pages sample_pool = [0, 1]"
  by code_simp

text \<open>C37. The paged cache is exact: if the pool holds the first \<open>prefix_length\<close> tokens of the new
  keys and values, then after a successful scatter of the block's full output, gathering the new
  length returns that output, token for token and row for row.\<close>
theorem paged_cache_exact:
  assumes "pool_ok p" "scatter slot new_length news prefix_length p = (Inr (), p')"
    and "map_of (block_tables p) slot = Some t" "t \<noteq> []" "length news = length t"
    and "\<forall>r \<in> set news. length r = new_length" "prefix_length < new_length"
    and "gather slot prefix_length p = Inr (map (take prefix_length) news)"
  shows "gather slot new_length p' = Inr news"
  using assms by (rule gather_scatter)

theorem paged_cache_exact_witness:
  "gather 7 4 (snd (scatter 7 4 [[10, 11, 12, 13], [20, 21, 22, 23]] 3 sample_pool))
    = Inr [[10, 11, 12, 13], [20, 21, 22, 23]]"
proof (rule paged_cache_exact [OF sample_pool_ok _ sample_pool_table])
  show "scatter 7 4 [[10, 11, 12, 13], [20, 21, 22, 23]] 3 sample_pool
      = (Inr (), snd (scatter 7 4 [[10, 11, 12, 13], [20, 21, 22, 23]] 3 sample_pool))"
    by code_simp
qed (use sample_pool_gather in simp_all)

text \<open>Sessions are isolated: whatever one session scatters, with or without running out of
  pages, no other session reads anything different afterwards.\<close>
theorem paged_cache_isolated:
  assumes "pool_ok p" "scatter slot new_length news prefix_length p = (r, p')" "slot' \<noteq> slot"
  shows "gather slot' L p' = gather slot' L p"
  using assms by (rule gather_scatter_other)

theorem paged_cache_isolated_witness:
  "gather 7 3 (snd (scatter 8 9 [[1, 2, 3, 4, 5, 6, 7, 8, 9]] 0 (register_slot 8 1 sample_pool)))
     = gather 7 3 (register_slot 8 1 sample_pool)"
  by (rule paged_cache_isolated [OF pool_ok_register [OF sample_pool_ok]]) (auto simp: prod_eq_iff)

text \<open>Beam search on the paged cache is an exact permutation of rows: after a reorder by valid
  indices, row \<open>k\<close> holds what row \<open>hypo_ids[k]\<close> held, duplicates included, and page ownership
  is intact.\<close>
theorem paged_reorder_permutes:
  assumes "pool_ok p" "reorder slot hypo_ids p = (Inr (), p')" "gather slot L p = Inr rows"
    and "\<forall>i \<in> set hypo_ids. 0 \<le> i \<and> i < int (length rows)" "hypo_ids \<noteq> []"
  shows "gather slot L p' = Inr (map (\<lambda>i. rows ! nat i) hypo_ids) \<and> pool_ok p'"
proof -
  obtain t where t: "map_of (block_tables p) slot = Some t" "length rows = length t"
    using assms(3) by (cases "L = 0") (auto simp: gather_0 gather_Inr_iff)
  have "pool_ok p'"
    using reorder_effect [OF assms(1,2) t(1)] assms(4) t(2) by metis
  then show ?thesis using gather_reorder [OF assms] by simp
qed

theorem paged_reorder_permutes_witness:
  "gather 7 3 (snd (reorder 7 [1, 1] sample_pool)) = Inr (map (\<lambda>i. [[10, 11, 12], [20, 21, 22]] ! nat i) [1, 1])
     \<and> pool_ok (snd (reorder 7 [1, 1] sample_pool))"
proof (rule paged_reorder_permutes [OF sample_pool_ok _ sample_pool_gather])
  show "reorder 7 [1, 1] sample_pool = (Inr (), snd (reorder 7 [1, 1] sample_pool))" by code_simp
qed simp_all

text \<open>C9. Every page is owned exactly once: registering, freeing and scattering (also one that runs
  out of pages half-way) keep the free list and the block tables a partition of the pool, and
  freeing a slot returns exactly the pages it held.\<close>
theorem page_ownership_preserved:
  assumes "pool_ok p"
  shows "pool_ok (register_slot s b p) \<and> pool_ok (free_slot s p)
    \<and> pool_ok (snd (scatter s new_length news prefix_length p))
    \<and> (\<forall>t. map_of (block_tables p) s = Some t \<longrightarrow>
      num_free_pages (free_slot s p) = num_free_pages p + length (concat t))"
  using pool_ok_register [OF assms] pool_ok_free [OF assms]
    pool_ok_scatter [OF assms prod.collapse [symmetric]]
  by (simp add: free_slot_def num_free_pages_def)

theorem page_ownership_preserved_witness:
  "pool_ok (register_slot 7 1 sample_pool) \<and> pool_ok (free_slot 7 sample_pool)
   \<and> pool_ok (snd (scatter 7 99 [[], []] 3 sample_pool))
   \<and> num_free_pages (free_slot 7 sample_pool) = num_free_pages sample_pool + 4"
  using page_ownership_preserved [OF sample_pool_ok, of 7 1 99 "[[], []]" 3] sample_pool_table by simp

text \<open>A beam reorder that runs out of pages forgets every free page of the server: the pages
  already popped for copies are in no block table and not in the free list any more, so no
  page is left to allocate although the tables still hold what they held before.\<close>
theorem failed_reorder_leaks_pages:
  assumes "pool_ok p" "reorder slot hypo_ids p = (Inl AllocationFailed, p')"
  shows "free_pages p' = [] \<and> block_tables p' = block_tables p
    \<and> (free_pages p \<noteq> [] \<longrightarrow> \<not> pool_ok p')"
proof -
  have f: "free_pages p' = []" "block_tables p' = block_tables p" "num_pages p' = num_pages p"
    using assms(2) by (auto simp: reorder_def dict_get_def dest: reorder_rows_fails
        split: option.splits sum.splits prod.splits)
  have "free_pages p = []" if "pool_ok p'"
  proof -
    have "mset (free_pages p) + mset (table_pages (block_tables p)) = mset (table_pages (block_tables p))"
      using assms(1) that f by (simp add: pool_ok_def)
    then show ?thesis by simp
  qed
  with f show ?thesis by blast
qed

theorem failed_reorder_leaks_pages_witness:
  "free_pages (snd (reorder 7 [0, 0, 0, 0] sample_pool)) = []
    \<and> \<not> pool_ok (snd (reorder 7 [0, 0, 0, 0] sample_pool))"
proof -
  have "reorder 7 [0, 0, 0, 0] sample_pool = (Inl AllocationFailed, snd (reorder 7 [0, 0, 0, 0] sample_pool))"
    by code_simp
  from failed_reorder_leaks_pages [OF sample_pool_ok this] show ?thesis
    by (metis append_is_Nil_conv list.distinct(1) sample_pool_free)
qed

text \<open>Negative beam indices, which Python's list indexing accepts and nothing on the way from
  the client rejects, corrupt the pool: a page ends up both free and in use by the session.\<close>
theorem negative_reorder_corrupts:
  "reorder 7 [-1, -1] sample_pool = (Inr (), snd (reorder 7 [-1, -1] sample_pool))
   \<and> 3 \<in> set (free_pages (snd (reorder 7 [-1, -1] sample_pool)))
   \<and> (\<exists>t. map_of (block_tables (snd (reorder 7 [-1, -1] sample_pool))) 7 = Some t \<and> 3 \<in> set (concat t))
   \<and> \<not> pool_ok (snd (reorder 7 [-1, -1] sample_pool))"
proof -
  let ?p = "snd (reorder 7 [-1, -1] sample_pool)"
  have t: "map_of (block_tables ?p) 7 = Some [[3, 2], [1, 0]]" by code_simp
  have f: "free_pages ?p = [5, 4, 3, 2]" by code_simp
  have "\<not> pool_ok ?p" using pool_ok_table(3) [OF _ t] f by auto
  moreover have "reorder 7 [-1, -1] sample_pool = (Inr (), ?p)" by code_simp
  ultimately show ?thesis using t f by simp
qed

end
