(* ===== verification/Memory_Cache.thy ===== *)
theory Memory_Cache
  imports KV_Cache Paged_Pool_Reorder "HOL-Library.Word"
begin

text \<open>
  Models \<open>MemoryCache\<close> of \<open>src/drift/server/memory_cache.py\<close>: the accounting that connection
  handlers (several processes) share, the pipe over which they tell the runtime which tensors and
  slots to create or drop, and the runtime's own table of tensors. The handle counter is the
  64-bit cell of the code. A device is a number, absent when the descriptor names none.
\<close>

type_synonym descr = "nat option descriptor"

datatype message =
    Create "int list" "descr list"
  | Delete "int list"
  | Paged_Register "int list" nat
  | Paged_Free "int list"

record 'a cache =
  max_size :: nat
  current_size :: int
  enqueued_size :: int
  handle_counter :: "64 word"
  pipe :: "message list"
  allocated :: "(int, 'a tensor) dict"

definition init_cache :: "nat option \<Rightarrow> 'a cache" where
  "init_cache limit =
     \<lparr>max_size = (case limit of None \<Rightarrow> 2 ^ 64 - 1 | Some m \<Rightarrow> m), current_size = 0, enqueued_size = 0,
      handle_counter = 0, pipe = [], allocated = []\<rparr>"

definition bytes_left :: "'a cache \<Rightarrow> int" where
  "bytes_left s = int (max_size s) - current_size s"

section \<open>Allocation sizes\<close>

definition descr_bytes :: "descr \<Rightarrow> nat res" where
  "descr_bytes d = rbind (get_size_in_bytes (d_dtype d)) (\<lambda>b. Inr (descr_numel d * b))"

definition add_descr :: "descr \<Rightarrow> (nat option, nat) dict \<Rightarrow> (nat option, nat) dict res" where
  "add_descr d by_device =
     rbind (descr_bytes d) (\<lambda>b.
       Inr (AList.update (d_device d)
              ((case map_of by_device (d_device d) of None \<Rightarrow> 0 | Some n \<Rightarrow> n) + b) by_device))"

definition get_allocation_size :: "descr list \<Rightarrow> nat res" where
  "get_allocation_size ds =
     rbind (rfold add_descr ds []) (\<lambda>by_device.
       if by_device = [] then Inl ValueError else Inr (Max (snd ` set by_device)))"

section \<open>Who may call\<close>

record thread_ctx =
  this_pid :: nat
  this_thread :: nat

record runtime_ids =
  runtime_pid :: nat
  runtime_thread_id :: "nat option"

definition is_runtime_context :: "runtime_ids \<Rightarrow> thread_ctx \<Rightarrow> bool" where
  "is_runtime_context r c \<longleftrightarrow>
     (if this_pid c \<noteq> runtime_pid r then False
      else case runtime_thread_id r of None \<Rightarrow> True | Some t \<Rightarrow> this_thread c = t)"

definition mark_runtime_thread :: "thread_ctx \<Rightarrow> runtime_ids \<Rightarrow> runtime_ids res" where
  "mark_runtime_thread c r =
     (if this_pid c = runtime_pid r then Inr (r\<lparr>runtime_thread_id := Some (this_thread c)\<rparr>) else Inl AssertionError)"

text \<open>What \<open>allocate_cache\<close> checks and computes before it schedules the allocation.\<close>

definition allocate_request ::
  "runtime_ids \<Rightarrow> thread_ctx \<Rightarrow> rat option \<Rightarrow> descr list \<Rightarrow> rat \<Rightarrow> (nat \<times> rat) res" where
  "allocate_request r c max_alloc_timeout ds timeout =
     rbind (rassert (\<not> is_runtime_context r c) AssertionError) (\<lambda>_.
     rbind (rassert (list_all (\<lambda>d. d_device d \<noteq> None) ds) AssertionError) (\<lambda>_.
     rbind (get_allocation_size ds) (\<lambda>nbytes.
     Inr (nbytes, case max_alloc_timeout of None \<Rightarrow> timeout | Some m \<Rightarrow> min timeout m))))"

section \<open>The runtime side\<close>

definition make_zeros :: "'a \<Rightarrow> descr \<Rightarrow> 'a tensor" where
  "make_zeros zero d = \<lparr>shape = d_size d, elems = replicate (descr_numel d) zero\<rparr>"

definition create_tensors :: "'a \<Rightarrow> (int \<times> descr) list \<Rightarrow> (int, 'a tensor) dict \<Rightarrow> (int, 'a tensor) dict" where
  "create_tensors zero hds tensors = fold (\<lambda>(h, d). AList.update h (make_zeros zero d)) hds tensors"

text \<open>The messages \<open>use_cache\<close> reads; a paged message does not unpack into two values.\<close>

fun drain :: "'a \<Rightarrow> message list \<Rightarrow> (int, 'a tensor) dict \<Rightarrow> unit res \<times> message list \<times> (int, 'a tensor) dict" where
  "drain zero [] tensors = (Inr (), [], tensors)"
| "drain zero (Create hs ds # ms) tensors =
     (if length hs = length ds then drain zero ms (create_tensors zero (zip hs ds) tensors)
      else (Inl AssertionError, ms, tensors))"
| "drain zero (Delete hs # ms) tensors = drain zero ms (fold AList.delete hs tensors)"
| "drain zero (Paged_Register _ _ # ms) tensors = (Inl ValueError, ms, tensors)"
| "drain zero (Paged_Free _ # ms) tensors = (Inl ValueError, ms, tensors)"

definition use_cache :: "'a \<Rightarrow> int list \<Rightarrow> 'a cache \<Rightarrow> 'a tensor list res \<times> 'a cache" where
  "use_cache zero handles s =
     (case drain zero (pipe s) (allocated s) of
        (Inl e, ms, tensors) \<Rightarrow> (Inl e, s\<lparr>pipe := ms, allocated := tensors\<rparr>)
      | (Inr _, ms, tensors) \<Rightarrow> (rmap (dict_get tensors) handles, s\<lparr>pipe := ms, allocated := tensors\<rparr>))"

section \<open>The handlers' side\<close>

definition next_handles :: "nat \<Rightarrow> 'a cache \<Rightarrow> int list" where
  "next_handles n s = map (\<lambda>i. sint (handle_counter s) + int i) [0..<n]"

definition enqueue :: "nat \<Rightarrow> 'a cache \<Rightarrow> 'a cache" where
  "enqueue nbytes s = s\<lparr>enqueued_size := enqueued_size s + int nbytes\<rparr>"

definition dequeue :: "nat \<Rightarrow> 'a cache \<Rightarrow> 'a cache" where
  "dequeue nbytes s = s\<lparr>enqueued_size := enqueued_size s - int nbytes\<rparr>"

definition fits :: "nat \<Rightarrow> 'a cache \<Rightarrow> bool" where
  "fits nbytes s \<longleftrightarrow> current_size s + int nbytes \<le> int (max_size s)"

text \<open>The immediate rejection of a request with timeout zero, before the lock.\<close>

definition rejected_at_once :: "rat \<Rightarrow> 'a cache \<Rightarrow> bool" where
  "rejected_at_once timeout s \<longleftrightarrow>
     timeout = 0 \<and> int (max_size s) < current_size s + enqueued_size s"

text \<open>The critical section of \<open>_schedule_alloc\<close>.\<close>

definition grant :: "nat \<Rightarrow> descr list \<Rightarrow> 'a cache \<Rightarrow> int list \<times> 'a cache" where
  "grant nbytes ds s =
     (let handles = next_handles (length ds) s in
      (handles, s\<lparr>current_size := current_size s + int nbytes,
                  handle_counter := handle_counter s + of_nat (length ds),
                  pipe := pipe s @ [Create handles ds]\<rparr>))"

text \<open>The critical section of \<open>_free\<close>.\<close>

definition release :: "nat \<Rightarrow> int list \<Rightarrow> 'a cache \<Rightarrow> 'a cache" where
  "release nbytes handles s =
     s\<lparr>pipe := pipe s @ [Delete handles], current_size := current_size s - int nbytes\<rparr>"

section \<open>Concurrent allocation as a transition system\<close>

text \<open>
  A task is one \<open>allocate_cache\<close> context of a handler process. \<open>Queued\<close>: it counts as enqueued and
  waits for \<open>_lock_acquire_memory\<close>; \<open>Locked\<close>: it holds that lock and waits for room; \<open>Admitted\<close>:
  the check has passed and the lock is released, but nothing is reserved yet; \<open>Holding\<close>: inside the
  context. Between the check and the reservation a process does not switch tasks (there is no
  \<open>await\<close>), so no other task of the same process can pass the check meanwhile. The runtime reads
  the pipe (\<open>runtime\<close>) and overwrites tensors in place (\<open>overwrite\<close>) at any time.
\<close>

datatype phase = Idle | Queued | Locked | Admitted | Holding "int list" | Finished | Refused

record task =
  proc :: nat
  bytes :: nat
  descrs :: "descr list"

record 'a sys =
  tasks :: "task list"
  phases :: "phase list"
  mem_lock :: "nat option"
  mem :: "'a cache"

definition init_sys :: "nat option \<Rightarrow> task list \<Rightarrow> 'a sys" where
  "init_sys limit ts =
     \<lparr>tasks = ts, phases = replicate (length ts) Idle, mem_lock = None, mem = init_cache limit\<rparr>"

definition goto :: "nat \<Rightarrow> phase \<Rightarrow> 'a sys \<Rightarrow> 'a sys" where
  "goto t p S = S\<lparr>phases := (phases S)[t := p]\<rparr>"

definition size_of :: "'a sys \<Rightarrow> nat \<Rightarrow> nat" where
  "size_of S t = bytes (tasks S ! t)"

definition others_admitted :: "'a sys \<Rightarrow> nat \<Rightarrow> bool" where
  "others_admitted S t \<longleftrightarrow>
     (\<exists>u < length (phases S). phases S ! u = Admitted \<and> proc (tasks S ! u) = proc (tasks S ! t))"

inductive mstep :: "'a \<Rightarrow> 'a sys \<Rightarrow> 'a sys \<Rightarrow> bool" for zero :: 'a where
  request: "t < length (phases S) \<Longrightarrow> phases S ! t = Idle \<Longrightarrow>
    mstep zero S (goto t Queued (S\<lparr>mem := enqueue (size_of S t) (mem S)\<rparr>))"
| refuse: "t < length (phases S) \<Longrightarrow> phases S ! t = Queued \<Longrightarrow>
    mstep zero S (goto t Refused (S\<lparr>mem := dequeue (size_of S t) (mem S)\<rparr>))"
| acquire: "t < length (phases S) \<Longrightarrow> phases S ! t = Queued \<Longrightarrow> mem_lock S = None \<Longrightarrow>
    mstep zero S (goto t Locked (S\<lparr>mem_lock := Some t\<rparr>))"
| give_up: "t < length (phases S) \<Longrightarrow> phases S ! t = Locked \<Longrightarrow> \<not> fits (size_of S t) (mem S) \<Longrightarrow>
    mstep zero S (goto t Refused (S\<lparr>mem_lock := None, mem := dequeue (size_of S t) (mem S)\<rparr>))"
| admit: "t < length (phases S) \<Longrightarrow> phases S ! t = Locked \<Longrightarrow> fits (size_of S t) (mem S) \<Longrightarrow>
    \<not> others_admitted S t \<Longrightarrow>
    mstep zero S (goto t Admitted (S\<lparr>mem_lock := None, mem := dequeue (size_of S t) (mem S)\<rparr>))"
| reserve: "t < length (phases S) \<Longrightarrow> phases S ! t = Admitted \<Longrightarrow>
    grant (size_of S t) (descrs (tasks S ! t)) (mem S) = (handles, m') \<Longrightarrow>
    mstep zero S (goto t (Holding handles) (S\<lparr>mem := m'\<rparr>))"
| finish: "t < length (phases S) \<Longrightarrow> phases S ! t = Holding handles \<Longrightarrow>
    mstep zero S (goto t Finished (S\<lparr>mem := release (size_of S t) handles (mem S)\<rparr>))"
| overwrite: "length (elems x) = length (elems y) \<Longrightarrow> shape x = shape y \<Longrightarrow> map_of (allocated (mem S)) h = Some x \<Longrightarrow>
    mstep zero S (S\<lparr>mem := (mem S)\<lparr>allocated := AList.update h y (allocated (mem S))\<rparr>\<rparr>)"
| runtime: "use_cache zero handles (mem S) = (r, m') \<Longrightarrow> mstep zero S (S\<lparr>mem := m'\<rparr>)"

inductive_cases mstep_cases: "mstep zero S S'"

end
