(* ===== verification/Memory_Handles.thy ===== *)
theory Memory_Handles
  imports Memory_Accounting
begin

text \<open>
  Handles and the runtime's tensors: what a live session asks for is always there, with the shape
  it was described with, and nothing outlives its session. Also the two limits of the admission
  protocol: the check and the reservation are not one atomic step across processes, and paged
  admission waits for a counter that only a running session updates.
\<close>

section \<open>Tables up to contents\<close>

definition tsig :: "'a tensor \<Rightarrow> nat list \<times> nat" where
  "tsig t = (shape t, length (elems t))"

definition sig_list :: "(int, 'a tensor) dict \<Rightarrow> (int \<times> nat list \<times> nat) list" where
  "sig_list d = map (\<lambda>(h, t). (h, tsig t)) d"

definition descr_sig :: "descr \<Rightarrow> nat list \<times> nat" where
  "descr_sig d = (d_size d, descr_numel d)"

lemma tsig_make_zeros [simp]: "tsig (make_zeros z d) = descr_sig d"
  by (simp add: tsig_def make_zeros_def descr_sig_def)

lemma sig_list_update [simp]: "sig_list (AList.update h x d) = AList.update h (tsig x) (sig_list d)"
  by (induction d) (auto simp: sig_list_def)

lemma sig_list_delete [simp]: "sig_list (AList.delete h d) = AList.delete h (sig_list d)"
  by (induction d) (auto simp: sig_list_def)

lemma sig_list_deletes [simp]: "sig_list (fold AList.delete hs d) = fold AList.delete hs (sig_list d)"
  by (induction hs arbitrary: d) auto

lemma sig_list_create [simp]:
  "sig_list (create_tensors z hds d) = fold (\<lambda>(h, x). AList.update h (descr_sig x)) hds (sig_list d)"
  by (induction hds arbitrary: d) (auto simp: create_tensors_def)

lemma fst_sig_list [simp]: "map fst (sig_list d) = map fst d"
  by (simp add: sig_list_def comp_def case_prod_beta)

lemma drain_sig:
  "sig_list d = sig_list d' \<Longrightarrow>
     fst (drain z ms d) = fst (drain z ms d') \<and> fst (snd (drain z ms d)) = fst (snd (drain z ms d'))
     \<and> sig_list (snd (snd (drain z ms d))) = sig_list (snd (snd (drain z ms d')))"
proof (induction ms arbitrary: d d')
  case Nil
  then show ?case by simp
next
  case (Cons m ms)
  show ?case
  proof (cases m)
    case (Create hs ds)
    have "sig_list (create_tensors z (zip hs ds) d) = sig_list (create_tensors z (zip hs ds) d')"
      using Cons.prems by simp
    from Cons.IH [OF this] Cons.prems Create show ?thesis by simp
  next
    case (Delete hs)
    have "sig_list (fold AList.delete hs d) = sig_list (fold AList.delete hs d')"
      using Cons.prems by simp
    from Cons.IH [OF this] Delete show ?thesis by simp
  qed (use Cons.prems in auto)
qed

lemma drain_append:
  "drain z (ms @ ms') d =
     (case drain z ms d of (Inl e, r, d') \<Rightarrow> (Inl e, r @ ms', d') | (Inr _, r, d') \<Rightarrow> drain z ms' d')"
  by (induction z ms d rule: drain.induct) auto

lemma drain_append_ok:
  "fst (drain z ms d) = Inr () \<Longrightarrow> drain z (ms @ ms') d = drain z ms' (snd (snd (drain z ms d)))"
  by (auto simp: drain_append split: prod.splits sum.splits)

lemma drain_ok_empties: "drain z ms d = (Inr (), r, d') \<Longrightarrow> r = []"
  by (induction z ms d rule: drain.induct) (auto split: if_splits)

lemma set_updates:
  assumes "length hs = length ds" "distinct hs" "set hs \<inter> fst ` set d = {}" "distinct (map fst d)"
  shows "set (fold (\<lambda>(h, x). AList.update h (descr_sig x)) (zip hs ds) d) = set d \<union> set (zip hs (map descr_sig ds))
    \<and> distinct (map fst (fold (\<lambda>(h, x). AList.update h (descr_sig x)) (zip hs ds) d))"
  using assms
proof (induction hs ds arbitrary: d rule: list_induct2)
  case Nil
  then show ?case by simp
next
  case (Cons h hs x ds)
  have new: "set (AList.update h v d) = insert (h, v) (set d)" for v
    using Cons.prems(2) by (induction d) auto
  have "set hs \<inter> fst ` set (AList.update h (descr_sig x) d) = {}"
    using Cons.prems unfolding new by auto
  from Cons.IH [OF _ this] Cons.prems new show ?case by (auto simp: distinct_update)
qed

lemma set_deletes:
  "set (fold AList.delete hs d) = {p \<in> set d. fst p \<notin> set hs}"
proof (induction hs arbitrary: d)
  case Nil
  then show ?case by simp
next
  case (Cons h hs)
  have "set (AList.delete h d) = {p \<in> set d. fst p \<noteq> h}" by (auto simp: AList.delete_eq)
  then show ?case using Cons [of "AList.delete h d"] by auto
qed

lemma distinct_deletes: "distinct (map fst d) \<Longrightarrow> distinct (map fst (fold AList.delete hs d))"
  by (induction hs arbitrary: d) (auto simp: distinct_delete)

section \<open>Live handles\<close>

definition task_entries :: "'a sys \<Rightarrow> nat \<Rightarrow> (int \<times> nat list \<times> nat) set" where
  "task_entries S t = (case phases S ! t of
     Holding hs \<Rightarrow> set (zip hs (map descr_sig (descrs (tasks S ! t)))) | _ \<Rightarrow> {})"

definition live_entries :: "'a sys \<Rightarrow> (int \<times> nat list \<times> nat) set" where
  "live_entries S = (\<Union>t < length (phases S). task_entries S t)"

definition handles_ok :: "'a \<Rightarrow> 'a sys \<Rightarrow> bool" where
  "handles_ok z S \<longleftrightarrow>
     sint (handle_counter (mem S)) = tasks_total is_granted (length \<circ> descrs) S
     \<and> (\<forall>t < length (phases S). \<forall>hs. phases S ! t = Holding hs \<longrightarrow>
          length hs = length (descrs (tasks S ! t)) \<and> distinct hs
          \<and> (\<forall>h \<in> set hs. h < sint (handle_counter (mem S))))
     \<and> (\<forall>t < length (phases S). \<forall>u < length (phases S). \<forall>hs hs'. t \<noteq> u \<longrightarrow>
          phases S ! t = Holding hs \<longrightarrow> phases S ! u = Holding hs' \<longrightarrow> set hs \<inter> set hs' = {})
     \<and> fst (drain z (pipe (mem S)) (allocated (mem S))) = Inr ()
     \<and> distinct (map fst (snd (snd (drain z (pipe (mem S)) (allocated (mem S))))))
     \<and> set (sig_list (snd (snd (drain z (pipe (mem S)) (allocated (mem S)))))) = live_entries S"

lemma counter_add:
  fixes w :: "64 word"
  assumes "0 \<le> sint w + int n" "sint w + int n < 2 ^ 63"
  shows "sint (w + of_nat n) = sint w + int n"
proof -
  have "w + of_nat n = word_of_int (sint w + int n)" by simp
  moreover have "sint (word_of_int (sint w + int n) :: 64 word) = sint w + int n"
    using assms by (subst sint_sbintrunc') (simp add: signed_take_bit_int_eq_self)
  ultimately show ?thesis by (simp only:)
qed

lemma handles_ok_init: "handles_ok z (init_sys limit ts)"
  by (auto simp: handles_ok_def init_cache_def tasks_total_def live_entries_def task_entries_def sig_list_def)

text \<open>Only the phases, the counter and the table up to contents matter.\<close>

lemma handles_ok_mem:
  assumes "handles_ok z S" "handle_counter m = handle_counter (mem S)"
    and "pipe m = pipe (mem S)" "sig_list (allocated m) = sig_list (allocated (mem S))"
  shows "handles_ok z (S\<lparr>mem := m\<rparr>)" "handles_ok z (S\<lparr>mem_lock := l, mem := m\<rparr>)"
proof -
  have d: "fst (drain z (pipe m) (allocated m)) = fst (drain z (pipe (mem S)) (allocated (mem S)))"
    "sig_list (snd (snd (drain z (pipe m) (allocated m)))) = sig_list (snd (snd (drain z (pipe (mem S)) (allocated (mem S)))))"
    using drain_sig [OF assms(4), of z "pipe m"] assms(3) by auto
  have k: "map fst (snd (snd (drain z (pipe m) (allocated m)))) = map fst (snd (snd (drain z (pipe (mem S)) (allocated (mem S)))))"
    using d(2) by (metis fst_sig_list)
  have t: "tasks_total P f (S\<lparr>mem_lock := l, mem := m\<rparr>) = tasks_total P f S" for P f
    by (simp add: tasks_total_def cong: if_cong)
  have l: "live_entries (S\<lparr>mem := m\<rparr>) = live_entries S" "live_entries (S\<lparr>mem_lock := l, mem := m\<rparr>) = live_entries S"
    by (simp_all add: live_entries_def task_entries_def cong: phase.case_cong)
  show "handles_ok z (S\<lparr>mem := m\<rparr>)" "handles_ok z (S\<lparr>mem_lock := l, mem := m\<rparr>)"
    using assms(1,2) unfolding handles_ok_def by (auto simp: d k t l)
qed

lemma live_entries_goto:
  assumes "t < length (phases S)" "\<forall>hs. phases S ! t \<noteq> Holding hs" "\<forall>hs. p \<noteq> Holding hs"
  shows "live_entries (goto t p S) = live_entries S"
  unfolding live_entries_def
  by (intro SUP_cong) (use assms in \<open>auto simp: task_entries_def nth_list_update split: phase.splits\<close>)

lemma handles_ok_goto:
  assumes "handles_ok z S" "t < length (phases S)" "\<not> is_granted (phases S ! t)" "\<not> is_granted p"
  shows "handles_ok z (goto t p S)"
proof -
  have nh: "\<forall>hs. phases S ! t \<noteq> Holding hs" "\<forall>hs. p \<noteq> Holding hs" using assms(3,4) by auto
  show ?thesis using assms live_entries_goto [OF assms(2) nh] nh
    unfolding handles_ok_def by (auto simp: nth_list_update)
qed

lemma mem_sig [simp]:
  "sig_list (allocated (enqueue b m)) = sig_list (allocated m)"
  "sig_list (allocated (dequeue b m)) = sig_list (allocated m)"
  by simp_all

lemma granted_bounds:
  assumes "handles_ok z S" "length (phases S) = length (tasks S)"
  shows "0 \<le> sint (handle_counter (mem S))"
    and "t < length (phases S) \<Longrightarrow> \<not> is_granted (phases S ! t) \<Longrightarrow>
      sint (handle_counter (mem S)) + int (length (descrs (tasks S ! t))) \<le> int (\<Sum>t<length (tasks S). length (descrs (tasks S ! t)))"
proof -
  show "0 \<le> sint (handle_counter (mem S))" using assms(1) tasks_total_nonneg by (simp add: handles_ok_def)
  assume t: "t < length (phases S)" "\<not> is_granted (phases S ! t)"
  let ?g = "\<lambda>u. if is_granted (phases S ! u) then int (length (descrs (tasks S ! u))) else 0"
  let ?f = "\<lambda>u. int (length (descrs (tasks S ! u)))"
  have "tasks_total is_granted (length \<circ> descrs) S + ?f t = (\<Sum>u\<in>{..<length (phases S)} - {t}. ?g u) + ?f t"
    using t by (simp add: tasks_total_def sum.remove [of _ t] cong: if_cong)
  also have "\<dots> \<le> (\<Sum>u\<in>{..<length (phases S)} - {t}. ?f u) + ?f t"
    by (intro add_right_mono sum_mono) auto
  also have "\<dots> = (\<Sum>u<length (phases S). ?f u)" using t by (simp add: sum.remove [of _ t])
  finally show "sint (handle_counter (mem S)) + int (length (descrs (tasks S ! t))) \<le> int (\<Sum>t<length (tasks S). length (descrs (tasks S ! t)))"
    using assms by (simp add: handles_ok_def)
qed

lemma task_entries_mem [simp]: "task_entries (S\<lparr>mem := m\<rparr>) u = task_entries S u"
  by (simp add: task_entries_def cong: phase.case_cong)

lemma live_entries_split:
  assumes "t < length (phases S)"
  shows "live_entries S = task_entries S t \<union> (\<Union>u \<in> {..<length (phases S)} - {t}. task_entries S u)"
  using assms unfolding live_entries_def by blast

lemma live_entries_update:
  assumes "t < length (phases S)"
  shows "live_entries (goto t p S) = task_entries (goto t p S) t \<union> (\<Union>u \<in> {..<length (phases S)} - {t}. task_entries S u)"
proof -
  have "task_entries (goto t p S) u = task_entries S u" if "u \<noteq> t" for u
    using that by (simp add: task_entries_def cong: phase.case_cong)
  then show ?thesis using live_entries_split [of t "goto t p S"] assms by simp
qed

lemma task_entries_keys: "fst ` task_entries S u \<subseteq> (case phases S ! u of Holding hs \<Rightarrow> set hs | _ \<Rightarrow> {})"
  by (auto simp: task_entries_def dest: set_zip_leftD split: phase.splits)

lemma handles_ok_reserve:
  assumes ok: "handles_ok z S" and t: "t < length (phases S)" "phases S ! t = Admitted"
    and g: "grant b (descrs (tasks S ! t)) (mem S) = (hs, m')"
    and len: "length (phases S) = length (tasks S)"
    and room: "(\<Sum>t<length (tasks S). length (descrs (tasks S ! t))) < 2 ^ 63"
  shows "handles_ok z (goto t (Holding hs) (S\<lparr>mem := m'\<rparr>))"
proof -
  let ?ds = "descrs (tasks S ! t)"
  let ?c = "sint (handle_counter (mem S))"
  let ?S = "S\<lparr>mem := m'\<rparr>"
  note g' = grant_simps [OF g]
  define T where "T = snd (snd (drain z (pipe (mem S)) (allocated (mem S))))"
  define N where "N = (\<Sum>t<length (tasks S). length (descrs (tasks S ! t)))"
  have "?c + int (length ?ds) \<le> int N" using granted_bounds(2) [OF ok len t(1)] t(2) unfolding N_def by simp
  moreover have "N < 9223372036854775808" using room by (simp add: N_def)
  ultimately have "?c + int (length ?ds) < 9223372036854775808" by linarith
  then have c: "0 \<le> ?c" "?c + int (length ?ds) < 2 ^ 63" using granted_bounds(1) [OF ok len] by simp_all
  have cnt: "sint (handle_counter m') = ?c + int (length ?ds)"
    using counter_add [of "handle_counter (mem S)" "length ?ds"] c g' by simp
  have hs: "hs = map (\<lambda>i. ?c + int i) [0..<length ?ds]" using g'(7) by (simp add: next_handles_def)
  have hs': "length hs = length ?ds" "distinct hs" "\<forall>h \<in> set hs. ?c \<le> h \<and> h < ?c + int (length ?ds)"
    unfolding hs by (auto simp: distinct_map inj_on_def)
  have old: "h < ?c" if "u < length (phases S)" "phases S ! u = Holding ks" "h \<in> set ks" for u ks h
    using ok that by (auto simp: handles_ok_def)
  have T: "fst (drain z (pipe (mem S)) (allocated (mem S))) = Inr ()" "distinct (map fst T)" "set (sig_list T) = live_entries S"
    using ok by (auto simp: handles_ok_def T_def)
  have keys: "h < ?c" if "(h, s) \<in> live_entries S" for h s
  proof -
    from that obtain u where u: "u < length (phases S)" "(h, s) \<in> task_entries S u" by (auto simp: live_entries_def)
    then have "h \<in> (case phases S ! u of Holding hs \<Rightarrow> set hs | _ \<Rightarrow> {})" using task_entries_keys [of S u] by force
    then show ?thesis using old [OF u(1)] by (auto split: phase.splits)
  qed
  have fresh: "set hs \<inter> fst ` set (sig_list T) = {}"
  proof -
    have "h < ?c" if "h \<in> fst ` set (sig_list T)" for h using that keys unfolding T(3) by force
    then show ?thesis using hs'(3) by force
  qed
  have dr: "drain z (pipe m') (allocated m') = (Inr (), [], create_tensors z (zip hs ?ds) T)"
    using drain_append_ok [OF T(1), of "[Create hs ?ds]"] hs'(1) by (simp add: g'(4,5) T_def)
  have up: "set (sig_list (create_tensors z (zip hs ?ds) T)) = live_entries S \<union> set (zip hs (map descr_sig ?ds))"
    "distinct (map fst (create_tensors z (zip hs ?ds) T))"
    using set_updates [OF hs'(1,2) fresh] T(2,3) by (simp_all flip: fst_sig_list)
  have live: "live_entries (goto t (Holding hs) ?S) = live_entries S \<union> set (zip hs (map descr_sig ?ds))"
  proof -
    have "task_entries S t = {}" "task_entries (goto t (Holding hs) ?S) t = set (zip hs (map descr_sig ?ds))"
      using t by (simp_all add: task_entries_def)
    then show ?thesis using live_entries_update [of t ?S "Holding hs"] live_entries_split [of t S] t by auto
  qed
  have tot: "tasks_total is_granted (length \<circ> descrs) (goto t (Holding hs) ?S) = ?c + int (length ?ds)"
    using ok t by (simp add: handles_ok_def)
  have disj: "set hs \<inter> set ks = {}" if "u < length (phases S)" "phases S ! u = Holding ks" for u ks
    using old [OF that] hs'(3) by force
  show ?thesis
    unfolding handles_ok_def
  proof (intro conjI allI impI)
    show "sint (handle_counter (mem (goto t (Holding hs) ?S))) = tasks_total is_granted (length \<circ> descrs) (goto t (Holding hs) ?S)"
      using tot cnt by simp
  next
    fix u ks assume u: "u < length (phases (goto t (Holding hs) ?S))" "phases (goto t (Holding hs) ?S) ! u = Holding ks"
    show "length ks = length (descrs (tasks (goto t (Holding hs) ?S) ! u))" "distinct ks"
      using u ok hs' t by (auto simp: handles_ok_def nth_list_update split: if_splits)
    show "\<forall>h \<in> set ks. h < sint (handle_counter (mem (goto t (Holding hs) ?S)))"
      using u old [of u ks] hs'(3) t cnt by (fastforce simp: nth_list_update split: if_splits)
  next
    fix u v ks ls assume "u < length (phases (goto t (Holding hs) ?S))" "v < length (phases (goto t (Holding hs) ?S))" "u \<noteq> v"
      "phases (goto t (Holding hs) ?S) ! u = Holding ks" "phases (goto t (Holding hs) ?S) ! v = Holding ls"
    then show "set ks \<inter> set ls = {}" using disj ok t
      by (auto simp: handles_ok_def nth_list_update split: if_splits)
  qed (simp_all add: dr up live del: sig_list_create)
qed

lemma handles_ok_finish:
  assumes ok: "handles_ok z S" and t: "t < length (phases S)" "phases S ! t = Holding hs"
  shows "handles_ok z (goto t Finished (S\<lparr>mem := release b hs (mem S)\<rparr>))"
proof -
  let ?S = "goto t Finished (S\<lparr>mem := release b hs (mem S)\<rparr>)"
  define T where "T = snd (snd (drain z (pipe (mem S)) (allocated (mem S))))"
  have T: "fst (drain z (pipe (mem S)) (allocated (mem S))) = Inr ()" "distinct (map fst T)" "set (sig_list T) = live_entries S"
    using ok by (auto simp: handles_ok_def T_def)
  have dr: "drain z (pipe (mem ?S)) (allocated (mem ?S)) = (Inr (), [], fold AList.delete hs T)"
    using drain_append_ok [OF T(1), of "[Delete hs]"] by (simp add: T_def)
  have own: "task_entries S t = set (zip hs (map descr_sig (descrs (tasks S ! t))))"
    using t by (simp add: task_entries_def)
  have out: "fst e \<notin> set hs" if u: "u < length (phases S)" "u \<noteq> t" "e \<in> task_entries S u" for u e
  proof -
    have "fst e \<in> (case phases S ! u of Holding hs \<Rightarrow> set hs | _ \<Rightarrow> {})" using task_entries_keys [of S u] u(3) by auto
    then obtain ks where "phases S ! u = Holding ks" "fst e \<in> set ks" by (auto split: phase.splits)
    moreover from this(1) have "set ks \<inter> set hs = {}" using ok u t by (auto simp: handles_ok_def)
    ultimately show ?thesis by auto
  qed
  have gone: "fst e \<in> set hs" if "e \<in> task_entries S t" for e
    using that own by (cases e) (auto dest: set_zip_leftD)
  have "task_entries ?S t = {}" using t by (simp add: task_entries_def)
  then have "live_entries ?S = (\<Union>u \<in> {..<length (phases S)} - {t}. task_entries S u)"
    using live_entries_update [of t "S\<lparr>mem := release b hs (mem S)\<rparr>" Finished] t by auto
  also have "\<dots> = {e \<in> live_entries S. fst e \<notin> set hs}"
    unfolding live_entries_split [OF t(1)] using out gone by auto
  finally have live: "live_entries ?S = {e \<in> live_entries S. fst e \<notin> set hs}" .
  have del: "set (sig_list (fold AList.delete hs T)) = {e \<in> live_entries S. fst e \<notin> set hs}"
    "distinct (map fst (fold AList.delete hs T))"
    using T by (auto simp: set_deletes distinct_deletes)
  have tot: "tasks_total is_granted (length \<circ> descrs) ?S = tasks_total is_granted (length \<circ> descrs) S"
    using t by simp
  show ?thesis
    unfolding handles_ok_def
  proof (intro conjI allI impI)
    show "sint (handle_counter (mem ?S)) = tasks_total is_granted (length \<circ> descrs) ?S"
      unfolding tot using ok by (simp add: handles_ok_def)
  next
    fix u ks assume u: "u < length (phases ?S)" "phases ?S ! u = Holding ks"
    then show "length ks = length (descrs (tasks ?S ! u))" "distinct ks" "\<forall>h \<in> set ks. h < sint (handle_counter (mem ?S))"
      using ok t by (auto simp: handles_ok_def nth_list_update split: if_splits)
  next
    fix u v ks ls assume "u < length (phases ?S)" "v < length (phases ?S)" "u \<noteq> v"
      "phases ?S ! u = Holding ks" "phases ?S ! v = Holding ls"
    then show "set ks \<inter> set ls = {}" using ok t
      by (auto simp: handles_ok_def nth_list_update split: if_splits)
  qed (simp_all add: dr [simplified] del live del: sig_list_deletes)
qed

lemma handles_ok_runtime:
  assumes "handles_ok z S" "use_cache z hs (mem S) = (r, m')"
  shows "handles_ok z (S\<lparr>mem := m'\<rparr>)"
proof -
  obtain ms T where d: "drain z (pipe (mem S)) (allocated (mem S)) = (Inr (), ms, T)"
    using assms(1) unfolding handles_ok_def by (metis prod.collapse)
  have ms: "ms = []" by (rule drain_ok_empties [OF d])
  have m': "m' = (mem S)\<lparr>pipe := [], allocated := T\<rparr>" using assms(2) d ms by (auto simp: use_cache_def)
  have live: "live_entries (S\<lparr>mem := m'\<rparr>) = live_entries S" by (simp add: live_entries_def)
  show ?thesis using assms(1) unfolding handles_ok_def live by (auto simp: m' d)
qed

lemma handles_ok_step:
  assumes "mstep z S S'" "handles_ok z S" "length (phases S) = length (tasks S)"
    and "(\<Sum>t<length (tasks S). length (descrs (tasks S ! t))) < 2 ^ 63"
  shows "handles_ok z S'"
  using assms
proof (induction rule: mstep.induct)
  case (request t S)
  then show ?case by (intro handles_ok_goto handles_ok_mem(1)) simp_all
next
  case (refuse t S)
  then show ?case by (intro handles_ok_goto handles_ok_mem(1)) simp_all
next
  case (acquire t S)
  then have "handles_ok z (S\<lparr>mem_lock := Some t, mem := mem S\<rparr>)" by (intro handles_ok_mem(2)) simp_all
  then have "handles_ok z (S\<lparr>mem_lock := Some t\<rparr>)" by simp
  then show ?case using acquire by (intro handles_ok_goto) simp_all
next
  case (give_up t S)
  then have "handles_ok z (S\<lparr>mem_lock := None, mem := dequeue (size_of S t) (mem S)\<rparr>)" by (intro handles_ok_mem(2)) simp_all
  then show ?case using give_up by (intro handles_ok_goto) simp_all
next
  case (admit t S)
  then have "handles_ok z (S\<lparr>mem_lock := None, mem := dequeue (size_of S t) (mem S)\<rparr>)" by (intro handles_ok_mem(2)) simp_all
  then show ?case using admit by (intro handles_ok_goto) simp_all
next
  case (reserve t S handles m')
  then show ?case by (intro handles_ok_reserve)
next
  case (finish t S handles)
  then show ?case by (intro handles_ok_finish)
next
  case (overwrite x y S h)
  have "map_of (sig_list (allocated (mem S))) h = Some (tsig y)"
    using overwrite(1-3) unfolding sig_list_def by (simp add: map_of_map tsig_def)
  then have "sig_list (AList.update h y (allocated (mem S))) = sig_list (allocated (mem S))"
    by (simp add: update_triv)
  then show ?case using overwrite by (intro handles_ok_mem(1)) simp_all
next
  case (runtime handles S r m')
  then show ?case by (intro handles_ok_runtime)
qed

lemma handles_ok_reachable:
  assumes "msteps z (init_sys limit ts) S" "(\<Sum>t<length ts. length (descrs (ts ! t))) < 2 ^ 63"
  shows "handles_ok z S"
  using assms(1)
proof (induction rule: rtranclp_induct)
  case base
  show ?case by (rule handles_ok_init)
next
  case (step S S')
  from accounts_ok_reachable [OF step(1)] have "length (phases S) = length (tasks S)" "tasks S = ts"
    by (auto simp: accounts_ok_def)
  then show ?case using handles_ok_step [OF step(2,3)] assms(2) by simp
qed

section \<open>What sessions and operators rely on\<close>

lemma zip_lookup:
  assumes "distinct (map fst d)" "set (zip hs sigs) \<subseteq> set d" "length hs = length sigs"
  shows "map (map_of d) hs = map Some sigs"
proof (rule nth_equalityI)
  fix i assume "i < length (map (map_of d) hs)"
  then have i: "i < length hs" by simp
  then have "(hs ! i, sigs ! i) \<in> set d" using assms(2,3) by (auto simp: set_zip)
  then show "map (map_of d) hs ! i = map Some sigs ! i" using i assms(1,3) by simp
qed (use assms(3) in simp)

lemma lookup_sigs:
  assumes "map (map_of (sig_list T)) hs = map Some sigs"
  shows "\<exists>xs. rmap (dict_get T) hs = Inr xs \<and> map tsig xs = sigs"
  using assms
proof (induction hs arbitrary: sigs)
  case Nil
  then show ?case by simp
next
  case (Cons h hs)
  then obtain s ss where s: "sigs = s # ss" "map_of (sig_list T) h = Some s" "map (map_of (sig_list T)) hs = map Some ss"
    by (cases sigs) auto
  obtain xs where xs: "rmap (dict_get T) hs = Inr xs" "map tsig xs = ss" using Cons.IH [OF s(3)] by blast
  have "map_of (sig_list T) h = map_option tsig (map_of T h)" by (simp add: sig_list_def map_of_map)
  then obtain x where "map_of T h = Some x" "tsig x = s" using s(2) by (cases "map_of T h") auto
  then have "dict_get T h = Inr x" "tsig x = s" by (simp_all add: dict_get_def)
  then show ?case using xs s(1) by auto
qed

text \<open>C7. A live session's cache is always there: whenever the runtime serves a session that holds
  its allocation, reading the pipe succeeds and the session's handles name tensors with the shapes
  it asked for, whatever the interleaving of handlers, refusals, releases and in-place writes
  (as long as the 64-bit handle counter has not wrapped).\<close>

theorem session_tensors_available:
  assumes "msteps z (init_sys limit ts) S" "(\<Sum>t<length ts. length (descrs (ts ! t))) < 2 ^ 63"
    and "t < length ts" "phases S ! t = Holding hs"
  shows "\<exists>xs s'. use_cache z hs (mem S) = (Inr xs, s') \<and> pipe s' = []
    \<and> map shape xs = map d_size (descrs (ts ! t)) \<and> list_all tensor_ok xs"
proof -
  have ok: "handles_ok z S" by (rule handles_ok_reachable [OF assms(1,2)])
  from accounts_ok_reachable [OF assms(1)] have n: "length (phases S) = length ts" "tasks S = ts"
    by (auto simp: accounts_ok_def)
  obtain r T where d: "drain z (pipe (mem S)) (allocated (mem S)) = (Inr (), r, T)"
    using ok unfolding handles_ok_def by (metis prod.collapse)
  have T: "distinct (map fst (sig_list T))" "set (sig_list T) = live_entries S" "length hs = length (descrs (ts ! t))"
    using ok d assms(3,4) n by (auto simp: handles_ok_def)
  have "set (zip hs (map descr_sig (descrs (ts ! t)))) \<subseteq> set (sig_list T)"
    unfolding T(2) live_entries_def using assms(3,4) n by (force simp: task_entries_def)
  from lookup_sigs [OF zip_lookup [OF T(1) this]] T(3)
  obtain xs where xs: "rmap (dict_get T) hs = Inr xs" "map tsig xs = map descr_sig (descrs (ts ! t))" by auto
  have "map fst (map tsig xs) = map fst (map descr_sig (descrs (ts ! t)))" using xs(2) by simp
  then have sh: "map shape xs = map d_size (descrs (ts ! t))" by (simp add: tsig_def descr_sig_def comp_def)
  have "tensor_ok x" if "x \<in> set xs" for x
  proof -
    have "tsig x \<in> set (map tsig xs)" using that by simp
    then obtain d where "tsig x = descr_sig d" unfolding xs(2) by auto
    then show ?thesis by (simp add: tsig_def descr_sig_def descr_numel_def tensor_ok_def)
  qed
  then show ?thesis using d xs(1) sh drain_ok_empties [OF d] by (auto simp: use_cache_def list_all_iff)
qed

text \<open>Nothing outlives its session: right after the runtime has read the pipe, the tensors it
  keeps are exactly those of the sessions that hold an allocation at that moment.\<close>

theorem runtime_keeps_only_live:
  assumes "msteps z (init_sys limit ts) S" "(\<Sum>t<length ts. length (descrs (ts ! t))) < 2 ^ 63"
    and "use_cache z hs (mem S) = (r, s')"
  shows "fst ` set (allocated s') = (\<Union>t<length ts. case phases S ! t of Holding ks \<Rightarrow> set ks | _ \<Rightarrow> {})"
proof -
  have ok: "handles_ok z S" by (rule handles_ok_reachable [OF assms(1,2)])
  from accounts_ok_reachable [OF assms(1)] have n: "length (phases S) = length ts" by (auto simp: accounts_ok_def)
  obtain m T where d: "drain z (pipe (mem S)) (allocated (mem S)) = (Inr (), m, T)"
    using ok unfolding handles_ok_def by (metis prod.collapse)
  have "fst ` set T = fst ` set (sig_list T)" by (metis fst_sig_list set_map)
  then have "fst ` set (allocated s') = fst ` set (sig_list T)"
    using assms(3) d by (simp add: use_cache_def) (metis cache.select_convs(6) cache.surjective cache.update_convs(5,6))
  also have "\<dots> = fst ` live_entries S" using ok d by (simp add: handles_ok_def)
  also have "\<dots> = (\<Union>t<length ts. fst ` task_entries S t)" by (simp add: live_entries_def image_UN n)
  also have "\<dots> = (\<Union>t<length ts. case phases S ! t of Holding ks \<Rightarrow> set ks | _ \<Rightarrow> {})"
  proof (rule SUP_cong)
    fix t assume "t \<in> {..<length ts}"
    then have "length ks = length (map descr_sig (descrs (tasks S ! t)))" if "phases S ! t = Holding ks" for ks
      using ok that n by (auto simp: handles_ok_def)
    then show "fst ` task_entries S t = (case phases S ! t of Holding ks \<Rightarrow> set ks | _ \<Rightarrow> {})"
      by (auto simp: task_entries_def simp flip: set_map split: phase.split)
  qed simp
  finally show ?thesis .
qed

text \<open>The shared counters are exact: at every moment the current size is the sum of what the
  sessions inside their context hold, and the enqueued size the sum of what the others wait for.\<close>

theorem cache_accounting_exact:
  assumes "msteps z (init_sys limit ts) S"
  shows "current_size (mem S) = (\<Sum>t<length ts. if is_holding (phases S ! t) then int (bytes (ts ! t)) else 0)
    \<and> enqueued_size (mem S) = (\<Sum>t<length ts. if is_waiting (phases S ! t) then int (bytes (ts ! t)) else 0)"
  using accounts_ok_reachable [OF assms] by (auto simp: accounts_ok_def tasks_total_def)

text \<open>C8. With a single handler process the cache never exceeds its limit: the reservation follows
  the check before any other task of the process can check.\<close>

theorem single_process_within_limit:
  assumes "msteps z (init_sys limit ts) S" "\<forall>t < length ts. proc (ts ! t) = proc (ts ! 0)"
  shows "current_size (mem S) \<le> int (max_size (mem S)) \<and> 0 \<le> bytes_left (mem S)"
proof -
  have "within_limit S"
    using assms(1)
  proof (induction rule: rtranclp_induct)
    case base
    show ?case by (simp add: within_limit_def init_cache_def tasks_total_def)
  next
    case (step S S')
    from accounts_ok_reachable [OF step(1)] show ?case
      using within_limit_step [OF step(2) _ _ step(3)] assms(2) by (auto simp: one_process_def)
  qed
  then show ?thesis using tasks_total_nonneg [of is_admitted bytes S] by (simp add: within_limit_def bytes_left_def)
qed

section \<open>Schedules\<close>

text \<open>An explicit schedule of steps, to run the transition system.\<close>

datatype action = Request nat | Acquire nat | Admit nat | Reserve nat | Finish nat | Serve "int list"

definition run_action :: "'a \<Rightarrow> action \<Rightarrow> 'a sys \<Rightarrow> 'a sys option" where
  "run_action z a S =
     (let at_phase = (\<lambda>t p. t < length (phases S) \<and> phases S ! t = p) in
      case a of
        Request t \<Rightarrow> if at_phase t Idle then Some (goto t Queued (S\<lparr>mem := enqueue (size_of S t) (mem S)\<rparr>)) else None
      | Acquire t \<Rightarrow> if at_phase t Queued \<and> mem_lock S = None then Some (goto t Locked (S\<lparr>mem_lock := Some t\<rparr>)) else None
      | Admit t \<Rightarrow> if at_phase t Locked \<and> fits (size_of S t) (mem S) \<and> \<not> others_admitted S t
          then Some (goto t Admitted (S\<lparr>mem_lock := None, mem := dequeue (size_of S t) (mem S)\<rparr>)) else None
      | Reserve t \<Rightarrow> if at_phase t Admitted
          then (case grant (size_of S t) (descrs (tasks S ! t)) (mem S) of
                  (hs, m') \<Rightarrow> Some (goto t (Holding hs) (S\<lparr>mem := m'\<rparr>))) else None
      | Finish t \<Rightarrow> if t < length (phases S)
          then (case phases S ! t of
                  Holding hs \<Rightarrow> Some (goto t Finished (S\<lparr>mem := release (size_of S t) hs (mem S)\<rparr>)) | _ \<Rightarrow> None) else None
      | Serve hs \<Rightarrow> Some (S\<lparr>mem := snd (use_cache z hs (mem S))\<rparr>))"

fun run :: "'a \<Rightarrow> action list \<Rightarrow> 'a sys \<Rightarrow> 'a sys option" where
  "run z [] S = Some S"
| "run z (a # acts) S = Option.bind (run_action z a S) (run z acts)"

lemma run_action_sound:
  assumes "run_action z a S = Some S'"
  shows "mstep z S S'"
proof (cases a)
  case (Serve hs)
  obtain r m' where "use_cache z hs (mem S) = (r, m')" by fastforce
  then show ?thesis using assms Serve mstep.runtime [of z hs S r m'] by (simp add: run_action_def)
qed (use assms in \<open>auto simp: run_action_def Let_def split: if_splits prod.splits phase.splits
       intro: mstep.request mstep.acquire mstep.admit mstep.reserve mstep.finish\<close>)

lemma run_sound: "run z acts S = Some S' \<Longrightarrow> msteps z S S'"
  by (induction z acts S rule: run.induct)
     (auto simp: bind_eq_Some_conv intro: converse_rtranclp_into_rtranclp run_action_sound)

definition two_tasks :: "nat \<Rightarrow> task list" where
  "two_tasks second =
     (let d = \<lparr>d_size = [1, 1, 2, 4], d_dtype = DInt 8, d_device = Some 0\<rparr> in
      [\<lparr>proc = 0, bytes = 8, descrs = [d]\<rparr>, \<lparr>proc = second, bytes = 8, descrs = [d]\<rparr>])"

lemma two_tasks_simps [simp]:
  "length (two_tasks k) = Suc (Suc 0)"
  "proc (two_tasks 0 ! 0) = 0" "proc (two_tasks 0 ! Suc 0) = 0"
  "length (descrs (two_tasks k ! 0)) = 1" "length (descrs (two_tasks k ! Suc 0)) = 1"
  by (simp_all add: two_tasks_def Let_def)

definition after :: "nat option \<Rightarrow> task list \<Rightarrow> action list \<Rightarrow> int sys" where
  "after limit ts acts = (case run 0 acts (init_sys limit ts) of None \<Rightarrow> init_sys limit ts | Some S \<Rightarrow> S)"

lemma after_reachable: "msteps 0 (init_sys limit ts) (after limit ts acts)"
  by (auto simp: after_def dest: run_sound split: option.split)

text \<open>C39. With two handler processes the limit does not hold: the lock that guards the check is
  released before the size is added, so two sessions of 8 bytes each are both admitted to a cache
  of 10 bytes, which then reports a negative number of bytes left.\<close>

theorem two_processes_overcommit:
  "\<exists>S. msteps (0::int) (init_sys (Some 10) (two_tasks 1)) S
     \<and> current_size (mem S) = 16 \<and> max_size (mem S) = 10 \<and> bytes_left (mem S) = -6"
proof (intro exI conjI)
  let ?S = "after (Some 10) (two_tasks 1)
    [Request 0, Request 1, Acquire 0, Admit 0, Acquire 1, Admit 1, Reserve 0, Reserve 1]"
  show "msteps 0 (init_sys (Some 10) (two_tasks 1)) ?S" by (rule after_reachable)
  show "current_size (mem ?S) = 16" "max_size (mem ?S) = 10" "bytes_left (mem ?S) = -6" by code_simp+
qed

definition served :: "int sys" where
  "served = after (Some 20) (two_tasks 0)
     [Request 0, Acquire 0, Admit 0, Reserve 0, Request 1, Acquire 1, Serve [0], Admit 1, Reserve 1, Finish 0]"

lemma served_facts:
  "msteps 0 (init_sys (Some 20) (two_tasks 0)) served"
  "(\<Sum>t<length (two_tasks 0). length (descrs (two_tasks 0 ! t))) < 2 ^ 63"
  "phases served = [Finished, Holding [1]]" "length (two_tasks 0) = 2"
proof -
  show "msteps 0 (init_sys (Some 20) (two_tasks 0)) served" unfolding served_def by (rule after_reachable)
  show "phases served = [Finished, Holding [1]]" by code_simp
  show "(\<Sum>t<length (two_tasks 0). length (descrs (two_tasks 0 ! t))) < 2 ^ 63" "length (two_tasks 0) = 2"
    by simp_all
qed

theorem session_tensors_available_witness:
  "\<exists>xs s'. use_cache 0 [1] (mem served) = (Inr xs, s') \<and> pipe s' = []
    \<and> map shape xs = map d_size (descrs (two_tasks 0 ! 1)) \<and> list_all tensor_ok xs"
  by (rule session_tensors_available [OF served_facts(1,2)]) (simp_all add: served_facts)

theorem runtime_keeps_only_live_witness:
  "fst ` set (allocated (snd (use_cache 0 [1] (mem served))))
    = (\<Union>t<length (two_tasks 0). case phases served ! t of Holding ks \<Rightarrow> set ks | _ \<Rightarrow> {})"
  by (rule runtime_keeps_only_live [OF served_facts(1,2), of "[1]" "fst (use_cache 0 [1] (mem served))"]) simp

theorem cache_accounting_exact_witness:
  "current_size (mem served) = (\<Sum>t<length (two_tasks 0). if is_holding (phases served ! t) then int (bytes (two_tasks 0 ! t)) else 0)
    \<and> enqueued_size (mem served) = (\<Sum>t<length (two_tasks 0). if is_waiting (phases served ! t) then int (bytes (two_tasks 0 ! t)) else 0)"
  by (rule cache_accounting_exact [OF served_facts(1)])

theorem single_process_within_limit_witness:
  "current_size (mem served) \<le> int (max_size (mem served)) \<and> 0 \<le> bytes_left (mem served)"
proof (rule single_process_within_limit [OF served_facts(1)])
  show "\<forall>t < length (two_tasks 0). proc (two_tasks 0 ! t) = proc (two_tasks 0 ! 0)"
    by (auto simp: less_Suc_eq)
qed

end
