(* ===== verification/Routing.thy ===== *)
theory Routing
  imports Swarm_Dht
begin

text \<open>
  Models \<open>src/drift/client/routing/sequence_info.py\<close> and the routing of
  \<open>src/drift/client/routing/sequence_manager.py\<close>: the client's table of spans, how it is refreshed
  and pruned, and how a chain of servers that covers the wanted blocks is chosen. Parameters are
  the random choice of \<open>numpy\<close>, the shortest path of \<open>dijkstar\<close> and the measured round-trip times.
\<close>

section \<open>Table of spans\<close>

record sequence_info =
  block_uids :: "module_uid list"
  block_infos :: "remote_module_info list"
  spans_by_priority :: "remote_span list"
  spans_containing_block :: "remote_span list list"
  last_updated_time :: "rat option"

definition make_empty :: "module_uid list \<Rightarrow> sequence_info" where
  "make_empty uids =
     \<lparr>block_uids = uids, block_infos = map (\<lambda>u. \<lparr>rm_uid = u, rm_servers = []\<rparr>) uids,
      spans_by_priority = [], spans_containing_block = map (\<lambda>_. []) uids, last_updated_time = None\<rparr>"

text \<open>\<open>xs[i].append(x)\<close> on a list of lists.\<close>

definition append_at :: "'a \<Rightarrow> int \<Rightarrow> 'a list list \<Rightarrow> 'a list list res" where
  "append_at x i xs =
     (let j = (if i < 0 then int (length xs) + i else i) in
      if 0 \<le> j \<and> j < int (length xs) then Inr (xs[nat j := xs ! nat j @ [x]]) else Inl IndexError)"

definition add_span :: "remote_span \<Rightarrow> remote_span list list \<Rightarrow> remote_span list list res" where
  "add_span sp table = rfold (append_at sp) (py_range (rs_start sp) (rs_end sp)) table"

definition sort_spans :: "remote_module_info list \<Rightarrow> (remote_span list \<times> remote_span list list) res" where
  "sort_spans infos =
     rbind (compute_spans infos ONLINE) (\<lambda>d.
       let by_priority = sort_key (\<lambda>sp. - span_length sp) (map snd d) in
       rbind (rfold add_span by_priority (map (\<lambda>_. []) infos)) (\<lambda>table. Inr (by_priority, table)))"

text \<open>A sub-sequence \<open>info[a:b]\<close> (both bounds non-negative).\<close>

definition sequence_slice :: "nat \<Rightarrow> nat \<Rightarrow> sequence_info \<Rightarrow> sequence_info res" where
  "sequence_slice a b info =
     (let infos = take (b - a) (drop a (block_infos info)) in
      rbind (sort_spans infos) (\<lambda>(by_priority, table).
        Inr \<lparr>block_uids = take (b - a) (drop a (block_uids info)), block_infos = infos,
             spans_by_priority = by_priority, spans_containing_block = table,
             last_updated_time = last_updated_time info\<rparr>))"

definition update_info :: "rat \<Rightarrow> remote_module_info list \<Rightarrow> sequence_info \<Rightarrow> sequence_info res" where
  "update_info now new_infos info =
     (if length new_infos \<noteq> length (block_uids info) then Inl AssertionError
      else if \<not> list_all2 (\<lambda>u m. u = rm_uid m) (block_uids info) new_infos then Inl AssertionError
      else
        let infos = map2 (\<lambda>old new. old\<lparr>rm_servers := rm_servers new\<rparr>) (block_infos info) new_infos in
        rbind (sort_spans infos) (\<lambda>(by_priority, table).
          Inr (info\<lparr>block_infos := infos, spans_by_priority := by_priority,
                    spans_containing_block := table, last_updated_time := Some now\<rparr>)))"

section \<open>Refreshing and pruning\<close>

definition allowed :: "peer_id set option \<Rightarrow> peer_id set option \<Rightarrow> peer_id \<Rightarrow> bool" where
  "allowed allowed_servers blocked_servers p \<longleftrightarrow>
     (case allowed_servers of None \<Rightarrow> True | Some a \<Rightarrow> p \<in> a)
     \<and> (case blocked_servers of None \<Rightarrow> True | Some b \<Rightarrow> p \<notin> b)"

text \<open>The filters of \<open>_update\<close>: banned peers are dropped unless that would leave nobody.\<close>

definition filter_servers ::
  "peer_id set option \<Rightarrow> peer_id set option \<Rightarrow> peer_id set \<Rightarrow> remote_module_info \<Rightarrow> remote_module_info" where
  "filter_servers allowed_servers blocked_servers banned m =
     (let servers = filter (\<lambda>(p, si). allowed allowed_servers blocked_servers p) (rm_servers m);
          valid_servers = filter (\<lambda>(p, si). p \<notin> banned) servers in
      m\<lparr>rm_servers := if valid_servers \<noteq> [] then valid_servers else servers\<rparr>)"

text \<open>The servers \<open>_update\<close> pings, given a sampler: the first assignment is overwritten.\<close>

definition pinged_servers :: "(nat \<Rightarrow> peer_id list \<Rightarrow> peer_id list) \<Rightarrow> nat \<Rightarrow> remote_span list list \<Rightarrow> peer_id set" where
  "pinged_servers sample_up_to max_pinged table =
     (let first_servers = map rs_peer_id (table ! 0);
          middle_servers = concat (map (map rs_peer_id) (butlast (tl table)));
          last_servers = map rs_peer_id (last table);
          pinged = set (sample_up_to max_pinged first_servers);
          pinged = set (sample_up_to max_pinged middle_servers) in
      pinged \<union> set (sample_up_to max_pinged last_servers))"

definition update_manager ::
  "peer_id set option \<Rightarrow> peer_id set option \<Rightarrow> peer_id set \<Rightarrow> rat \<Rightarrow> remote_module_info list \<Rightarrow> sequence_info
   \<Rightarrow> sequence_info res" where
  "update_manager allowed_servers blocked_servers banned now fetched info =
     update_info now (map (filter_servers allowed_servers blocked_servers banned) fetched) info"

text \<open>\<open>on_request_failure\<close>: the new table, and whether an update is triggered.\<close>

definition on_request_failure :: "peer_id \<Rightarrow> sequence_info \<Rightarrow> sequence_info \<times> bool" where
  "on_request_failure p info =
     (let infos = map (\<lambda>m. m\<lparr>rm_servers := AList.delete p (rm_servers m)\<rparr>) (block_infos info) in
      (info\<lparr>block_infos := infos\<rparr>, list_ex (\<lambda>m. rm_servers m = []) infos))"

definition get_retry_delay :: "rat \<Rightarrow> rat \<Rightarrow> nat \<Rightarrow> rat" where
  "get_retry_delay min_backoff max_backoff attempt_no =
     (if attempt_no = 0 then 0 else min (min_backoff * 2 ^ (attempt_no - 1)) max_backoff)"

section \<open>Routes\<close>

definition missing_blocks :: "sequence_info \<Rightarrow> nat \<Rightarrow> nat \<Rightarrow> nat list" where
  "missing_blocks info a b = filter (\<lambda>i. spans_containing_block info ! i = []) [a..<b]"

definition rtt_to_delay :: "ping option \<Rightarrow> rat" where
  "rtt_to_delay rtt = (case rtt of None \<Rightarrow> 15 / 100 | Some PingInf \<Rightarrow> 5 | Some (Ping r) \<Rightarrow> min (r / 2) 5)"

definition has_cache_for :: "remote_span \<Rightarrow> int option \<Rightarrow> bool" where
  "has_cache_for sp needed =
     (case (needed, si_cache_tokens_left (rs_server_info sp)) of
        (Some n, Some left) \<Rightarrow> n * 2 * span_length sp \<le> left
      | _ \<Rightarrow> True)"

datatype node = Start | End | At peer_id int

type_synonym edge = "(node \<times> node) \<times> rat"

text \<open>Python indexing of the table by a block number.\<close>

definition containing :: "sequence_info \<Rightarrow> int \<Rightarrow> remote_span list res" where
  "containing info i = py_get (spans_containing_block info) i"

definition alloc_penalty :: "remote_span \<Rightarrow> int option \<Rightarrow> rat" where
  "alloc_penalty sp needed = (if has_cache_for sp needed then 0 else 10)"

definition entry_edges :: "(peer_id, ping) dict \<Rightarrow> int option \<Rightarrow> int \<Rightarrow> remote_span list \<Rightarrow> edge list" where
  "entry_edges rtts needed a spans =
     map (\<lambda>sp. ((Start, At (rs_peer_id sp) a),
            rtt_to_delay (map_of rtts (rs_peer_id sp)) + 18 / 1000 + alloc_penalty sp needed)) spans"

definition exit_edges :: "(peer_id, ping) dict \<Rightarrow> int \<Rightarrow> remote_span list \<Rightarrow> edge list" where
  "exit_edges rtts b spans = map (\<lambda>sp. ((At (rs_peer_id sp) b, End), rtt_to_delay (map_of rtts (rs_peer_id sp)))) spans"

definition hop_edges :: "int option \<Rightarrow> int \<Rightarrow> remote_span list \<Rightarrow> remote_span list \<Rightarrow> edge list" where
  "hop_edges needed i cur next_spans =
     concat (map (\<lambda>c. map (\<lambda>n. ((At (rs_peer_id c) i, At (rs_peer_id n) i),
         rtt_to_delay (case si_next_pings (rs_server_info c) of None \<Rightarrow> None | Some d \<Rightarrow> map_of d (rs_peer_id n))
           + 18 / 1000 + alloc_penalty n needed)) next_spans)
       (filter (\<lambda>c. rs_end c = i) cur))"

definition compute_edge :: "remote_span \<Rightarrow> int \<Rightarrow> edge res" where
  "compute_edge sp i =
     (let rps = (case si_inference_rps (rs_server_info sp) of None \<Rightarrow> 300 | Some r \<Rightarrow> r) in
      if rps = 0 then Inl ZeroDivisionError
      else Inr ((At (rs_peer_id sp) i, At (rs_peer_id sp) (i + 1)), 1 / rps))"

definition compute_edges :: "int \<Rightarrow> int \<Rightarrow> remote_span list \<Rightarrow> edge list res" where
  "compute_edges a b spans =
     rmap (\<lambda>(sp, i). compute_edge sp i)
       (concat (map (\<lambda>sp. map (Pair sp) (py_range (max (rs_start sp) a) (min (rs_end sp) b))) spans))"

definition build_inference_graph ::
  "(peer_id, ping) dict \<Rightarrow> sequence_info \<Rightarrow> nat \<Rightarrow> nat \<Rightarrow> int option \<Rightarrow> edge list res" where
  "build_inference_graph rtts info a b needed =
     (let missing = missing_blocks info a b; table = spans_containing_block info in
      if length table < b then Inl IndexError
      else if missing \<noteq> [] then Inl (MissingBlocksError (map int missing))
      else
        rbind (compute_edges (int a) (int b) (spans_by_priority info)) (\<lambda>ces.
          Inr (entry_edges rtts needed (int a) (table ! a) @ exit_edges rtts (int b) (table ! (b - 1))
               @ concat (map (\<lambda>i. hop_edges needed (int i) (table ! (i - 1)) (table ! i)) [a + 1..<b]) @ ces)))"

text \<open>The servers of a range of blocks; a later entry for a peer replaces an earlier one.\<close>

definition server_infos :: "sequence_info \<Rightarrow> nat \<Rightarrow> nat \<Rightarrow> (peer_id, server_info) dict" where
  "server_infos info a b =
     fold (\<lambda>sp. AList.update (rs_peer_id sp) (rs_server_info sp))
       (concat (map ((!) (spans_containing_block info)) [a..<b])) []"

definition node_pair :: "node \<Rightarrow> (peer_id \<times> int) res" where
  "node_pair n = (case n of At p i \<Rightarrow> Inr (p, i) | _ \<Rightarrow> Inl ValueError)"

definition add_node :: "(peer_id, server_info) dict \<Rightarrow> peer_id \<times> int \<Rightarrow> remote_span list \<Rightarrow> remote_span list res" where
  "add_node infos n acc =
     (if acc = [] \<or> rs_peer_id (last acc) \<noteq> fst n
      then rbind (dict_get infos (fst n)) (\<lambda>si.
             Inr (acc @ [\<lparr>rs_peer_id = fst n, rs_start = snd n, rs_end = snd n, rs_server_info = si\<rparr>]))
      else Inr (butlast acc @ [(last acc)\<lparr>rs_end := snd n\<rparr>]))"

definition make_sequence_with_min_latency ::
  "(edge list \<Rightarrow> node list option) \<Rightarrow> (peer_id, ping) dict \<Rightarrow> sequence_info \<Rightarrow> nat \<Rightarrow> nat \<Rightarrow> int option
   \<Rightarrow> remote_span list res" where
  "make_sequence_with_min_latency find_path rtts info a b needed =
     (if a = b then Inr []
      else
        rbind (build_inference_graph rtts info a b needed) (\<lambda>graph.
        case find_path graph of
          None \<Rightarrow> Inl GenericException
        | Some nodes \<Rightarrow>
            rbind (rmap node_pair (butlast (tl nodes))) (\<lambda>ns.
            rbind (rfold (add_node (server_infos info a b)) ns []) (\<lambda>route.
            Inr (filter (\<lambda>sp. 0 < span_length sp) route)))))"

text \<open>
  The weighted random choice: \<open>pick\<close> gets the step, the candidates and their weights and returns
  an index. A server known to be unreachable keeps the weight \<open>10\<^sup>-\<^sup>6\<close>.
\<close>

definition span_weight :: "(peer_id, ping) dict \<Rightarrow> remote_span \<Rightarrow> rat" where
  "span_weight rtts sp = (if map_of rtts (rs_peer_id sp) = Some PingInf then 1 / 1000000 else rat_of_int (span_length sp))"

function max_throughput_loop ::
  "(int \<Rightarrow> remote_span list \<Rightarrow> rat list \<Rightarrow> nat) \<Rightarrow> (peer_id, ping) dict \<Rightarrow> sequence_info \<Rightarrow> int \<Rightarrow> int
   \<Rightarrow> remote_span list res" where
  "max_throughput_loop pick rtts info current_index end_index =
     (if current_index < end_index then
        rbind (containing info current_index) (\<lambda>candidates.
        if candidates = [] then Inl (MissingBlocksError [current_index])
        else
          rbind (py_get candidates (int (pick current_index candidates (map (span_weight rtts) candidates)))) (\<lambda>chosen.
          if rs_start chosen \<le> current_index \<and> current_index < rs_end chosen
          then rbind (max_throughput_loop pick rtts info (rs_end chosen) end_index) (\<lambda>rest.
                 Inr (chosen\<lparr>rs_start := current_index\<rparr> # rest))
          else Inl AssertionError))
      else Inr [])"
  by pat_completeness auto
termination
  by (relation "measure (\<lambda>(pick, rtts, info, i, e). nat (e - i))") auto

declare max_throughput_loop.simps [simp del]

datatype routing_mode = Min_Latency | Max_Throughput | Other_Mode

definition make_sequence ::
  "(edge list \<Rightarrow> node list option) \<Rightarrow> (int \<Rightarrow> remote_span list \<Rightarrow> rat list \<Rightarrow> nat) \<Rightarrow> (peer_id, ping) dict \<Rightarrow> sequence_info
   \<Rightarrow> nat \<Rightarrow> nat option \<Rightarrow> routing_mode \<Rightarrow> int option \<Rightarrow> remote_span list res" where
  "make_sequence find_path pick rtts info a b mode needed =
     (let b = (case b of None \<Rightarrow> length (block_uids info) | Some b \<Rightarrow> b) in
      case mode of
        Min_Latency \<Rightarrow> make_sequence_with_min_latency find_path rtts info a b needed
      | Max_Throughput \<Rightarrow> max_throughput_loop pick rtts info (int a) (int b)
      | Other_Mode \<Rightarrow> Inl RuntimeError)"

end
