(* ===== verification/KV_Store.thy ===== *)
theory KV_Store
  imports KV_Cache Paged_Pool_Reorder
begin

text \<open>
  The contract between the inference code and the key/value caches, as a locale: a store of one
  session reads a prefix of tokens and writes back the block's full output past that prefix. What
  the contract buys is proved once: running a sequence in any split into steps leaves the same
  outputs and the same cache as running it at once. The contiguous cache and the paged pool both
  provide the contract; beam-search reordering has the same shape of contract.
\<close>

section \<open>Steps over a store\<close>

definition kv_step ::
  "('i \<Rightarrow> 's \<Rightarrow> 'v res) \<Rightarrow> ('v \<Rightarrow> 'i \<Rightarrow> 's \<Rightarrow> unit res \<times> 's) \<Rightarrow> ('i \<Rightarrow> 'v \<Rightarrow> 'h list \<Rightarrow> ('h list \<times> 'v) res)
   \<Rightarrow> 'i \<Rightarrow> 'h list \<Rightarrow> 's \<Rightarrow> 'h list res \<times> 's" where
  "kv_step rd wr fwd prefix_length hidden s =
     (case rd prefix_length s of
        Inl e \<Rightarrow> (Inl e, s)
      | Inr layer_past \<Rightarrow>
          (case fwd prefix_length layer_past hidden of
             Inl e \<Rightarrow> (Inl e, s)
           | Inr (out, new_kvs) \<Rightarrow>
               (case wr new_kvs prefix_length s of
                  (Inl e, s') \<Rightarrow> (Inl e, s')
                | (Inr _, s') \<Rightarrow> (Inr out, s'))))"

fun kv_run ::
  "(nat \<Rightarrow> 's \<Rightarrow> 'v res) \<Rightarrow> ('v \<Rightarrow> nat \<Rightarrow> 's \<Rightarrow> unit res \<times> 's) \<Rightarrow> (nat \<Rightarrow> 'v \<Rightarrow> 'h list \<Rightarrow> ('h list \<times> 'v) res)
   \<Rightarrow> nat \<Rightarrow> 'h list list \<Rightarrow> 's \<Rightarrow> 'h list list res \<times> 's" where
  "kv_run rd wr fwd p [] s = (Inr [], s)"
| "kv_run rd wr fwd p (hs # hss) s =
     (case kv_step rd wr fwd p hs s of
        (Inl e, s') \<Rightarrow> (Inl e, s')
      | (Inr out, s') \<Rightarrow>
          (case kv_run rd wr fwd (p + length hs) hss s' of
             (Inl e, s'') \<Rightarrow> (Inl e, s'')
           | (Inr outs, s'') \<Rightarrow> (Inr (out # outs), s'')))"

section \<open>The contract\<close>

locale kv_store =
  fixes good :: "'s \<Rightarrow> bool"
    and fits :: "'s \<Rightarrow> nat \<Rightarrow> 'v \<Rightarrow> bool"
    and room :: "nat \<Rightarrow> bool"
    and rd :: "nat \<Rightarrow> 's \<Rightarrow> 'v res"
    and wr :: "'v \<Rightarrow> nat \<Rightarrow> 's \<Rightarrow> unit res \<times> 's"
    and trunc :: "nat \<Rightarrow> 'v \<Rightarrow> 'v"
  assumes write_read: "good s \<Longrightarrow> fits s n v \<Longrightarrow> p \<le> n \<Longrightarrow> room n \<Longrightarrow> rd p s = Inr (trunc p v) \<Longrightarrow>
      wr v p s = (Inr u, s') \<Longrightarrow> good s' \<and> rd n s' = Inr v \<and> (\<forall>m w. fits s' m w = fits s m w)"

text \<open>
  A causal decoder layer over keys and values of form \<open>F n v\<close> (\<open>n\<close> tokens): it computes
  (when it succeeds) \<open>blk\<close>, which keeps the past and appends its own tokens, and two calls in a
  row are one call.
\<close>

definition causal_block ::
  "(nat \<Rightarrow> 'v \<Rightarrow> bool) \<Rightarrow> (nat \<Rightarrow> 'v \<Rightarrow> 'v) \<Rightarrow> (nat \<Rightarrow> 'v \<Rightarrow> 'h list \<Rightarrow> ('h list \<times> 'v) res)
   \<Rightarrow> ('v \<Rightarrow> 'h list \<Rightarrow> 'h list \<times> 'v) \<Rightarrow> bool" where
  "causal_block F trunc fwd blk \<longleftrightarrow>
     (\<forall>n v hs. F n v \<longrightarrow> hs \<noteq> [] \<longrightarrow> (\<forall>r. fwd n v hs = Inr r \<longrightarrow> r = blk v hs))
     \<and> (\<forall>n v hs. F n v \<longrightarrow> F (n + length hs) (snd (blk v hs)) \<and> trunc n (snd (blk v hs)) = v
           \<and> length (fst (blk v hs)) = length hs)
     \<and> (\<forall>n v. F n v \<longrightarrow> blk v [] = ([], v))
     \<and> (\<forall>n v xs ys. F n v \<longrightarrow> blk v (xs @ ys)
           = (fst (blk v xs) @ fst (blk (snd (blk v xs)) ys), snd (blk (snd (blk v xs)) ys)))"

lemma causal_blockD:
  assumes "causal_block F trunc fwd blk" "F n v"
  shows "hs \<noteq> [] \<Longrightarrow> fwd n v hs = Inr r \<Longrightarrow> r = blk v hs"
    "F (n + length hs) (snd (blk v hs))" "trunc n (snd (blk v hs)) = v" "length (fst (blk v hs)) = length hs"
    "blk v [] = ([], v)"
    "blk v (xs @ ys) = (fst (blk v xs) @ fst (blk (snd (blk v xs)) ys), snd (blk (snd (blk v xs)) ys))"
  using assms unfolding causal_block_def by blast+

context kv_store begin

lemma step_result:
  assumes "causal_block (fits s) trunc fwd blk" "hs \<noteq> []"
    and "good s" "fits s p v" "rd p s = Inr v" "room (p + length hs)"
    and "kv_step rd wr fwd p hs s = (Inr out, s')"
  shows "out = fst (blk v hs) \<and> good s' \<and> rd (p + length hs) s' = Inr (snd (blk v hs))
    \<and> fits s' = fits s"
proof -
  note causal = causal_blockD [OF assms(1,4)]
  from assms(5,7) obtain o' v' u where f: "fwd p v hs = Inr (o', v')" and w: "wr v' p s = (Inr u, s')" "out = o'"
    by (auto simp: kv_step_def split: prod.splits sum.splits)
  have b: "blk v hs = (o', v')" using causal(1) [OF assms(2) f] by simp
  from causal(2,3) [of hs] b have v': "fits s (p + length hs) v'" "trunc p v' = v" by simp_all
  have "rd p s = Inr (trunc p v')" using assms(5) v'(2) by simp
  from write_read [OF assms(3) v'(1) _ assms(6) this w(1)] show ?thesis using b w(2) by auto
qed

lemma run_result:
  assumes "causal_block (fits s) trunc fwd blk" "[] \<notin> set hss"
    and "good s" "fits s p v" "rd p s = Inr v" "\<forall>n \<le> p + length (concat hss). room n"
    and "kv_run rd wr fwd p hss s = (Inr outs, s')"
  shows "concat outs = fst (blk v (concat hss)) \<and> good s'
    \<and> rd (p + length (concat hss)) s' = Inr (snd (blk v (concat hss)))"
  using assms
proof (induction hss arbitrary: p v s outs)
  case Nil
  then show ?case using causal_blockD(5) [OF Nil(1) Nil(4)] by simp
next
  case (Cons hs hss)
  note causal = causal_blockD [OF Cons.prems(1,4)]
  from Cons.prems(7) obtain o1 s1 outs' where
    step: "kv_step rd wr fwd p hs s = (Inr o1, s1)"
    and rest: "kv_run rd wr fwd (p + length hs) hss s1 = (Inr outs', s')" "outs = o1 # outs'"
    by (auto split: prod.splits sum.splits)
  have hs: "hs \<noteq> []" "[] \<notin> set hss" "room (p + length hs)" using Cons.prems(2,6) by auto
  have s1: "o1 = fst (blk v hs)" "good s1" "rd (p + length hs) s1 = Inr (snd (blk v hs))" "fits s1 = fits s"
    using step_result [OF Cons.prems(1) hs(1) Cons.prems(3-5) hs(3) step] by simp_all
  have f1: "fits s1 (p + length hs) (snd (blk v hs))" using causal(2) [of hs] s1(4) by simp
  have r: "\<forall>n \<le> p + length hs + length (concat hss). room n" using Cons.prems(6) by (simp add: add.assoc)
  have c1: "causal_block (fits s1) trunc fwd blk" using Cons.prems(1) s1(4) by simp
  from Cons.IH [OF c1 hs(2) s1(2) f1 s1(3) r rest(1)] show ?case
    using s1(1) rest(2) causal(6) [of hs "concat hss"] by (simp add: add.assoc)
qed

end

section \<open>The contiguous cache provides the contract\<close>

lemma select_all:
  assumes "tensor_ok t" "k < length (shape t)" "axis_len k t = n"
  shows "select_axis k 0 (int n) t = t"
proof (rule tensor_eqI)
  have si: "slice_index n (int n) = n" "slice_index n 0 = 0" by (simp_all add: slice_index_def)
  show "shape (select_axis k 0 (int n) t) = shape t"
    using assms si by (simp add: axis_len_def) (metis list_update_id)
  show "elems (select_axis k 0 (int n) t) = elems t"
    using elems_tabulate3 [OF assms(1,2)] assms(3) si by (simp add: select_axis_def Let_def)
qed

lemma kvs_take_all: "kvs_ok n ts v \<Longrightarrow> kvs_take (int n) v = v"
  by (induction n ts v rule: kvs_ok.induct) (auto intro!: select_all simp: axis_len_def)

lemma update_keys_shapes:
  "update_keys n p ts ns = (r, ts') \<Longrightarrow> map shape ts' = map shape ts"
  by (induction n p ts ns arbitrary: r ts' rule: update_keys.induct)
     (auto simp: update_key_def write_tensor_def assign_axis_def Let_def res_simps
       split: sum.splits list.splits prod.splits if_splits)

lemma update_values_shapes:
  "update_values n p ts ns = (r, ts') \<Longrightarrow> map shape ts' = map shape ts"
  by (induction n p ts ns arbitrary: r ts' rule: update_values.induct)
     (auto simp: update_value_def write_tensor_def assign_axis_def Let_def res_simps
       split: sum.splits prod.splits if_splits)

lemma update_cache_shapes:
  "update_cache ts ns p = (r, ts') \<Longrightarrow> map shape ts' = map shape ts"
  by (auto simp: update_cache_def Let_def dest!: update_keys_shapes update_values_shapes
      split: prod.splits sum.splits if_splits)

lemma kvs_ok_shapes: "map shape ts = map shape ts' \<Longrightarrow> kvs_ok n ts v = kvs_ok n ts' v"
proof (induction n ts v arbitrary: ts' rule: kvs_ok.induct)
  case (2 n k v ts nk nv ns)
  then obtain k' v' us where us: "ts' = k' # v' # us" "shape k' = shape k" "shape v' = shape v" "map shape ts = map shape us"
    by auto
  then show ?case using 2(1) [OF us(4)] by simp
qed (auto simp: map_eq_Cons_conv)

interpretation contiguous: kv_store
  "\<lambda>ts. shards_ok b L ts \<and> ts \<noteq> []" "\<lambda>ts n v. kvs_ok n ts v" "\<lambda>n. n \<le> L"
  "\<lambda>p ts. Inr (select_layer_past (int p) ts)" "\<lambda>v p ts. update_cache ts v (int p)" "\<lambda>p. kvs_take (int p)"
  for b L
proof unfold_locales
  fix s :: "'a tensor list" and n v p u s'
  assume good: "shards_ok b L s \<and> s \<noteq> []" and v: "kvs_ok n s v" and p: "p \<le> n" "n \<le> L"
    and past: "(Inr (select_layer_past (int p) s) :: 'a tensor list res) = Inr (kvs_take (int p) v)"
    and w: "update_cache s v (int p) = (Inr u, s')"
  from update_cache_exact [OF _ v _ p] good past w
  have s': "shards_ok b L s'" "select_layer_past (int n) s' = v" by auto
  have sh: "map shape s' = map shape s" by (rule update_cache_shapes [OF w])
  then have "s' \<noteq> []" using good by auto
  moreover have "kvs_ok m s' x = kvs_ok m s x" for m x by (rule kvs_ok_shapes [OF sh])
  ultimately show "(shards_ok b L s' \<and> s' \<noteq> []) \<and> (Inr (select_layer_past (int n) s') :: 'a tensor list res) = Inr v
    \<and> (\<forall>m w. kvs_ok m s' w = kvs_ok m s w)"
    using s' by simp
qed

section \<open>The paged pool provides the contract\<close>

definition slot_fits :: "int \<Rightarrow> 'c pool \<Rightarrow> nat \<Rightarrow> 'c list list \<Rightarrow> bool" where
  "slot_fits slot p n rows \<longleftrightarrow>
     (case map_of (block_tables p) slot of None \<Rightarrow> False
      | Some table \<Rightarrow> table \<noteq> [] \<and> length rows = length table \<and> list_all (\<lambda>r. length r = n) rows)"

definition write_slot :: "int \<Rightarrow> 'c list list \<Rightarrow> nat \<Rightarrow> 'c pool \<Rightarrow> unit res \<times> 'c pool" where
  "write_slot slot rows prefix_length p =
     (if rows = [] then (Inl ValueError, p) else scatter slot (length (hd rows)) rows prefix_length p)"

lemma grow_rows_length: "grow_rows n rows free = (ok, rows', free') \<Longrightarrow> length rows' = length rows"
  using grow_rows_props [of n rows free ok rows' free'] by (auto dest: list_all2_lengthD)

lemma scatter_slots:
  assumes "scatter slot n rows k p = (r, p')" "map_of (block_tables p) slot = Some t"
  shows "\<exists>t'. map_of (block_tables p') slot = Some t' \<and> length t' = length t"
  using assms
  by (auto simp: scatter_def dict_get_def Let_def dest: grow_rows_length split: if_splits prod.splits)

interpretation paged: kv_store
  "\<lambda>p. pool_ok p" "slot_fits slot" "\<lambda>_. True" "\<lambda>n p. gather slot n p" "write_slot slot" "\<lambda>n. map (take n)"
  for slot
proof unfold_locales
  fix s :: "'c pool" and n v p u s'
  assume good: "pool_ok s" and v: "slot_fits slot s n v" and p: "p \<le> n"
    and past: "gather slot p s = Inr (map (take p) v)" and w: "write_slot slot v p s = (Inr u, s')"
  from v obtain t where t: "map_of (block_tables s) slot = Some t" "t \<noteq> []" "length v = length t" "\<forall>r \<in> set v. length r = n"
    by (auto simp: slot_fits_def list_all_iff split: option.splits)
  have "v \<noteq> []" "length (hd v) = n" using t by (cases v; auto)+
  then have sc: "scatter slot n v p s = (Inr (), s')" using w by (simp add: write_slot_def)
  have "gather slot n s' = Inr v"
  proof (cases "p < n")
    case True
    then show ?thesis by (rule gather_scatter [OF good sc t(1,2,3,4) _ past])
  next
    case False
    then have "p = n" using p by simp
    moreover from this have "s' = s" using sc t(1) by (simp add: scatter_def dict_get_def)
    moreover have "map (take n) v = v" using t(4) by (intro map_idI) simp
    ultimately show ?thesis using past by simp
  qed
  moreover have "slot_fits slot s' m x = slot_fits slot s m x" for m x
  proof -
    obtain t' where "map_of (block_tables s') slot = Some t'" "length t' = length t"
      using scatter_slots [OF sc t(1)] by blast
    then show ?thesis using t by (auto simp: slot_fits_def)
  qed
  ultimately show "pool_ok s' \<and> gather slot n s' = Inr v \<and> (\<forall>m w. slot_fits slot s' m w = slot_fits slot s m w)"
    using pool_ok_scatter [OF good sc] by blast
qed

end
