(* ===== verification/Paged_Admission.thy ===== *)
theory Paged_Admission
  imports Memory_Cache
begin

text \<open>
  Models the paged mode of \<open>MemoryCache\<close> (\<open>src/drift/server/memory_cache.py\<close>): the pool geometry,
  admission of sessions by the shared page counter, registration and release of slots over the
  pipe, and the runtime's access to the pool. A step of a session is the write-back of new keys
  and values; prefix reads do not change the pool.
\<close>

section \<open>Geometry\<close>

record pool_config =
  pc_num_pages :: nat
  pc_page_size :: nat
  pc_num_kv_heads :: nat
  pc_k_head_dim :: nat
  pc_v_head_dim :: nat
  pc_dtype :: dtype
  pc_device :: "nat option"

text \<open>The first caller sets the configuration and the page budget, the others must agree.\<close>

definition configure_paged_pool :: "pool_config \<Rightarrow> pool_config option \<times> nat \<Rightarrow> (pool_config option \<times> nat) res" where
  "configure_paged_pool config st =
     (case fst st of
        None \<Rightarrow> Inr (Some config, pc_num_pages config)
      | Some old \<Rightarrow> if old = config then Inr st else Inl AssertionError)"

section \<open>State and operations\<close>

record 'c paged =
  budget :: nat
  used_pages :: int
  messages :: "message list"
  next_slot :: int
  kv_pool :: "'c pool option"
  live_sessions :: "int list list"

definition has_room :: "nat \<Rightarrow> 'c paged \<Rightarrow> bool" where
  "has_room num_slots s \<longleftrightarrow> int num_slots \<le> int (budget s) - used_pages s"

text \<open>
  One look of \<open>_wait_for_free_pages\<close>: go on, fail, or (\<open>None\<close>) keep waiting; \<open>remaining\<close> is the
  time left until the deadline, if there is one.
\<close>

definition wait_for_free_pages :: "nat \<Rightarrow> rat option \<Rightarrow> rat option \<Rightarrow> 'c paged \<Rightarrow> unit res option" where
  "wait_for_free_pages num_slots timeout remaining s =
     (if has_room num_slots s then Some (Inr ())
      else if timeout = Some 0 then Some (Inl AllocationFailed)
      else case remaining of Some r \<Rightarrow> if r \<le> 0 then Some (Inl AllocationFailed) else None | None \<Rightarrow> None)"

definition effective_timeout :: "rat option \<Rightarrow> rat option \<Rightarrow> rat option" where
  "effective_timeout max_alloc_timeout timeout =
     (case max_alloc_timeout of None \<Rightarrow> timeout
      | Some m \<Rightarrow> Some (case timeout of None \<Rightarrow> m | Some t \<Rightarrow> min t m))"

definition register_slots :: "nat \<Rightarrow> nat \<Rightarrow> 'c paged \<Rightarrow> int list \<times> 'c paged" where
  "register_slots num_slots batch_size s =
     (let slot_ids = map (\<lambda>i. next_slot s + int i) [0..<num_slots] in
      (slot_ids, s\<lparr>next_slot := next_slot s + int num_slots,
                   messages := messages s @ [Paged_Register slot_ids batch_size]\<rparr>))"

definition release_slots :: "int list \<Rightarrow> 'c paged \<Rightarrow> 'c paged" where
  "release_slots slot_ids s = s\<lparr>messages := messages s @ [Paged_Free slot_ids]\<rparr>"

definition register_all :: "int list \<Rightarrow> nat \<Rightarrow> 'c pool \<Rightarrow> 'c pool" where
  "register_all slot_ids batch_size p = fold (\<lambda>s. register_slot s batch_size) slot_ids p"

text \<open>The messages \<open>use_paged_pool\<close> reads; the two-part messages of the contiguous cache do not unpack.\<close>

fun drain_paged :: "message list \<Rightarrow> 'c pool \<Rightarrow> unit res \<times> message list \<times> 'c pool" where
  "drain_paged [] p = (Inr (), [], p)"
| "drain_paged (Paged_Register slot_ids batch_size # ms) p = drain_paged ms (register_all slot_ids batch_size p)"
| "drain_paged (Paged_Free slot_ids # ms) p = drain_paged ms (fold free_slot slot_ids p)"
| "drain_paged (Create _ _ # ms) p = (Inl ValueError, ms, p)"
| "drain_paged (Delete _ # ms) p = (Inl ValueError, ms, p)"

definition ensure_paged_pool :: "'c \<Rightarrow> nat \<Rightarrow> 'c paged \<Rightarrow> 'c pool" where
  "ensure_paged_pool zero ps s = (case kv_pool s of Some p \<Rightarrow> p | None \<Rightarrow> init_pool zero (budget s) ps)"

definition use_paged_pool ::
  "'c \<Rightarrow> nat \<Rightarrow> ('c pool \<Rightarrow> 'r res \<times> 'c pool) \<Rightarrow> 'c paged \<Rightarrow> 'r res \<times> 'c paged" where
  "use_paged_pool zero ps body s =
     (case drain_paged (messages s) (ensure_paged_pool zero ps s) of
        (Inl e, ms, p) \<Rightarrow> (Inl e, s\<lparr>messages := ms, kv_pool := Some p\<rparr>)
      | (Inr _, ms, p) \<Rightarrow>
          (case body p of (r, p') \<Rightarrow>
             (r, s\<lparr>messages := ms, kv_pool := Some p', used_pages := int (num_used_pages p')\<rparr>)))"

section \<open>Sessions\<close>

definition init_paged :: "nat \<Rightarrow> 'c paged" where
  "init_paged n = \<lparr>budget = n, used_pages = 0, messages = [], next_slot = 0, kv_pool = None, live_sessions = []\<rparr>"

inductive pstep :: "'c \<Rightarrow> nat \<Rightarrow> 'c paged \<Rightarrow> 'c paged \<Rightarrow> bool" for zero :: 'c and ps :: nat where
  open_session: "0 < num_slots \<Longrightarrow> has_room num_slots s \<Longrightarrow> register_slots num_slots batch_size s = (slot_ids, s') \<Longrightarrow>
    pstep zero ps s (s'\<lparr>live_sessions := slot_ids # live_sessions s\<rparr>)"
| close_session: "slot_ids \<in> set (live_sessions s) \<Longrightarrow>
    pstep zero ps s (release_slots slot_ids (s\<lparr>live_sessions := remove1 slot_ids (live_sessions s)\<rparr>))"
| serve: "slot_ids \<in> set (live_sessions s) \<Longrightarrow> slot \<in> set slot_ids \<Longrightarrow> list_all (\<lambda>row. length row = n) news \<Longrightarrow>
    use_paged_pool zero ps (scatter slot n news k) s = (r, s') \<Longrightarrow> pstep zero ps s s'"

abbreviation psteps :: "'c \<Rightarrow> nat \<Rightarrow> 'c paged \<Rightarrow> 'c paged \<Rightarrow> bool" where
  "psteps zero ps \<equiv> (pstep zero ps)\<^sup>*\<^sup>*"

section \<open>The page counter\<close>

lemma num_pages_ops [simp]:
  "num_pages (register_slot sl b p) = num_pages p" "num_pages (free_slot sl p) = num_pages p"
  "num_pages (snd (scatter sl n news k p)) = num_pages p"
  by (auto simp: register_slot_def free_slot_def scatter_def Let_def split: option.splits sum.splits prod.splits)

lemma pool_fold:
  "pool_ok p \<Longrightarrow> pool_ok (fold free_slot slots p) \<and> num_pages (fold free_slot slots p) = num_pages p"
  "pool_ok p \<Longrightarrow> pool_ok (register_all slots b p) \<and> num_pages (register_all slots b p) = num_pages p"
  unfolding register_all_def by (induction slots arbitrary: p) (simp_all add: pool_ok_free pool_ok_register)

fun is_paged :: "message \<Rightarrow> bool" where
  "is_paged (Paged_Register _ _) = True"
| "is_paged (Paged_Free _) = True"
| "is_paged _ = False"

lemma drain_paged_ok:
  assumes "pool_ok p" "list_all is_paged ms"
  shows "\<exists>p'. drain_paged ms p = (Inr (), [], p') \<and> pool_ok p' \<and> num_pages p' = num_pages p"
  using assms by (induction ms p rule: drain_paged.induct) (auto simp: pool_fold)

definition paged_ok :: "nat \<Rightarrow> 'c paged \<Rightarrow> bool" where
  "paged_ok n s \<longleftrightarrow> budget s = n \<and> list_all is_paged (messages s)
     \<and> (case kv_pool s of None \<Rightarrow> used_pages s = 0
        | Some p \<Rightarrow> pool_ok p \<and> num_pages p = n \<and> used_pages s = int (num_used_pages p))"

lemma paged_ok_use:
  assumes "paged_ok n s" "0 < ps" "use_paged_pool zero ps (scatter slot m news k) s = (r, s')"
  shows "paged_ok n s' \<and> messages s' = [] \<and> live_sessions s' = live_sessions s"
proof -
  have "pool_ok (ensure_paged_pool zero ps s) \<and> num_pages (ensure_paged_pool zero ps s) = n"
    using assms(1,2) pool_ok_init [of ps zero n]
    by (auto simp: paged_ok_def ensure_paged_pool_def init_pool_def split: option.splits)
  then obtain p where p: "drain_paged (messages s) (ensure_paged_pool zero ps s) = (Inr (), [], p)" "pool_ok p" "num_pages p = n"
    using drain_paged_ok [of "ensure_paged_pool zero ps s" "messages s"] assms(1) by (auto simp: paged_ok_def)
  obtain r' p' where b: "scatter slot m news k p = (r', p')" by fastforce
  have "pool_ok p'" "num_pages p' = n"
    using pool_ok_scatter [OF p(2) b] num_pages_ops(3) [of slot m news k p] p(3) b by auto
  then show ?thesis using assms(1,3) p(1) b by (auto simp: use_paged_pool_def paged_ok_def)
qed

text \<open>The page counter that handlers read is exact for the pool as the runtime last left it: it
  is the number of pages in use, the pool owns every page exactly once, and its size is the
  configured budget.\<close>

theorem paged_counter_exact:
  assumes "psteps zero ps (init_paged n) s" "0 < ps"
  shows "budget s = n \<and> (case kv_pool s of None \<Rightarrow> used_pages s = 0
     | Some p \<Rightarrow> pool_ok p \<and> num_pages p = n \<and> used_pages s = int (num_used_pages p) \<and> used_pages s \<le> int n)"
proof -
  have "paged_ok n s"
    using assms(1)
  proof (induction rule: rtranclp_induct)
    case base
    show ?case by (simp add: paged_ok_def init_paged_def)
  next
    case (step s s')
    from step(2,3) show ?case
    proof (induction rule: pstep.induct)
      case (open_session num_slots s batch_size slot_ids s')
      then show ?case by (auto simp: register_slots_def Let_def paged_ok_def split: option.splits)
    next
      case (close_session slot_ids s)
      then show ?case by (auto simp: release_slots_def paged_ok_def split: option.splits)
    next
      case (serve slot_ids s slot m news k r s')
      then show ?case using paged_ok_use [OF serve(5) assms(2) serve(4)] by simp
    qed
  qed
  then show ?thesis by (auto simp: paged_ok_def num_used_pages_def split: option.splits)
qed

section \<open>Liveness of admission\<close>

text \<open>With no live session and a full counter nothing can happen any more.\<close>

lemma stalled:
  assumes "live_sessions s = []" "int (budget s) \<le> used_pages s"
  shows "\<not> pstep zero ps s s'"
proof
  assume "pstep zero ps s s'"
  then show False using assms by (cases rule: pstep.cases) (auto simp: has_room_def)
qed

definition stall_opened :: "int paged" where
  "stall_opened = (snd (register_slots 1 1 (init_paged 1)))\<lparr>live_sessions := [[0]]\<rparr>"

definition stall_served :: "int paged" where
  "stall_served = snd (use_paged_pool 0 1 (scatter 0 1 [[7]] 0) stall_opened)"

definition stall_closed :: "int paged" where
  "stall_closed = release_slots [0] (stall_served\<lparr>live_sessions := []\<rparr>)"

lemma stall_reachable: "psteps 0 1 (init_paged 1) stall_closed" "psteps 0 1 (init_paged 1) stall_served"
proof -
  have "pstep 0 1 (init_paged 1) stall_opened"
    using pstep.open_session [of 1 "init_paged 1 :: int paged" 1 "[0]" "snd (register_slots 1 1 (init_paged 1))" 0 1]
    by (simp add: stall_opened_def has_room_def init_paged_def register_slots_def Let_def)
  moreover have "pstep 0 1 stall_opened stall_served"
  proof (rule pstep.serve)
    show "[0] \<in> set (live_sessions stall_opened)" "0 \<in> set [0 :: int]" by (simp_all add: stall_opened_def)
    show "list_all (\<lambda>row. length row = 1) [[7 :: int]]" by simp
    show "use_paged_pool 0 1 (scatter 0 1 [[7]] 0) stall_opened
      = (fst (use_paged_pool 0 1 (scatter 0 1 [[7]] 0) stall_opened), stall_served)"
      by (simp add: stall_served_def)
  qed
  moreover have live: "live_sessions stall_served = [[0]]" by code_simp
  have "pstep 0 1 stall_served (release_slots [0] (stall_served\<lparr>live_sessions := remove1 [0] (live_sessions stall_served)\<rparr>))"
    by (rule pstep.close_session) (simp add: live)
  then have "pstep 0 1 stall_served stall_closed" by (simp add: live stall_closed_def)
  ultimately show "psteps 0 1 (init_paged 1) stall_closed" "psteps 0 1 (init_paged 1) stall_served"
    by (meson rtranclp.rtrancl_into_rtrancl rtranclp.rtrancl_refl)+
qed

text \<open>Paged admission can stall for good: handlers wait for the page counter, only a step of an
  admitted session updates it, and closing a session merely queues its release. Once the pool is
  full and its last session has closed, every later request waits or fails, although reading the
  queued messages would make all pages free again.\<close>

theorem paged_admission_stalls:
  "\<exists>s. psteps (0::int) 1 (init_paged 1) s \<and> live_sessions s = []
     \<and> (\<forall>s'. \<not> pstep 0 1 s s')
     \<and> wait_for_free_pages 1 (Some 30) (Some 0) s = Some (Inl AllocationFailed)
     \<and> num_free_pages (snd (snd (drain_paged (messages s) (ensure_paged_pool 0 1 s)))) = 1"
proof (intro exI conjI)
  show "psteps 0 1 (init_paged 1) stall_closed" by (rule stall_reachable)
  show live: "live_sessions stall_closed = []" by code_simp
  have "int (budget stall_closed) \<le> used_pages stall_closed" by code_simp
  then show "\<forall>s'. \<not> pstep 0 1 stall_closed s'" using stalled [OF live] by blast
  show "wait_for_free_pages 1 (Some 30) (Some 0) stall_closed = Some (Inl AllocationFailed)" by code_simp
  show "num_free_pages (snd (snd (drain_paged (messages stall_closed) (ensure_paged_pool 0 1 stall_closed)))) = 1"
    by code_simp
qed

theorem paged_counter_exact_witness:
  "budget stall_served = 1 \<and> (case kv_pool stall_served of None \<Rightarrow> used_pages stall_served = 0
     | Some p \<Rightarrow> pool_ok p \<and> num_pages p = 1 \<and> used_pages stall_served = int (num_used_pages p) \<and> used_pages stall_served \<le> int 1)"
  by (rule paged_counter_exact [OF stall_reachable(2)]) simp

end
