(* ===== verification/Backend.thy ===== *)
theory Backend
  imports KV_Store Paged_Admission
begin

text \<open>
  Models \<open>src/drift/server/backend.py\<close>: one transformer block on a server. Hidden states are the
  list of their token positions (a position holds all batch rows and features); the block itself
  (\<open>module.forward\<close>, a \<open>transformers\<close> layer) is the parameter of the definitions: from the past
  keys and values, the tokens, the per-layer inputs and the shared key/value dictionary it
  computes the outputs, the new keys and values (absent for a block that keeps none) and the
  dictionary it leaves. Device moves and adapters do not change values and are not represented.
\<close>

section \<open>Shared keys and values\<close>

type_synonym 't shared_kv = "(string, 't \<times> 't) dict"

definition extract_produced_shared_kv :: "'t shared_kv option \<Rightarrow> string set \<Rightarrow> 't list" where
  "extract_produced_shared_kv shared seeded =
     (case shared of
        None \<Rightarrow> []
      | Some d \<Rightarrow>
          concat (map (\<lambda>k. case map_of d k of Some (key, value) \<Rightarrow> [key, value] | None \<Rightarrow> [])
            (sort (filter (\<lambda>k. k \<notin> seeded) (map fst d)))))"

section \<open>Chunked forward\<close>

type_synonym ('h, 'v, 'p, 't) module =
  "'v option \<Rightarrow> 'h list \<Rightarrow> 'p list option \<Rightarrow> 't shared_kv option
   \<Rightarrow> ('h list \<times> 'v option \<times> 't shared_kv option) res"

definition estimate_max_chunk_length ::
  "nat list \<Rightarrow> nat \<Rightarrow> nat \<Rightarrow> nat \<Rightarrow> int \<Rightarrow> nat \<Rightarrow> nat res" where
  "estimate_max_chunk_length shard_num_heads dtype_bytes max_chunk_size_bytes batch_size prefix_length seq_length =
     (if shard_num_heads = [] then Inl ValueError
      else
        let attn_bytes_per_token = int (Max (set shard_num_heads) * batch_size * dtype_bytes) * (prefix_length + int seq_length) in
        if attn_bytes_per_token = 0 then Inl ZeroDivisionError
        else Inr (nat (max 1 (int max_chunk_size_bytes div attn_bytes_per_token))))"

text \<open>
  Assigning a chunk of outputs into a slice of the output buffer: the widths must agree, except
  that a single position is repeated. Chunks are assigned from left to right, so the buffer is
  what has been assigned so far.
\<close>

definition fit_chunk :: "nat \<Rightarrow> 'h list \<Rightarrow> 'h list res" where
  "fit_chunk w out =
     (if length out = w then Inr out
      else if length out = 1 then Inr (replicate w (hd out))
      else Inl RuntimeError)"

text \<open>The loop from an offset, with what the loop variables hold; \<open>new_kvs\<close> is unbound at first.\<close>

function chunk_loop ::
  "('h, 'v, 'p, 't) module \<Rightarrow> nat \<Rightarrow> 'h list \<Rightarrow> 'p list option \<Rightarrow> nat \<Rightarrow> 'v option \<Rightarrow> 't shared_kv option
   \<Rightarrow> 'h list \<Rightarrow> 'v option option \<Rightarrow> ('h list \<times> 'v option \<times> 't shared_kv option) res" where
  "chunk_loop fwd mc hidden pli offset layer_past shared out new_kvs =
     (if offset < length hidden \<and> 0 < mc then
        rbind (fwd layer_past (take mc (drop offset hidden)) (map_option (\<lambda>p. take mc (drop offset p)) pli) shared)
          (\<lambda>(chunk, kvs, shared').
            if mc < length hidden then
              rbind (fit_chunk (min mc (length hidden - offset)) chunk) (\<lambda>piece.
                chunk_loop fwd mc hidden pli (offset + mc) kvs shared' (out @ piece) (Some kvs))
            else chunk_loop fwd mc hidden pli (offset + mc) kvs shared' chunk (Some kvs))
      else (case new_kvs of
              None \<Rightarrow> Inl GenericException
            | Some kvs \<Rightarrow> Inr (out, kvs, shared)))"
  by pat_completeness auto
termination
  by (relation "measure (\<lambda>(fwd, mc, hidden, pli, offset, _). length hidden - offset)") auto

declare chunk_loop.simps [simp del]

definition forward_chunked ::
  "('h, 'v, 'p, 't) module \<Rightarrow> 'h list \<Rightarrow> 'v option \<Rightarrow> nat \<Rightarrow> 'p list option \<Rightarrow> 't shared_kv option
   \<Rightarrow> ('h list \<times> 'v option \<times> 't shared_kv option) res" where
  "forward_chunked fwd hidden layer_past max_chunk_length pli shared =
     (if max_chunk_length = 0 then Inl ValueError
      else chunk_loop fwd max_chunk_length hidden pli 0 layer_past shared [] None)"

section \<open>Inference steps\<close>

record backend =
  shard_num_heads :: "nat list"
  dtype_bytes :: nat
  max_chunk_size_bytes :: nat

record ('p, 't) metadata =
  md_uid :: string
  md_prefix_length :: int
  md_cache_handles :: "int list"
  md_per_layer_input :: "'p list option"
  md_shared_kv_states :: "'t shared_kv option"

text \<open>\<open>cache_tensor[...] = cache_tensor[hypo_ids]\<close>, for each cache tensor in turn.\<close>

fun reorder_cache_inplace :: "int list \<Rightarrow> 'a tensor list \<Rightarrow> unit res \<times> 'a tensor list" where
  "reorder_cache_inplace hypo_ids [] = (Inr (), [])"
| "reorder_cache_inplace hypo_ids (t # ts) =
     (if hypo_ids = [] then (Inr (), t # ts)
      else case rbind (index_first hypo_ids t) (\<lambda>s. assign_axis 0 0 (int (axis_len 0 t)) s t) of
             Inl e \<Rightarrow> (Inl e, t # ts)
           | Inr t' \<Rightarrow> let (r, ts') = reorder_cache_inplace hypo_ids ts in (r, t' # ts'))"

definition store_tensors :: "int list \<Rightarrow> 'a tensor list \<Rightarrow> 'a cache \<Rightarrow> 'a cache" where
  "store_tensors handles ts s =
     s\<lparr>allocated := fold (\<lambda>(h, t). AList.update h t) (zip handles ts) (allocated s)\<rparr>"

text \<open>
  The body of \<open>inference_step\<close> on the tensors of a contiguous cache: reorder by beam indices, read
  the prefix, run the block in chunks, write the new keys and values back.
\<close>

definition cached_body ::
  "backend \<Rightarrow> ('h, 'a tensor list, 'p, 't) module \<Rightarrow> nat \<Rightarrow> 'h list \<Rightarrow> int list \<Rightarrow> int \<Rightarrow> 'p list option
   \<Rightarrow> 't shared_kv option \<Rightarrow> 'a tensor list \<Rightarrow> ('h list \<times> 't shared_kv option) res \<times> 'a tensor list" where
  "cached_body b fwd batch_size hidden hypo_ids prefix_length pli shared ts =
     (case reorder_cache_inplace hypo_ids ts of
        (Inl e, ts1) \<Rightarrow> (Inl e, ts1)
      | (Inr _, ts1) \<Rightarrow>
          (case rbind (estimate_max_chunk_length (shard_num_heads b) (dtype_bytes b) (max_chunk_size_bytes b)
                         batch_size prefix_length (length hidden))
                  (\<lambda>mc. forward_chunked fwd hidden (Some (select_layer_past prefix_length ts1)) mc pli shared) of
             Inl e \<Rightarrow> (Inl e, ts1)
           | Inr (out, None, shared') \<Rightarrow> (Inr (out, shared'), ts1)
           | Inr (out, Some new_kvs, shared') \<Rightarrow>
               (case update_cache ts1 new_kvs prefix_length of
                  (Inl e, ts2) \<Rightarrow> (Inl e, ts2)
                | (Inr _, ts2) \<Rightarrow> (Inr (out, shared'), ts2))))"

definition inference_step ::
  "'a \<Rightarrow> backend \<Rightarrow> ('h, 'a tensor list, 'p, 't) module \<Rightarrow> nat \<Rightarrow> 'h list \<Rightarrow> int list \<Rightarrow> ('p, 't) metadata
   \<Rightarrow> 'a cache \<Rightarrow> ('h list \<times> 't list \<times> 't shared_kv option) res \<times> 'a cache" where
  "inference_step zero b fwd batch_size hidden hypo_ids info s =
     (let shared = md_shared_kv_states info;
          seeded = (case shared of None \<Rightarrow> {} | Some d \<Rightarrow> fst ` set d);
          handles = md_cache_handles info in
      case use_cache zero handles s of
        (Inl e, s1) \<Rightarrow> (Inl e, s1)
      | (Inr ts, s1) \<Rightarrow>
          (case cached_body b fwd batch_size hidden hypo_ids (md_prefix_length info) (md_per_layer_input info) shared ts of
             (Inl e, ts') \<Rightarrow> (Inl e, store_tensors handles ts' s1)
           | (Inr (out, shared'), ts') \<Rightarrow>
               (Inr (out, extract_produced_shared_kv shared' seeded, shared'), store_tensors handles ts' s1)))"

definition write_slot_at :: "int \<Rightarrow> 'c list list \<Rightarrow> int \<Rightarrow> 'c pool \<Rightarrow> unit res \<times> 'c pool" where
  "write_slot_at slot rows prefix_length p =
     (if rows = [] then (Inl ValueError, p) else scatter_at slot (length (hd rows)) rows prefix_length p)"

text \<open>The body of \<open>_paged_inference_step\<close> on the pool, and the step with the runtime's access around it.\<close>

definition paged_body ::
  "backend \<Rightarrow> ('h, 'c list list, 'p, 't) module \<Rightarrow> nat \<Rightarrow> 'h list \<Rightarrow> int list \<Rightarrow> int \<Rightarrow> int \<Rightarrow> 'c pool
   \<Rightarrow> 'h list res \<times> 'c pool" where
  "paged_body b fwd batch_size hidden hypo_ids slot prefix_length p =
     (case (if hypo_ids = [] then (Inr (), p) else reorder slot hypo_ids p) of
        (Inl e, p1) \<Rightarrow> (Inl e, p1)
      | (Inr _, p1) \<Rightarrow>
          (case estimate_max_chunk_length (shard_num_heads b) (dtype_bytes b) (max_chunk_size_bytes b)
                  batch_size prefix_length (length hidden) of
             Inl e \<Rightarrow> (Inl e, p1)
           | Inr mc \<Rightarrow>
               kv_step (gather_at slot) (write_slot_at slot)
                 (\<lambda>_ layer_past hs.
                    rbind (forward_chunked fwd hs (Some layer_past) mc None None) (\<lambda>(out, kvs, _).
                    case kvs of None \<Rightarrow> Inl TypeError | Some new_kvs \<Rightarrow> Inr (out, new_kvs)))
                 prefix_length hidden p1))"

definition paged_inference_step ::
  "'c \<Rightarrow> nat \<Rightarrow> backend \<Rightarrow> ('h, 'c list list, 'p, 't) module \<Rightarrow> nat \<Rightarrow> 'h list \<Rightarrow> int list \<Rightarrow> ('p, 't) metadata
   \<Rightarrow> 'c paged \<Rightarrow> 'h list res \<times> 'c paged" where
  "paged_inference_step zero ps b fwd batch_size hidden hypo_ids info s =
     (case md_cache_handles info of
        [slot] \<Rightarrow> use_paged_pool zero ps (paged_body b fwd batch_size hidden hypo_ids slot (md_prefix_length info)) s
      | _ \<Rightarrow> (Inl ValueError, s))"

section \<open>Merged steps over a span\<close>

text \<open>\<open>hidden_states[:, : prompt.shape[1]] += prompt\<close>.\<close>

definition add_prompt :: "('h \<Rightarrow> 'h \<Rightarrow> 'h) \<Rightarrow> 'h list \<Rightarrow> 'h list \<Rightarrow> 'h list res" where
  "add_prompt addf prompt hidden =
     (let w = min (length prompt) (length hidden) in
      rbind (fit_chunk w prompt) (\<lambda>pr. Inr (map2 addf (take w hidden) pr @ drop w hidden)))"

type_synonym ('h, 'p, 't, 's) block_step =
  "'h list \<Rightarrow> int list \<Rightarrow> ('p, 't) metadata \<Rightarrow> 's \<Rightarrow> ('h list \<times> 't list \<times> 't shared_kv option) res \<times> 's"

text \<open>The blocks of a span share one dictionary by reference: each sees what the previous ones wrote.\<close>

fun merged_loop ::
  "('h \<Rightarrow> 'h \<Rightarrow> 'h) \<Rightarrow> (string \<Rightarrow> ('h, 'p, 't, 's) block_step option) \<Rightarrow> int list \<Rightarrow> 'h list \<Rightarrow> 't shared_kv option
   \<Rightarrow> (('p, 't) metadata \<times> 'h list option) list \<Rightarrow> 's \<Rightarrow> ('h list \<times> 't shared_kv option) res \<times> 's" where
  "merged_loop addf backends hypo_ids hidden shared [] s = (Inr (hidden, shared), s)"
| "merged_loop addf backends hypo_ids hidden shared ((info, prompt) # rest) s =
     (case (case prompt of None \<Rightarrow> Inr hidden | Some pr \<Rightarrow> add_prompt addf pr hidden) of
        Inl e \<Rightarrow> (Inl e, s)
      | Inr h \<Rightarrow>
          (case backends (md_uid info) of
             None \<Rightarrow> (Inl KeyError, s)
           | Some step \<Rightarrow>
               (case step h hypo_ids (info\<lparr>md_shared_kv_states := shared\<rparr>) s of
                  (Inl e, s') \<Rightarrow> (Inl e, s')
                | (Inr (h', _, shared'), s') \<Rightarrow> merged_loop addf backends hypo_ids h' shared' rest s')))"

definition merged_inference_step ::
  "('h \<Rightarrow> 'h \<Rightarrow> 'h) \<Rightarrow> (string \<Rightarrow> ('h, 'p, 't, 's) block_step option) \<Rightarrow> 'h list \<Rightarrow> int list
   \<Rightarrow> ('p, 't) metadata list \<Rightarrow> 'h list option list \<Rightarrow> 's \<Rightarrow> ('h list \<times> 't list) res \<times> 's" where
  "merged_inference_step addf backends hidden hypo_ids infos prompts s =
     (if length infos \<noteq> length prompts then (Inl AssertionError, s)
      else
        let shared = (case infos of [] \<Rightarrow> None | i # _ \<Rightarrow> md_shared_kv_states i);
            seeded = (case shared of None \<Rightarrow> {} | Some d \<Rightarrow> fst ` set d) in
        case merged_loop addf backends hypo_ids hidden shared (zip infos prompts) s of
          (Inl e, s') \<Rightarrow> (Inl e, s')
        | (Inr (h, shared'), s') \<Rightarrow> (Inr (h, extract_produced_shared_kv shared' seeded), s'))"

section \<open>Construction of a backend\<close>

record attention_info =
  ai_num_heads :: nat
  ai_head_dim :: "nat option"
  ai_kv_groups :: "nat option"
  ai_donor_type :: "string option"

text \<open>All shards of a block must agree on a value, absent values apart.\<close>

definition agreed_value :: "nat option list \<Rightarrow> nat option res" where
  "agreed_value xs =
     (let vs = remdups (List.map_filter id xs) in
      if length vs \<le> 1 then Inr (case vs of [] \<Rightarrow> None | v # _ \<Rightarrow> Some v) else Inl AssertionError)"

definition backend_geometry ::
  "model_config \<Rightarrow> nat \<Rightarrow> attention_info list \<Rightarrow> (nat list \<times> string list \<times> nat option \<times> nat option) res" where
  "backend_geometry cfg num_devices shards =
     (let heads = map ai_num_heads shards in
      rbind (rassert (length heads = num_devices) AssertionError) (\<lambda>_.
      rbind (rassert (sum_list heads = num_attention_heads cfg) AssertionError) (\<lambda>_.
      rbind (agreed_value (map ai_head_dim shards)) (\<lambda>hd.
      rbind (agreed_value (map ai_kv_groups shards)) (\<lambda>g.
      Inr (heads, sort (remdups (List.map_filter ai_donor_type shards)), hd, g))))))"

definition paged_pool_config :: "nat \<Rightarrow> nat \<Rightarrow> nat \<Rightarrow> descr list \<Rightarrow> pool_config res" where
  "paged_pool_config num_devices max_bytes ps ds =
     (if num_devices \<noteq> 1 then Inl AssertionError
      else case ds of
        [k, v] \<Rightarrow>
          rbind (descr_bytes k) (\<lambda>kb. rbind (descr_bytes v) (\<lambda>vb.
          rbind (int_div max_bytes ((kb + vb) * ps)) (\<lambda>n.
          Inr \<lparr>pc_num_pages = n, pc_page_size = ps, pc_num_kv_heads = d_size k ! 1, pc_k_head_dim = d_size k ! 2,
               pc_v_head_dim = d_size v ! 3, pc_dtype = d_dtype k, pc_device = d_device k\<rparr>)))
      | _ \<Rightarrow> Inl ValueError)"

end
