(* ===== verification/Task_Pool.thy ===== *)
theory Task_Pool
  imports Drift_Prelude
begin

text \<open>
  Models \<open>src/drift/server/task_pool.py\<close> and \<open>src/drift/server/task_prioritizer.py\<close>: the queue of
  requests of one block between the connection handlers, which submit tasks, the prioritizer
  thread, which moves them into a priority queue, and the runtime, which loads the most urgent one
  and later sends its outputs or its exception. The shared objects are the fields of one record; the
  accesses of \<open>submit_task\<close> and \<open>load_batch_to_runtime\<close> to them are single transitions, interleaved with
  those of all other handlers and threads in any order. A read or write of the pool priority, a pair of
  numbers, is one access. Devices and shared memory are not represented, and the first argument of a
  task is a tensor, as every caller passes it.
\<close>

section \<open>Priorities\<close>

datatype prio = Finite rat | Infinite

instantiation prio :: linorder
begin

fun less_eq_prio :: "prio \<Rightarrow> prio \<Rightarrow> bool" where
  "less_eq_prio _ Infinite = True"
| "less_eq_prio Infinite (Finite _) = False"
| "less_eq_prio (Finite a) (Finite b) = (a \<le> b)"

definition less_prio :: "prio \<Rightarrow> prio \<Rightarrow> bool" where
  "less_prio a b \<longleftrightarrow> a \<le> b \<and> \<not> b \<le> a"

instance
proof
  fix x y z :: prio
  show "x < y \<longleftrightarrow> x \<le> y \<and> \<not> y \<le> x" by (rule less_prio_def)
  show "x \<le> x" by (cases x) auto
  show "x \<le> y \<Longrightarrow> y \<le> z \<Longrightarrow> x \<le> z" by (cases x; cases y; cases z) auto
  show "x \<le> y \<Longrightarrow> y \<le> x \<Longrightarrow> x = y" by (cases x; cases y) auto
  show "x \<le> y \<or> y \<le> x" by (cases x; cases y) auto
qed

end

lemma Finite_less [simp]: "Finite a < Finite b \<longleftrightarrow> a < b" "Finite a < Infinite" "\<not> Infinite < p"
  by (cases p, auto simp: less_prio_def)

section \<open>Tasks and the pool\<close>

record 'a task =
  priority :: rat
  time_submitted :: rat
  task_uid :: nat
  task_shapes :: "nat list list"
  task_args :: 'a

text \<open>The order of \<open>Task\<close>: priority, then submission time.\<close>

definition task_key :: "'a task \<Rightarrow> prio \<times> prio" where
  "task_key t = (Finite (priority t), Finite (time_submitted t))"

datatype 'b outcome = Result 'b | Exception exn

record ('a, 'b) task_pool =
  max_batch_size :: nat
  submitted_tasks :: "'a task option list"
  ordered_tasks :: "'a task list"
  dispatched_tasks :: "(nat, 'a task) dict"
  batch_signals :: nat
  pool_priority :: "prio \<times> prio"
  futures :: "(nat, 'b outcome) dict"
  prioritizer_alive :: bool

definition init_task_pool :: "nat \<Rightarrow> ('a, 'b) task_pool" where
  "init_task_pool max_size =
     \<lparr>max_batch_size = max_size, submitted_tasks = [], ordered_tasks = [], dispatched_tasks = [],
      batch_signals = 0, pool_priority = (Infinite, Infinite), futures = [], prioritizer_alive = True\<rparr>"

text \<open>Task complexity: the number of tokens of the first argument.\<close>

definition get_task_size :: "'a task \<Rightarrow> nat" where
  "get_task_size t =
     (case task_shapes t of
        (b # n # rest) # others \<Rightarrow> b * n
      | _ \<Rightarrow> 1)"

text \<open>The accesses of \<open>submit_task\<close>: the queue, the pipe that counts batches, and the priority.\<close>

definition put_task :: "'a task \<Rightarrow> ('a, 'b) task_pool \<Rightarrow> ('a, 'b) task_pool" where
  "put_task t p = p\<lparr>submitted_tasks := submitted_tasks p @ [Some t]\<rparr>"

definition send_signal :: "('a, 'b) task_pool \<Rightarrow> ('a, 'b) task_pool" where
  "send_signal p = p\<lparr>batch_signals := Suc (batch_signals p)\<rparr>"

definition lowers_priority :: "'a task \<Rightarrow> ('a, 'b) task_pool \<Rightarrow> bool" where
  "lowers_priority t p \<longleftrightarrow> task_key t < pool_priority p"

definition set_priority :: "prio \<times> prio \<Rightarrow> ('a, 'b) task_pool \<Rightarrow> ('a, 'b) task_pool" where
  "set_priority k p = p\<lparr>pool_priority := k\<rparr>"

definition refuse_task :: "'a task \<Rightarrow> ('a, 'b) task_pool \<Rightarrow> ('a, 'b) task_pool" where
  "refuse_task t p = p\<lparr>futures := AList.update (task_uid t) (Exception ValueError) (futures p)\<rparr>"

definition submit_task :: "'a task \<Rightarrow> ('a, 'b) task_pool \<Rightarrow> ('a, 'b) task_pool" where
  "submit_task t p =
     (if max_batch_size p < get_task_size t then refuse_task t p
      else
        let p' = send_signal (put_task t p) in
        if lowers_priority t p' then set_priority (task_key t) p' else p')"

text \<open>One round of \<open>run\<close>: \<open>None\<close> when it waits or has ended.\<close>

definition prioritizer_round :: "('a, 'b) task_pool \<Rightarrow> ('a, 'b) task_pool option" where
  "prioritizer_round p =
     (if \<not> prioritizer_alive p then None
      else case submitted_tasks p of
        [] \<Rightarrow> None
      | None # rest \<Rightarrow> Some (p\<lparr>submitted_tasks := rest, prioritizer_alive := False\<rparr>)
      | Some t # rest \<Rightarrow> Some (p\<lparr>submitted_tasks := rest, ordered_tasks := ordered_tasks p @ [t]\<rparr>))"

definition shutdown_pool :: "('a, 'b) task_pool \<Rightarrow> ('a, 'b) task_pool" where
  "shutdown_pool p = p\<lparr>submitted_tasks := submitted_tasks p @ [None]\<rparr>"

text \<open>
  A priority queue returns a task with the least key; which one of several equals is the choice of
  the heap, here the one that entered first.
\<close>

fun most_urgent :: "'a task list \<Rightarrow> 'a task option" where
  "most_urgent [] = None"
| "most_urgent (t # ts) =
     (case most_urgent ts of None \<Rightarrow> Some t | Some u \<Rightarrow> if task_key t \<le> task_key u then Some t else Some u)"

text \<open>The accesses of \<open>load_batch_to_runtime\<close>; \<open>None\<close> while the queue or the pipe has nothing to give.\<close>

definition take_task :: "('a, 'b) task_pool \<Rightarrow> ('a task \<times> ('a, 'b) task_pool) option" where
  "take_task p =
     map_option (\<lambda>t. (t, p\<lparr>ordered_tasks := remove1 t (ordered_tasks p),
                          dispatched_tasks := AList.update (task_uid t) t (dispatched_tasks p)\<rparr>))
       (most_urgent (ordered_tasks p))"

definition receive_signal :: "('a, 'b) task_pool \<Rightarrow> ('a, 'b) task_pool option" where
  "receive_signal p = (if batch_signals p = 0 then None else Some (p\<lparr>batch_signals := batch_signals p - 1\<rparr>))"

definition refresh_priority :: "('a, 'b) task_pool \<Rightarrow> ('a, 'b) task_pool" where
  "refresh_priority p = (case most_urgent (ordered_tasks p) of None \<Rightarrow> p | Some u \<Rightarrow> set_priority (task_key u) p)"

definition load_batch_to_runtime :: "('a, 'b) task_pool \<Rightarrow> ('a task \<times> ('a, 'b) task_pool) option" where
  "load_batch_to_runtime p =
     Option.bind (take_task p) (\<lambda>(t, p1). map_option (\<lambda>p2. (t, refresh_priority p2)) (receive_signal p1))"

definition send_outcome :: "nat \<Rightarrow> 'b outcome \<Rightarrow> ('a, 'b) task_pool \<Rightarrow> ('a, 'b) task_pool" where
  "send_outcome uid r p =
     (case map_of (dispatched_tasks p) uid of
        None \<Rightarrow> p
      | Some t \<Rightarrow> p\<lparr>dispatched_tasks := AList.delete uid (dispatched_tasks p),
                    futures := AList.update (task_uid t) r (futures p)\<rparr>)"

definition send_outputs_from_runtime :: "nat \<Rightarrow> 'b \<Rightarrow> ('a, 'b) task_pool \<Rightarrow> ('a, 'b) task_pool" where
  "send_outputs_from_runtime uid outputs = send_outcome uid (Result outputs)"

definition send_exception_from_runtime :: "nat \<Rightarrow> exn \<Rightarrow> ('a, 'b) task_pool \<Rightarrow> ('a, 'b) task_pool" where
  "send_exception_from_runtime uid e = send_outcome uid (Exception e)"


text \<open>\<open>DummyTaskPrioritizer\<close>.\<close>

definition prioritize :: "string option \<Rightarrow> rat" where
  "prioritize type_name = (if type_name = Some ''inference'' then 1 else 2)"

section \<open>Any interleaving of the operations\<close>



text \<open>
  Where the calls under way stand: the handlers between their accesses, the runtime inside
  \<open>load_batch_to_runtime\<close>. \<open>ps_submitted\<close> records the uid of every task submitted so far.
\<close>

datatype submit_stage = To_Send | To_Compare | To_Write

datatype load_stage = Idle | Receiving | Refreshing

record ('a, 'b) pool_system =
  ps_pool :: "('a, 'b) task_pool"
  ps_submitting :: "('a task \<times> submit_stage) list"
  ps_loading :: load_stage
  ps_submitted :: "nat list"


definition drop_at :: "nat \<Rightarrow> 'x list \<Rightarrow> 'x list" where
  "drop_at i xs = take i xs @ drop (Suc i) xs"

text \<open>The next access of the \<open>i\<close>-th submission under way.\<close>

definition advance_submission :: "nat \<Rightarrow> ('a, 'b) pool_system \<Rightarrow> ('a, 'b) pool_system" where
  "advance_submission i s =
     (case ps_submitting s ! i of
        (t, To_Send) \<Rightarrow> s\<lparr>ps_pool := send_signal (ps_pool s), ps_submitting := (ps_submitting s)[i := (t, To_Compare)]\<rparr>
      | (t, To_Compare) \<Rightarrow>
          (if lowers_priority t (ps_pool s) then s\<lparr>ps_submitting := (ps_submitting s)[i := (t, To_Write)]\<rparr>
           else s\<lparr>ps_submitting := drop_at i (ps_submitting s)\<rparr>)
      | (t, To_Write) \<Rightarrow>
          s\<lparr>ps_pool := set_priority (task_key t) (ps_pool s), ps_submitting := drop_at i (ps_submitting s)\<rparr>)"

text \<open>Every submission creates a future with a fresh uid.\<close>

inductive pool_step :: "('a, 'b) pool_system \<Rightarrow> ('a, 'b) pool_system \<Rightarrow> bool" where
  refuse: "task_uid t \<notin> set (ps_submitted s) \<Longrightarrow> max_batch_size (ps_pool s) < get_task_size t
     \<Longrightarrow> pool_step s (s\<lparr>ps_pool := refuse_task t (ps_pool s), ps_submitted := ps_submitted s @ [task_uid t]\<rparr>)"
| put: "task_uid t \<notin> set (ps_submitted s) \<Longrightarrow> get_task_size t \<le> max_batch_size (ps_pool s)
     \<Longrightarrow> pool_step s (s\<lparr>ps_pool := put_task t (ps_pool s), ps_submitting := ps_submitting s @ [(t, To_Send)],
                       ps_submitted := ps_submitted s @ [task_uid t]\<rparr>)"
| advance: "i < length (ps_submitting s) \<Longrightarrow> pool_step s (advance_submission i s)"
| order: "prioritizer_round (ps_pool s) = Some p \<Longrightarrow> pool_step s (s\<lparr>ps_pool := p\<rparr>)"
| take: "ps_loading s = Idle \<Longrightarrow> take_task (ps_pool s) = Some (t, p) \<Longrightarrow> pool_step s (s\<lparr>ps_pool := p, ps_loading := Receiving\<rparr>)"
| receive: "ps_loading s = Receiving \<Longrightarrow> receive_signal (ps_pool s) = Some p
     \<Longrightarrow> pool_step s (s\<lparr>ps_pool := p, ps_loading := Refreshing\<rparr>)"
| refresh: "ps_loading s = Refreshing \<Longrightarrow> pool_step s (s\<lparr>ps_pool := refresh_priority (ps_pool s), ps_loading := Idle\<rparr>)"
| outputs: "pool_step s (s\<lparr>ps_pool := send_outputs_from_runtime uid ys (ps_pool s)\<rparr>)"
| exception: "pool_step s (s\<lparr>ps_pool := send_exception_from_runtime uid e (ps_pool s)\<rparr>)"
| close: "pool_step s (s\<lparr>ps_pool := shutdown_pool (ps_pool s)\<rparr>)"


inductive_cases pool_stepE: "pool_step s s'"

section \<open>Every task is in one place\<close>



lemma most_urgent_None_iff [simp]: "most_urgent ts = None \<longleftrightarrow> ts = []"
  by (cases ts) (auto split: option.splits)

lemma most_urgent_least:
  "most_urgent ts = Some t \<Longrightarrow> t \<in> set ts \<and> (\<forall>u \<in> set ts. task_key t \<le> task_key u)"
proof (induction ts arbitrary: t)
  case (Cons x xs)
  show ?case
  proof (cases "most_urgent xs")
    case None
    then show ?thesis using Cons.prems by simp
  next
    case (Some u)
    with Cons have "u \<in> set xs" "\<forall>v \<in> set xs. task_key u \<le> task_key v" by auto
    then show ?thesis using Cons.prems Some by (auto split: if_splits intro: order_trans)
  qed
qed simp

















section \<open>Properties\<close>


definition sample_task :: "nat \<Rightarrow> rat \<Rightarrow> unit task" where
  "sample_task uid prio = \<lparr>priority = prio, time_submitted = of_nat uid, task_uid = uid, task_shapes = [[2, 3, 4]], task_args = ()\<rparr>"




lemma refresh_priority_eq:
  "refresh_priority p = p\<lparr>pool_priority := (case most_urgent (ordered_tasks p) of None \<Rightarrow> pool_priority p | Some u \<Rightarrow> task_key u)\<rparr>"
  by (simp add: refresh_priority_def set_priority_def split: option.splits)

lemma load_batch_Some:
  "load_batch_to_runtime p = Some (t, p') \<longleftrightarrow>
     most_urgent (ordered_tasks p) = Some t \<and> 0 < batch_signals p
     \<and> p' = refresh_priority (p\<lparr>ordered_tasks := remove1 t (ordered_tasks p),
                             dispatched_tasks := AList.update (task_uid t) t (dispatched_tasks p),
                             batch_signals := batch_signals p - 1\<rparr>)"
  by (auto simp: load_batch_to_runtime_def take_task_def receive_signal_def bind_eq_Some_conv)

text \<open>The runtime gets the most urgent task: the loaded task has the least priority value among
  the ordered ones and, among those of equal priority, the earliest submission time; it is moved
  from the queue to the dispatched tasks and nothing else changes place.\<close>

theorem most_urgent_first:
  assumes "load_batch_to_runtime p = Some (t, p')"
  shows "t \<in> set (ordered_tasks p) \<and> list_all (\<lambda>u. task_key t \<le> task_key u) (ordered_tasks p)
    \<and> ordered_tasks p' = remove1 t (ordered_tasks p) \<and> map_of (dispatched_tasks p') (task_uid t) = Some t"
  using assms most_urgent_least
  by (auto simp: load_batch_Some refresh_priority_eq list_all_iff)

definition two_tasks :: "(unit, unit) task_pool" where
  "two_tasks = (init_task_pool 8)\<lparr>ordered_tasks := [sample_task 1 2, sample_task 2 1], batch_signals := 2\<rparr>"

lemma two_tasks_load: "map_option fst (load_batch_to_runtime two_tasks) = Some (sample_task 2 1)"
  by (simp add: load_batch_to_runtime_def take_task_def receive_signal_def two_tasks_def init_task_pool_def sample_task_def task_key_def Let_def less_eq_prod_def)

theorem most_urgent_first_witness:
  "sample_task 2 1 \<in> set (ordered_tasks two_tasks)
    \<and> list_all (\<lambda>u. task_key (sample_task 2 1) \<le> task_key u) (ordered_tasks two_tasks)"
proof -
  obtain p' where "load_batch_to_runtime two_tasks = Some (sample_task 2 1, p')"
    using two_tasks_load by (auto simp: map_option_case split: option.splits)
  from most_urgent_first [OF this] show ?thesis by simp
qed

text \<open>The priority of a pool goes stale: it is not reset when the last ordered task is loaded, so a
  less urgent task submitted afterwards does not change it, and the pool advertises the key of a
  task that is no longer in it.\<close>

theorem empty_pool_keeps_priority:
  assumes "load_batch_to_runtime p = Some (t, p')" "ordered_tasks p = [t]" "pool_priority p = task_key t"
    and "task_key t \<le> task_key u" "get_task_size u \<le> max_batch_size p"
  shows "pool_priority p' = task_key t \<and> pool_priority (submit_task u p') = task_key t
    \<and> Some u \<in> set (submitted_tasks (submit_task u p'))"
proof -
  from assms(1,2) have "pool_priority p' = pool_priority p" "max_batch_size p' = max_batch_size p"
    by (auto simp: load_batch_Some refresh_priority_eq)
  then show ?thesis using assms(3-5) by (auto simp: submit_task_def send_signal_def put_task_def lowers_priority_def Let_def)
qed

definition one_task :: "(unit, unit) task_pool" where
  "one_task = (init_task_pool 8)\<lparr>ordered_tasks := [sample_task 1 1], batch_signals := 1, pool_priority := task_key (sample_task 1 1)\<rparr>"

definition one_loaded :: "(unit, unit) task_pool" where
  "one_loaded = one_task\<lparr>ordered_tasks := [], batch_signals := 0, dispatched_tasks := [(1, sample_task 1 1)]\<rparr>"

theorem empty_pool_keeps_priority_witness:
  "pool_priority one_loaded = task_key (sample_task 1 1)
    \<and> pool_priority (submit_task (sample_task 2 2) one_loaded) = task_key (sample_task 1 1)
    \<and> Some (sample_task 2 2) \<in> set (submitted_tasks (submit_task (sample_task 2 2) one_loaded))"
  by (rule empty_pool_keeps_priority [of one_task])
    (simp_all add: load_batch_Some refresh_priority_eq one_task_def one_loaded_def init_task_pool_def sample_task_def task_key_def
      Let_def less_eq_prod_def get_task_size_def)

end
