(* ===== verification/Block_Functions.thy ===== *)
theory Block_Functions
  imports Backend Task_Pool
begin

text \<open>
  Models \<open>src/drift/server/block_functions.py\<close> and \<open>src/drift/utils/shared_kv.py\<close>: the computations a
  server runs for one request over the chain of its blocks. A tensor of hidden states is its batch
  size with the list of its token positions; a tensor of prompts or per-layer inputs is the list of
  its slices, one per block. A pool call runs the block function of the backend, after the size check
  of \<open>submit_task\<close>. Casts between dtypes are not represented; a start position is any integer.
\<close>

section \<open>Shared keys and values on the wire\<close>

definition flatten_shared_kv :: "'t shared_kv \<Rightarrow> string list \<times> 't list" where
  "flatten_shared_kv d =
     (let keys = sort (map fst d) in
      (keys, concat (map (\<lambda>k. case map_of d k of Some (key, value) \<Rightarrow> [key, value] | None \<Rightarrow> []) keys)))"

fun pairs :: "'t list \<Rightarrow> ('t \<times> 't) list" where
  "pairs (k # v # ts) = (k, v) # pairs ts"
| "pairs _ = []"

text \<open>A repeated key keeps its place and takes the later value, as in a dictionary display.\<close>

definition unflatten_shared_kv :: "string list \<Rightarrow> 't list \<Rightarrow> 't shared_kv res" where
  "unflatten_shared_kv keys tensors =
     (if length tensors = 2 * length keys then Inr (dict_of (zip keys (pairs tensors))) else Inl AssertionError)"

section \<open>Prompts\<close>

definition dummy_slices :: "'h list list option \<Rightarrow> bool" where
  "dummy_slices ps = (case ps of None \<Rightarrow> True | Some ls \<Rightarrow> concat ls = [])"

text \<open>The prompt of each block; a dummy prompt is the empty list.\<close>

definition split_prompts :: "nat \<Rightarrow> 'h list list option \<Rightarrow> 'h list list" where
  "split_prompts n ps = (case ps of Some ls \<Rightarrow> if dummy_slices ps then replicate n [] else ls | None \<Rightarrow> replicate n [])"

definition with_prompt :: "('h \<Rightarrow> 'h \<Rightarrow> 'h) \<Rightarrow> 'h list \<Rightarrow> 'h list \<Rightarrow> 'h list res" where
  "with_prompt addf prompt hidden = (if prompt = [] then Inr hidden else add_prompt addf prompt hidden)"

section \<open>Forward and backward\<close>

record 'h block_functions =
  bf_forward :: "'h list \<Rightarrow> 'h list res"
  bf_backward :: "'h list \<Rightarrow> 'h list \<Rightarrow> 'h list res"
  bf_max_batch_size :: nat

text \<open>A pool call on a tensor of \<open>batch\<close> rows: too large a task fails without being run.\<close>

definition pool_call :: "nat \<Rightarrow> nat \<Rightarrow> 'h list \<Rightarrow> 'r res \<Rightarrow> 'r res" where
  "pool_call batch limit hidden r = (if limit < batch * length hidden then Inl ValueError else r)"

definition forward_block :: "nat \<Rightarrow> 'h block_functions \<Rightarrow> 'h list \<Rightarrow> 'h list res" where
  "forward_block batch bf hidden = pool_call batch (bf_max_batch_size bf) hidden (bf_forward bf hidden)"

definition backward_block :: "nat \<Rightarrow> 'h block_functions \<Rightarrow> 'h list \<Rightarrow> 'h list \<Rightarrow> 'h list res" where
  "backward_block batch bf inp grad = pool_call batch (bf_max_batch_size bf) inp (bf_backward bf inp grad)"

definition run_rpc_forward ::
  "('h \<Rightarrow> 'h \<Rightarrow> 'h) \<Rightarrow> nat \<Rightarrow> 'h block_functions list \<Rightarrow> 'h list \<Rightarrow> 'h list list option \<Rightarrow> 'h list res" where
  "run_rpc_forward addf batch backends hidden prompts =
     (if backends = [] then Inl IndexError
      else rfold (\<lambda>(bf, prompt) h. rbind (with_prompt addf prompt h) (forward_block batch bf))
       (zip backends (split_prompts (length backends) prompts)) hidden)"

text \<open>The forward chain of the backward pass: the input of every block, prompts added.\<close>

fun inter_inputs ::
  "('h \<Rightarrow> 'h \<Rightarrow> 'h) \<Rightarrow> nat \<Rightarrow> ('h block_functions \<times> 'h list) list \<Rightarrow> 'h list \<Rightarrow> ('h list list \<times> 'h list) res" where
  "inter_inputs addf batch [] inputs = Inr ([], inputs)"
| "inter_inputs addf batch ((bf, prompt) # rest) inputs =
     rbind (with_prompt addf prompt inputs) (\<lambda>x.
     rbind (forward_block batch bf x) (\<lambda>y.
     rbind (inter_inputs addf batch rest y) (\<lambda>(xs, last_input). Inr (x # xs, last_input))))"

text \<open>The backward chain over the reversed blocks; prompt gradients are collected in that order.\<close>

fun backward_chain ::
  "nat \<Rightarrow> ('h list \<times> 'h list \<times> 'h block_functions) list \<Rightarrow> 'h list \<Rightarrow> 'h list list \<Rightarrow> ('h list \<times> 'h list list) res" where
  "backward_chain batch [] grad grad_prompts_reversed = Inr (grad, grad_prompts_reversed)"
| "backward_chain batch ((inp, prompt, bf) # rest) grad grad_prompts_reversed =
     rbind (backward_block batch bf inp grad) (\<lambda>g.
       backward_chain batch rest g
         (if prompt = [] then grad_prompts_reversed else grad_prompts_reversed @ [take (length prompt) g]))"

definition run_rpc_backward ::
  "('h \<Rightarrow> 'h \<Rightarrow> 'h) \<Rightarrow> nat \<Rightarrow> 'h block_functions list \<Rightarrow> 'h list \<Rightarrow> 'h list \<Rightarrow> 'h list list option
   \<Rightarrow> ('h list \<times> 'h list list) res" where
  "run_rpc_backward addf batch backends inputs grad_outputs prompts =
     (if backends = [] then Inl IndexError
      else
        let ps = split_prompts (length backends) prompts in
        rbind (inter_inputs addf batch (zip (butlast backends) (butlast ps)) inputs) (\<lambda>(xs, last_input).
        if ps = [] then Inl IndexError
        else
          rbind (with_prompt addf (last ps) last_input) (\<lambda>x.
          let inter = xs @ [x] in
          if length inter = length ps \<and> length ps = length backends
          then rbind (backward_chain batch (rev (zip inter (zip ps backends))) grad_outputs []) (\<lambda>(g, gs).
                 Inr (g, rev gs))
          else Inl AssertionError)))"

section \<open>Inference\<close>

definition MAX_SHORT_INFERENCE_TOKENS :: nat where "MAX_SHORT_INFERENCE_TOKENS = 128"

definition MAX_NF4_SHORT_INFERENCE_TOKENS :: nat where "MAX_NF4_SHORT_INFERENCE_TOKENS = 1"

datatype quant_type = QNone | INT8 | NF4

record ('h, 'p, 't) step_request =
  rq_batch :: nat
  rq_hidden :: "'h list"
  rq_prompts :: "'h list list option"
  rq_hypo_ids :: "int list"
  rq_hypo_int64 :: bool
  rq_per_layer :: "'p list list option"
  rq_shared_tensors :: "'t list"
  rq_start :: "int option"
  rq_shared_keys :: "string list"

record ('h, 't) step_response =
  resp_hidden :: "'h list"
  resp_shared_keys :: "string list"
  resp_shared_tensors :: "'t list"
  resp_can_push :: bool

text \<open>What a request is served with: the blocks in order, with their handles and donor layer types.\<close>

record served_block =
  sb_uid :: string
  sb_handles :: "int list"
  sb_donor_types :: "string list"

record ('h, 'p, 't, 's) span_server =
  sv_blocks :: "served_block list"
  sv_steps :: "string \<Rightarrow> ('h, 'p, 't, 's) block_step option"
  sv_max_batch_size :: nat
  sv_quant :: quant_type
  sv_max_length :: nat

definition can_merge_pools :: "quant_type \<Rightarrow> nat \<Rightarrow> nat \<Rightarrow> bool" where
  "can_merge_pools q batch len \<longleftrightarrow>
     batch * len \<le> (if q = NF4 then MAX_NF4_SHORT_INFERENCE_TOKENS else MAX_SHORT_INFERENCE_TOKENS)"

definition step_info :: "int \<Rightarrow> 't shared_kv \<Rightarrow> served_block \<Rightarrow> 'p list option \<Rightarrow> ('p, 't) metadata" where
  "step_info pos shared b pli =
     \<lparr>md_uid = sb_uid b, md_prefix_length = pos, md_cache_handles = sb_handles b,
      md_per_layer_input = pli, md_shared_kv_states = Some shared\<rparr>"

lemma step_info_simps [simp]:
  "md_uid (step_info pos shared b pli) = sb_uid b" "md_prefix_length (step_info pos shared b pli) = pos"
  "md_cache_handles (step_info pos shared b pli) = sb_handles b" "md_per_layer_input (step_info pos shared b pli) = pli"
  "md_shared_kv_states (step_info pos shared b pli) = Some shared"
  "(step_info pos shared b pli)\<lparr>md_shared_kv_states := Some shared'\<rparr> = step_info pos shared' b pli"
  by (simp_all add: step_info_def)

text \<open>The call into the merged pool, which every backend of the server shares.\<close>

definition inference_call ::
  "('h \<Rightarrow> 'h \<Rightarrow> 'h) \<Rightarrow> ('h, 'p, 't, 's) span_server \<Rightarrow> nat \<Rightarrow> 'h list \<Rightarrow> int list
   \<Rightarrow> ('p, 't) metadata list \<Rightarrow> 'h list option list \<Rightarrow> 's \<Rightarrow> ('h list \<times> 't list) res \<times> 's" where
  "inference_call addf sv batch hidden hypo_ids infos prompts s =
     (if sv_max_batch_size sv < batch * length hidden then (Inl ValueError, s)
      else merged_inference_step addf (sv_steps sv) hidden hypo_ids infos prompts s)"

text \<open>
  Blocks one by one: the task arguments are copied into the queue, so every block is called with the
  dictionary received from the client, and what it produces only goes to the response.
\<close>

fun unmerged_loop ::
  "('h \<Rightarrow> 'h \<Rightarrow> 'h) \<Rightarrow> ('h, 'p, 't, 's) span_server \<Rightarrow> nat \<Rightarrow> int list \<Rightarrow> int \<Rightarrow> 't shared_kv
   \<Rightarrow> (served_block \<times> 'h list option \<times> 'p list option) list \<Rightarrow> 'h list \<Rightarrow> 't shared_kv \<Rightarrow> 's
   \<Rightarrow> ('h list \<times> 't shared_kv) res \<times> 's" where
  "unmerged_loop addf sv batch hypo_ids pos shared [] hidden produced s = (Inr (hidden, produced), s)"
| "unmerged_loop addf sv batch hypo_ids pos shared ((b, prompt, pli) # rest) hidden produced s =
     (case inference_call addf sv batch hidden hypo_ids [step_info pos shared b pli] [prompt] s of
        (Inl e, s') \<Rightarrow> (Inl e, s')
      | (Inr (h, ts), s') \<Rightarrow>
          (case unflatten_shared_kv (filter (\<lambda>lt. lt \<notin> fst ` set shared) (sb_donor_types b)) ts of
             Inl e \<Rightarrow> (Inl e, s')
           | Inr d \<Rightarrow> unmerged_loop addf sv batch hypo_ids pos shared rest h
                        (fold (\<lambda>(k, v). AList.update k v) d produced) s'))"

definition merged_call ::
  "('h \<Rightarrow> 'h \<Rightarrow> 'h) \<Rightarrow> ('h, 'p, 't, 's) span_server \<Rightarrow> nat \<Rightarrow> int list \<Rightarrow> int \<Rightarrow> 't shared_kv
   \<Rightarrow> (served_block \<times> 'h list option \<times> 'p list option) list \<Rightarrow> 'h list \<Rightarrow> 's
   \<Rightarrow> ('h list \<times> 't shared_kv) res \<times> 's" where
  "merged_call addf sv batch hypo_ids pos shared blocks hidden s =
     (case inference_call addf sv batch hidden hypo_ids
             (map (\<lambda>(b, _, pli). step_info pos shared b pli) blocks) (map (\<lambda>(_, prompt, _). prompt) blocks) s of
        (Inl e, s') \<Rightarrow> (Inl e, s')
      | (Inr (h, ts), s') \<Rightarrow>
          (case unflatten_shared_kv
                  (sort (filter (\<lambda>lt. lt \<notin> fst ` set shared) (remdups (concat (map (sb_donor_types \<circ> fst) blocks))))) ts of
             Inl e \<Rightarrow> (Inl e, s')
           | Inr d \<Rightarrow> (Inr (h, d), s')))"

text \<open>Per-block prompts of a step (a dummy one is \<open>None\<close>) and per-layer inputs.\<close>

definition step_prompts :: "nat \<Rightarrow> 'h list list option \<Rightarrow> 'h list option list" where
  "step_prompts n ps =
     (case ps of
        Some ls \<Rightarrow> if dummy_slices ps then replicate n None else map (\<lambda>l. if l = [] then None else Some l) ls
      | None \<Rightarrow> replicate n None)"

definition step_per_layer :: "nat \<Rightarrow> 'p list list option \<Rightarrow> 'p list option list" where
  "step_per_layer n ps =
     (case ps of Some ls \<Rightarrow> if dummy_slices ps then replicate n None else map Some ls | None \<Rightarrow> replicate n None)"

definition start_position :: "int \<Rightarrow> int option \<Rightarrow> int res" where
  "start_position pos start =
     (case start of None \<Rightarrow> Inr pos | Some p \<Rightarrow> if p \<le> pos then Inr p else Inl AssertionError)"

text \<open>What a step is computed from, or the exception it raises before any computation.\<close>

definition check_step ::
  "('h, 'p, 't, 's) span_server \<Rightarrow> int \<Rightarrow> ('h, 'p, 't) step_request
   \<Rightarrow> (int \<times> (served_block \<times> 'h list option \<times> 'p list option) list \<times> 't shared_kv) res" where
  "check_step sv pos rq =
     (let n = length (sv_blocks sv);
          prompts = step_prompts n (rq_prompts rq);
          per_layer = step_per_layer n (rq_per_layer rq) in
      rbind (start_position pos (rq_start rq)) (\<lambda>pos'.
      rbind (rassert (rq_hypo_int64 rq) AssertionError) (\<lambda>_.
      rbind (rassert (length prompts = n) ValueError) (\<lambda>_.
      rbind (rassert (length per_layer = n) ValueError) (\<lambda>_.
      rbind (if rq_shared_keys rq = [] then Inr [] else unflatten_shared_kv (rq_shared_keys rq) (rq_shared_tensors rq)) (\<lambda>shared.
      rbind (rassert (pos' + int (length (rq_hidden rq)) \<le> int (sv_max_length sv)) ValueError) (\<lambda>_.
      Inr (pos', zip (sv_blocks sv) (zip prompts per_layer), shared))))))))"

text \<open>One iteration of \<open>iterate_rpc_inference\<close>: the response with the next position, and the state.\<close>

definition rpc_inference_step ::
  "('h \<Rightarrow> 'h \<Rightarrow> 'h) \<Rightarrow> ('h, 'p, 't, 's) span_server \<Rightarrow> int \<Rightarrow> ('h, 'p, 't) step_request \<Rightarrow> 's
   \<Rightarrow> (('h, 't) step_response \<times> int) res \<times> 's" where
  "rpc_inference_step addf sv pos rq s =
     (case check_step sv pos rq of
        Inl e \<Rightarrow> (Inl e, s)
      | Inr (pos', blocks, shared) \<Rightarrow>
          (case (if rq_batch rq * length (rq_hidden rq) = 0 then (Inr (rq_hidden rq, []), s)
                 else if can_merge_pools (sv_quant sv) (rq_batch rq) (length (rq_hidden rq))
                 then merged_call addf sv (rq_batch rq) (rq_hypo_ids rq) pos' shared blocks (rq_hidden rq) s
                 else unmerged_loop addf sv (rq_batch rq) (rq_hypo_ids rq) pos' shared blocks (rq_hidden rq) [] s) of
             (Inl e, s') \<Rightarrow> (Inl e, s')
           | (Inr (h, produced), s') \<Rightarrow>
               (let (keys, tensors) = flatten_shared_kv produced in
                (Inr (\<lparr>resp_hidden = h, resp_shared_keys = keys, resp_shared_tensors = tensors,
                       resp_can_push = dummy_slices (rq_prompts rq) \<and> dummy_slices (rq_per_layer rq)
                         \<and> shared = [] \<and> produced = []\<rparr>, pos' + int (length (rq_hidden rq))), s'))))"

text \<open>The responses of a session up to the first exception, the position reached and the state.\<close>

fun iterate_rpc_inference ::
  "('h \<Rightarrow> 'h \<Rightarrow> 'h) \<Rightarrow> ('h, 'p, 't, 's) span_server \<Rightarrow> int \<Rightarrow> ('h, 'p, 't) step_request list \<Rightarrow> 's
   \<Rightarrow> ('h, 't) step_response list \<times> exn option \<times> int \<times> 's" where
  "iterate_rpc_inference addf sv pos [] s = ([], None, pos, s)"
| "iterate_rpc_inference addf sv pos (rq # rqs) s =
     (case rpc_inference_step addf sv pos rq s of
        (Inl e, s') \<Rightarrow> ([], Some e, pos, s')
      | (Inr (resp, pos'), s') \<Rightarrow>
          (let (resps, e, pos'', s'') = iterate_rpc_inference addf sv pos' rqs s' in (resp # resps, e, pos'', s'')))"

end
