(* ===== verification/Inference_Session.thy ===== *)
theory Inference_Session
  imports Routing Block_Functions
begin

text \<open>
  Models \<open>src/drift/client/inference_session.py\<close>: the client's session over a chain of servers. The
  servers, the routing and the list of banned peers are the record \<open>net\<close> of operations on a world:
  what a request returns, whether a connection opens, which route is found. A tensor of hidden states
  is the list of its token positions; positions are natural numbers. Retries may go on for ever when
  the number of retries is not limited, so the loops are partial functions. The links between
  neighbouring sessions are only read for \<open>next_servers\<close>, which a step never sends (its position is
  never \<open>None\<close>), and are not represented.
\<close>

section \<open>Requests and servers\<close>

record ('h, 'p, 't) span_request =
  sr_hidden :: "'h list"
  sr_prompts :: "'h list list option"
  sr_hypo_ids :: "int list"
  sr_per_layer :: "'p list list option"
  sr_shared :: "'t shared_kv"
  sr_start :: nat
  sr_max_length :: "nat option"

record ('h, 'p, 't, 'w) net =
  net_route :: "nat \<Rightarrow> nat \<Rightarrow> nat \<Rightarrow> 'w \<Rightarrow> remote_span list res \<times> 'w"
  net_open :: "remote_span \<Rightarrow> 'w \<Rightarrow> nat res \<times> 'w"
  net_close :: "nat \<Rightarrow> 'w \<Rightarrow> bool \<times> 'w"
  net_step :: "nat \<Rightarrow> ('h, 'p, 't) span_request \<Rightarrow> 'w \<Rightarrow> ('h list \<times> string list \<times> 't list) res \<times> 'w"
  net_failure :: "peer_id option \<Rightarrow> 'w \<Rightarrow> 'w"
  net_success :: "peer_id \<Rightarrow> 'w \<Rightarrow> 'w"

record 'h server_session =
  ss_span :: remote_span
  ss_id :: nat
  ss_position :: nat
  ss_history :: "'h list option"
  ss_stepped :: bool
  ss_closed :: bool

definition new_session :: "remote_span \<Rightarrow> nat \<Rightarrow> 'h server_session" where
  "new_session sp sid =
     \<lparr>ss_span = sp, ss_id = sid, ss_position = 0, ss_history = None, ss_stepped = False, ss_closed = False\<rparr>"

definition set_session_position :: "nat \<Rightarrow> 'h server_session \<Rightarrow> 'h server_session res" where
  "set_session_position p s =
     (if ss_position s < p then Inl AssertionError
      else Inr (s\<lparr>ss_position := p,
             ss_history := (case ss_history s of
                None \<Rightarrow> None
              | Some h \<Rightarrow> if p \<le> length h then (if 0 < p then Some (take p h) else None) else Some h)\<rparr>))"

text \<open>\<open>_ServerInferenceSession.step\<close>.\<close>

definition extend_history :: "'h list \<Rightarrow> 'h server_session \<Rightarrow> 'h list" where
  "extend_history inputs s =
     (case ss_history s of
        None \<Rightarrow> inputs
      | Some h \<Rightarrow> if length h = ss_position s then h @ inputs else h)"

definition session_step ::
  "('h, 'p, 't, 'w) net \<Rightarrow> nat \<Rightarrow> 'h list \<Rightarrow> 'h list list option \<Rightarrow> int list \<Rightarrow> 'p list list option \<Rightarrow> 't shared_kv
   \<Rightarrow> 'h server_session \<Rightarrow> 'w \<Rightarrow> ('h list \<times> 't shared_kv) res \<times> 'h server_session \<times> 'w" where
  "session_step net max_length inputs prompts hypo_ids per_layer shared s w =
     (if ss_closed s then (Inl GenericException, s, w)
      else
        let n = length inputs;
            history = extend_history inputs s;
            s1 = s\<lparr>ss_history := Some history\<rparr> in
        if length history \<noteq> ss_position s + n then (Inl AssertionError, s1, w)
        else
          let sent = (if ss_stepped s then inputs else history);
              rq = \<lparr>sr_hidden = sent, sr_prompts = prompts, sr_hypo_ids = hypo_ids, sr_per_layer = per_layer,
                    sr_shared = shared, sr_start = ss_position s,
                    sr_max_length = (if ss_stepped s then None else Some max_length)\<rparr>;
              s2 = s1\<lparr>ss_stepped := True\<rparr> in
          case net_step net (ss_id s) rq w of
            (Inl e, w') \<Rightarrow> (Inl e, s2, w')
          | (Inr (outs, keys, tensors), w') \<Rightarrow>
              if length outs \<noteq> length sent then (Inl AssertionError, s2, w')
              else (case unflatten_shared_kv keys (take (2 * length keys) tensors) of
                      Inl e \<Rightarrow> (Inl e, s2, w')
                    | Inr produced \<Rightarrow> (Inr (outs, produced), s2\<lparr>ss_position := ss_position s + n\<rparr>, w')))"

section \<open>The chain of sessions\<close>

record 'h client =
  cl_sessions :: "'h server_session list"
  cl_position :: nat
  cl_max_length :: nat
  cl_num_blocks :: nat
  cl_closed :: bool

fun set_sessions_position :: "nat \<Rightarrow> 'h server_session list \<Rightarrow> unit res \<times> 'h server_session list" where
  "set_sessions_position p [] = (Inr (), [])"
| "set_sessions_position p (s # ss) =
     (case set_session_position p s of
        Inl e \<Rightarrow> (Inl e, s # ss)
      | Inr s' \<Rightarrow> let (r, ss') = set_sessions_position p ss in (r, s' # ss'))"

definition set_position :: "nat \<Rightarrow> 'h client \<Rightarrow> unit res \<times> 'h client" where
  "set_position p c =
     (let (r, ss) = set_sessions_position p (cl_sessions c) in (r, c\<lparr>cl_position := p, cl_sessions := ss\<rparr>))"

definition close_session :: "('h, 'p, 't, 'w) net \<Rightarrow> 'h server_session \<Rightarrow> 'w \<Rightarrow> 'h server_session \<times> 'w" where
  "close_session net s w =
     (if ss_closed s then (s, w) else let (ok, w') = net_close net (ss_id s) w in (s\<lparr>ss_closed := ok\<rparr>, w'))"

text \<open>Closing sessions, the last one first.\<close>

definition exit_sessions :: "('h, 'p, 't, 'w) net \<Rightarrow> 'h server_session list \<Rightarrow> 'w \<Rightarrow> 'w" where
  "exit_sessions net ss w = fold (\<lambda>s w. snd (close_session net s w)) (rev ss) w"

fun enter_sessions :: "('h, 'p, 't, 'w) net \<Rightarrow> remote_span list \<Rightarrow> 'h server_session list \<Rightarrow> 'w \<Rightarrow> 'h server_session list res \<times> 'w" where
  "enter_sessions net [] opened w = (Inr opened, w)"
| "enter_sessions net (sp # sps) opened w =
     (case net_open net sp w of
        (Inl e, w') \<Rightarrow> (Inl e, exit_sessions net opened w')
      | (Inr sid, w') \<Rightarrow> enter_sessions net sps (opened @ [new_session sp sid]) w')"

text \<open>\<open>make_sequence\<close> may return a longer sequence; the last span is cut.\<close>

definition cut_last :: "nat \<Rightarrow> remote_span list \<Rightarrow> remote_span list res" where
  "cut_last e spans =
     (if spans = [] then Inl IndexError
      else Inr (butlast spans @ [(last spans)\<lparr>rs_end := min (rs_end (last spans)) (int e)\<rparr>]))"

definition close_failed :: "('h, 'p, 't, 'w) net \<Rightarrow> nat \<Rightarrow> 'h client \<Rightarrow> 'w \<Rightarrow> 'h client \<times> 'w" where
  "close_failed net i c w =
     (if i < length (cl_sessions c)
      then let (s, w') = close_session net (cl_sessions c ! i) w in (c\<lparr>cl_sessions := (cl_sessions c)[i := s]\<rparr>, w')
      else (c, w))"

text \<open>The new sessions replace session \<open>i\<close>, whose history the first of them takes over.\<close>

definition install :: "nat \<Rightarrow> 'h server_session list \<Rightarrow> 'h client \<Rightarrow> 'h client" where
  "install i new c =
     (let ss = cl_sessions c;
          new' = (if i < length ss then new[0 := (new ! 0)\<lparr>ss_history := ss_history (ss ! i)\<rparr>] else new) in
      c\<lparr>cl_sessions := take i ss @ new' @ drop (Suc i) ss\<rparr>)"

definition update_sequence ::
  "('h, 'p, 't, 'w) net \<Rightarrow> nat \<Rightarrow> nat \<Rightarrow> 'h client \<Rightarrow> 'w \<Rightarrow> unit res \<times> 'h client \<times> 'w" where
  "update_sequence net i block_idx c w =
     (let (c1, w1) = close_failed net i c w;
          update_end = (if i < length (cl_sessions c1) then nat (rs_end (ss_span (cl_sessions c1 ! i))) else cl_num_blocks c1) in
      case net_route net block_idx update_end (cl_max_length c1) w1 of
        (Inl e, w2) \<Rightarrow> (Inl e, c1, w2)
      | (Inr spans, w2) \<Rightarrow>
          (case cut_last update_end spans of
             Inl e \<Rightarrow> (Inl e, c1, w2)
           | Inr spans' \<Rightarrow>
               (case enter_sessions net spans' [] w2 of
                  (Inl e, w3) \<Rightarrow> (Inl e, c1, w3)
                | (Inr new, w3) \<Rightarrow> (Inr (), install i new c1, w3))))"

section \<open>A step with retries\<close>

record ('h, 'p) step_args =
  sa_prompts :: "'h list list option"
  sa_hypo_ids :: "int list"
  sa_per_layer :: "'p list list option"

definition span_slice :: "remote_span \<Rightarrow> 'x list option \<Rightarrow> 'x list option" where
  "span_slice sp = map_option (\<lambda>xs. py_slice xs (rs_start sp) (rs_end sp))"

text \<open>
  One attempt at the span of session \<open>i\<close>: the result with the peer to blame, if a session was
  reached, and with the last block of the span on success.
\<close>

definition try_span ::
  "('h, 'p, 't, 'w) net \<Rightarrow> ('h, 'p) step_args \<Rightarrow> nat \<Rightarrow> nat \<Rightarrow> nat \<Rightarrow> 'h list \<Rightarrow> 't shared_kv \<Rightarrow> 'h client \<Rightarrow> 'w
   \<Rightarrow> ('h list \<times> 't shared_kv \<times> remote_span) res \<times> peer_id option \<times> 'h client \<times> 'w" where
  "try_span net args i block_idx attempt_no inputs shared c w =
     (let (r, c1, w1) = (if cl_sessions c = [] \<or> 1 \<le> attempt_no then update_sequence net i block_idx c w else (Inr (), c, w)) in
      case r of
        Inl e \<Rightarrow> (Inl e, None, c1, w1)
      | Inr _ \<Rightarrow>
          if length (cl_sessions c1) \<le> i then (Inl IndexError, None, c1, w1)
          else
            let s = cl_sessions c1 ! i; peer = Some (rs_peer_id (ss_span s)) in
            if ss_position s \<noteq> cl_position c1 then (Inl AssertionError, peer, c1, w1)
            else
              let (r, s', w2) = session_step net (cl_max_length c1) inputs (span_slice (ss_span s) (sa_prompts args))
                                  (sa_hypo_ids args) (span_slice (ss_span s) (sa_per_layer args)) shared s w1;
                  c2 = c1\<lparr>cl_sessions := (cl_sessions c1)[i := s']\<rparr> in
              (case r of
                 Inl e \<Rightarrow> (Inl e, peer, c2, w2)
               | Inr (outs, produced) \<Rightarrow> (Inr (outs, produced, ss_span s), peer, c2, w2)))"

partial_function (option) attempts ::
  "('h, 'p, 't, 'w) net \<Rightarrow> nat option \<Rightarrow> ('h, 'p) step_args \<Rightarrow> nat \<Rightarrow> nat \<Rightarrow> nat \<Rightarrow> 'h list \<Rightarrow> 't shared_kv \<Rightarrow> 'h client \<Rightarrow> 'w
   \<Rightarrow> (('h list \<times> 't shared_kv \<times> remote_span) res \<times> 'h client \<times> 'w) option" where
  "attempts net max_retries args i block_idx attempt_no inputs shared c w =
     (case try_span net args i block_idx attempt_no inputs shared c w of
        (Inr (outs, produced, sp), peer, c1, w1) \<Rightarrow> Some (Inr (outs, produced, sp), c1, net_success net (rs_peer_id sp) w1)
      | (Inl e, peer, c1, w1) \<Rightarrow>
          (let w2 = net_failure net peer w1 in
           if max_retries = Some (Suc attempt_no) then Some (Inl e, c1, w2)
           else attempts net max_retries args i block_idx (Suc attempt_no) inputs shared c1 w2))"

partial_function (option) span_loop ::
  "('h, 'p, 't, 'w) net \<Rightarrow> nat option \<Rightarrow> ('h, 'p) step_args \<Rightarrow> nat \<Rightarrow> nat \<Rightarrow> 'h list \<Rightarrow> 't shared_kv \<Rightarrow> 'h client \<Rightarrow> 'w
   \<Rightarrow> ('h list res \<times> 'h client \<times> 'w) option" where
  "span_loop net max_retries args i block_idx inputs shared c w =
     (if cl_num_blocks c \<le> block_idx then Some (Inr inputs, c, w)
      else
        Option.bind (attempts net max_retries args i block_idx 0 inputs shared c w) (\<lambda>(r, c1, w1).
        case r of
          Inl e \<Rightarrow> Some (Inl e, c1, w1)
        | Inr (outs, produced, sp) \<Rightarrow>
            span_loop net max_retries args (Suc i) (nat (rs_end sp)) outs
              (fold (\<lambda>(k, v). AList.update k v) produced shared) c1 w1))"

text \<open>The shape checks of \<open>InferenceSession.step\<close> on its optional arguments.\<close>

definition args_ok :: "nat \<Rightarrow> nat \<Rightarrow> nat \<Rightarrow> ('h, 'p) step_args \<Rightarrow> bool" where
  "args_ok num_blocks batch n args \<longleftrightarrow>
     (dummy_slices (sa_prompts args) \<or>
        (case sa_prompts args of None \<Rightarrow> True | Some ps \<Rightarrow> length ps = num_blocks \<and> list_all (\<lambda>p. length p \<le> n) ps))
     \<and> (dummy_slices (sa_per_layer args) \<or>
        (case sa_per_layer args of None \<Rightarrow> True | Some ps \<Rightarrow> length ps = num_blocks \<and> list_all (\<lambda>p. length p = n) ps))
     \<and> (sa_hypo_ids args = [] \<or> length (sa_hypo_ids args) = batch)"

definition client_step ::
  "('h, 'p, 't, 'w) net \<Rightarrow> nat option \<Rightarrow> nat \<Rightarrow> ('h, 'p) step_args \<Rightarrow> 'h list \<Rightarrow> 'h client \<Rightarrow> 'w
   \<Rightarrow> ('h list res \<times> 'h client \<times> 'w) option" where
  "client_step net max_retries batch args inputs c w =
     (if cl_closed c then Some (Inl AssertionError, c, w)
      else if \<not> args_ok (cl_num_blocks c) batch (length inputs) args then Some (Inl AssertionError, c, w)
      else if cl_max_length c < cl_position c + length inputs then Some (Inl ValueError, c, w)
      else
        Option.bind (span_loop net max_retries args 0 0 inputs [] c w) (\<lambda>(r, c1, w1).
        case r of
          Inl e \<Rightarrow> Some (Inl e, c1, w1)
        | Inr outs \<Rightarrow>
            Some (Inr (if inputs = [] then outs else drop (length outs - length inputs) outs), c1\<lparr>cl_position := cl_position c1 + length inputs\<rparr>, w1)))"

definition close_client :: "('h, 'p, 't, 'w) net \<Rightarrow> 'h client \<Rightarrow> 'w \<Rightarrow> 'h client \<times> 'w" where
  "close_client net c w =
     (if cl_closed c then (c, w)
      else (c\<lparr>cl_sessions := [], cl_closed := True\<rparr>, exit_sessions net (cl_sessions c) w))"

definition new_client :: "nat \<Rightarrow> nat \<Rightarrow> 'h client" where
  "new_client num_blocks max_length =
     \<lparr>cl_sessions = [], cl_position = 0, cl_max_length = max_length, cl_num_blocks = num_blocks, cl_closed = False\<rparr>"

end
