(* ===== verification/Backend_Correct.thy ===== *)
theory Backend_Correct
  imports Backend
begin

text \<open>
  Correctness of the backend: splitting a forward pass into chunks, and a session into steps, does
  not change what is computed, on both caches; the chunk size keeps attention within its memory
  budget; and the one place where chunking does change the result, blocks that attend to shared
  keys and values.
\<close>

section \<open>Chunks\<close>

definition module_computes ::
  "(nat \<Rightarrow> 'v \<Rightarrow> bool) \<Rightarrow> ('h, 'v, 'p, 't) module \<Rightarrow> ('v \<Rightarrow> 'h list \<Rightarrow> 'h list \<times> 'v) \<Rightarrow> bool" where
  "module_computes F m blk \<longleftrightarrow>
     (\<forall>n v hs shared. F n v \<longrightarrow> hs \<noteq> [] \<longrightarrow> m (Some v) hs None shared = Inr (fst (blk v hs), Some (snd (blk v hs)), shared))"

lemma chunk_loop_exact:
  assumes c: "causal_block F trunc fwd blk" and m: "module_computes F m blk" and v: "F n v"
    and mc: "0 < mc" "mc < length hs"
    and nk: "offset = 0 \<and> nk = None \<or> nk = Some (Some (snd (blk v (take offset hs))))"
  shows "chunk_loop m mc hs None offset (Some (snd (blk v (take offset hs)))) shared (fst (blk v (take offset hs))) nk
    = Inr (fst (blk v hs), Some (snd (blk v hs)), shared)"
  using nk
proof (induction "length hs - offset" arbitrary: offset nk rule: less_induct)
  case less
  show ?case
  proof (cases "offset < length hs")
    case False
    then show ?thesis using less(2) mc by (subst chunk_loop.simps) (cases nk, auto)
  next
    case True
    let ?v = "snd (blk v (take offset hs))" and ?ch = "take mc (drop offset hs)"
    have fv: "F (n + length (take offset hs)) ?v" by (rule causal_blockD(2) [OF c v])
    have ch: "?ch \<noteq> []" "length ?ch = min mc (length hs - offset)" using True mc by auto
    have app: "take offset hs @ ?ch = take (offset + mc) hs" by (simp add: take_add)
    have whole: "blk v (take (offset + mc) hs) = (fst (blk v (take offset hs)) @ fst (blk ?v ?ch), snd (blk ?v ?ch))"
      using causal_blockD(6) [OF c v, of "take offset hs" ?ch] unfolding app .
    have run: "m (Some ?v) ?ch None shared = Inr (fst (blk ?v ?ch), Some (snd (blk ?v ?ch)), shared)"
      using m fv ch(1) unfolding module_computes_def by blast
    have len: "length (fst (blk ?v ?ch)) = min mc (length hs - offset)"
      using causal_blockD(4) [OF c fv, of ?ch] ch(2) by simp
    have "chunk_loop m mc hs None offset (Some ?v) shared (fst (blk v (take offset hs))) nk
      = chunk_loop m mc hs None (offset + mc) (Some (snd (blk ?v ?ch))) shared
          (fst (blk v (take offset hs)) @ fst (blk ?v ?ch)) (Some (Some (snd (blk ?v ?ch))))"
      using True mc run len by (subst chunk_loop.simps) (simp add: fit_chunk_def)
    also have "\<dots> = Inr (fst (blk v hs), Some (snd (blk v hs)), shared)"
      using less(1) [of "offset + mc" "Some (Some (snd (blk ?v ?ch)))"] True mc whole by simp
    finally show ?thesis .
  qed
qed

lemma forward_chunked_exact:
  assumes "causal_block F trunc fwd blk" "module_computes F m blk" "F n v" "hs \<noteq> []" "0 < mc"
  shows "forward_chunked m hs (Some v) mc None shared = Inr (fst (blk v hs), Some (snd (blk v hs)), shared)"
proof (cases "mc < length hs")
  case True
  then show ?thesis
    using chunk_loop_exact [OF assms(1-3,5) True, of 0 None shared] causal_blockD(5) [OF assms(1,3)] assms(5)
    by (simp add: forward_chunked_def)
next
  case False
  have "m (Some v) hs None shared = Inr (fst (blk v hs), Some (snd (blk v hs)), shared)"
    using assms(2-4) unfolding module_computes_def by blast
  then have "chunk_loop m mc hs None 0 (Some v) shared [] None
    = chunk_loop m mc hs None mc (Some (snd (blk v hs))) shared (fst (blk v hs)) (Some (Some (snd (blk v hs))))"
    using False assms(4,5) by (subst chunk_loop.simps) simp
  also have "\<dots> = Inr (fst (blk v hs), Some (snd (blk v hs)), shared)"
    using False by (subst chunk_loop.simps) simp
  finally show ?thesis using assms(5) by (simp add: forward_chunked_def)
qed

text \<open>Chunking is invisible: for a causal block, running a sequence through \<open>_forward_chunked\<close>
  with any chunk length gives the outputs and the keys and values of a single call on the whole
  sequence.\<close>

theorem chunked_forward_exact:
  assumes "causal_block F trunc fwd blk" "module_computes F m blk" "F n v" "hs \<noteq> []" "0 < mc"
  shows "forward_chunked m hs (Some v) mc None shared = Inr (fst (blk v hs), Some (snd (blk v hs)), shared)"
  using assms by (rule forward_chunked_exact)

section \<open>Chunk length\<close>

text \<open>The chunk length respects the memory budget: the attention logits of one chunk against the
  whole sequence fit into \<open>max_chunk_size_bytes\<close>, unless not even a single token fits, when chunks
  are single tokens; and no longer chunk would fit.\<close>

theorem chunk_length_within_budget:
  assumes "estimate_max_chunk_length heads dtb budget_bytes batch prefix_len seq = Inr mc" "0 \<le> prefix_len"
  shows "0 < mc \<and> (int mc * (int (Max (set heads) * batch * dtb) * (prefix_len + int seq)) \<le> int budget_bytes \<or> mc = 1)
    \<and> int budget_bytes < (int mc + 1) * (int (Max (set heads) * batch * dtb) * (prefix_len + int seq))"
proof -
  define a where "a = int (Max (set heads) * batch * dtb) * (prefix_len + int seq)"
  have mc: "a \<noteq> 0" "mc = nat (max 1 (int budget_bytes div a))"
    using assms(1) unfolding estimate_max_chunk_length_def Let_def a_def by (auto split: if_splits)
  have "0 \<le> a" using assms(2) by (simp add: a_def)
  with mc(1) have a: "0 < a" by linarith
  have "int budget_bytes < (int budget_bytes div a + 1) * a"
    using div_mult_mod_eq [of "int budget_bytes" a] pos_mod_bound [OF a, of "int budget_bytes"]
    by (simp only: distrib_right mult_1)
  also have "\<dots> \<le> (int mc + 1) * a" using a mc(2) by (intro mult_right_mono) auto
  finally have "int budget_bytes < (int mc + 1) * a" .
  moreover have "int mc * a \<le> int budget_bytes \<or> mc = 1"
  proof (cases "1 \<le> int budget_bytes div a")
    case True
    then have "int mc = int budget_bytes div a" using mc(2) by simp
    moreover have "int budget_bytes div a * a \<le> int budget_bytes"
      using div_mult_mod_eq [of "int budget_bytes" a] pos_mod_sign [OF a, of "int budget_bytes"] by linarith
    ultimately show ?thesis by simp
  qed (use mc(2) in simp)
  ultimately show ?thesis using mc(2) by (simp add: a_def)
qed

theorem chunk_length_within_budget_witness:
  "0 < (4::nat) \<and> (int 4 * (int (Max (set [8, 6::nat]) * 2 * 2) * (10 + int 6)) \<le> int 2100 \<or> (4::nat) = 1)
    \<and> int 2100 < (int 4 + 1) * (int (Max (set [8, 6::nat]) * 2 * 2) * (10 + int 6))"
  by (rule chunk_length_within_budget) (simp_all add: estimate_max_chunk_length_def)

section \<open>Sessions\<close>

text \<open>A session: steps over consecutive pieces of a sequence, without beam search.\<close>

fun paged_session ::
  "backend \<Rightarrow> ('h, 'c list list, 'p, 't) module \<Rightarrow> nat \<Rightarrow> int \<Rightarrow> nat \<Rightarrow> 'h list list \<Rightarrow> 'c pool
   \<Rightarrow> 'h list list res \<times> 'c pool" where
  "paged_session b m batch slot k [] p = (Inr [], p)"
| "paged_session b m batch slot k (hs # hss) p =
     (case paged_body b m batch hs [] slot (int k) p of
        (Inl e, p') \<Rightarrow> (Inl e, p')
      | (Inr out, p') \<Rightarrow>
          (case paged_session b m batch slot (k + length hs) hss p' of
             (Inl e, p'') \<Rightarrow> (Inl e, p'')
           | (Inr outs, p'') \<Rightarrow> (Inr (out # outs), p'')))"

fun cached_session ::
  "backend \<Rightarrow> ('h, 'a tensor list, 'p, 't) module \<Rightarrow> nat \<Rightarrow> nat \<Rightarrow> 'h list list \<Rightarrow> 'a tensor list
   \<Rightarrow> 'h list list res \<times> 'a tensor list" where
  "cached_session b m batch k [] ts = (Inr [], ts)"
| "cached_session b m batch k (hs # hss) ts =
     (case cached_body b m batch hs [] (int k) None None ts of
        (Inl e, ts') \<Rightarrow> (Inl e, ts')
      | (Inr (out, _), ts') \<Rightarrow>
          (case cached_session b m batch (k + length hs) hss ts' of
             (Inl e, ts'') \<Rightarrow> (Inl e, ts'')
           | (Inr outs, ts'') \<Rightarrow> (Inr (out # outs), ts'')))"

text \<open>What a backend computes from a read prefix, chunk size included.\<close>

definition backend_fwd ::
  "backend \<Rightarrow> ('h, 'v, 'p, 't) module \<Rightarrow> nat \<Rightarrow> nat \<Rightarrow> 'v \<Rightarrow> 'h list \<Rightarrow> ('h list \<times> 'v) res" where
  "backend_fwd b m batch k v hs =
     rbind (estimate_max_chunk_length (shard_num_heads b) (dtype_bytes b) (max_chunk_size_bytes b) batch (int k) (length hs)) (\<lambda>mc.
     rbind (forward_chunked m hs (Some v) mc None None) (\<lambda>(out, kvs, _).
     case kvs of None \<Rightarrow> Inl TypeError | Some new_kvs \<Rightarrow> Inr (out, new_kvs)))"

lemma estimate_pos: "estimate_max_chunk_length heads d m b k n = Inr mc \<Longrightarrow> 0 < mc"
  by (auto simp: estimate_max_chunk_length_def Let_def split: if_splits)

lemma causal_backend_fwd:
  assumes "causal_block F trunc fwd blk" "module_computes F m blk"
  shows "causal_block F trunc (backend_fwd b m batch) blk"
proof -
  have "r = blk v hs" if "F n v" "hs \<noteq> []" "backend_fwd b m batch n v hs = Inr r" for n v hs r
    using that forward_chunked_exact [OF assms that(1,2)]
    by (auto simp: backend_fwd_def res_simps dest!: estimate_pos)
  with assms(1) show ?thesis unfolding causal_block_def by blast
qed

lemma paged_body_step:
  "paged_body b m batch hs [] slot (int k) p = (Inr out, p') \<Longrightarrow>
     kv_step (\<lambda>n. gather slot n) (write_slot slot) (backend_fwd b m batch) k hs p = (Inr out, p')"
  by (auto simp: paged_body_def kv_step_def backend_fwd_def gather_at_def write_slot_at_def write_slot_def scatter_at_def
      split: sum.splits prod.splits option.splits if_splits)

lemma paged_session_run:
  "paged_session b m batch slot k hss p = (Inr outs, p') \<Longrightarrow>
     kv_run (\<lambda>n. gather slot n) (write_slot slot) (backend_fwd b m batch) k hss p = (Inr outs, p')"
proof (induction hss arbitrary: k p outs)
  case Nil
  then show ?case by simp
next
  case (Cons hs hss)
  then show ?case by (auto dest!: paged_body_step split: prod.splits sum.splits)
qed

text \<open>C5. A paged session computes what a single pass would: feeding a sequence to a paged backend in
  any steps, each split into chunks by its memory budget, returns the outputs of the block on the
  whole sequence, and the slot then reads as exactly its keys and values.\<close>

theorem paged_session_exact:
  assumes "causal_block (slot_fits slot p) (\<lambda>n. map (take n)) fwd blk" "module_computes (slot_fits slot p) m blk"
    and "[] \<notin> set hss" "pool_ok p" "slot_fits slot p k v" "gather slot k p = Inr v"
    and "paged_session b m batch slot k hss p = (Inr outs, p')"
  shows "concat outs = fst (blk v (concat hss)) \<and> pool_ok p'
    \<and> gather slot (k + length (concat hss)) p' = Inr (snd (blk v (concat hss)))"
  using paged.run_result [OF causal_backend_fwd [OF assms(1,2)] assms(3-6) _ paged_session_run [OF assms(7)]] by simp

lemma estimate_some:
  assumes "heads \<noteq> []" "0 < Max (set heads) * batch * dtb" "0 \<le> p" "0 < n"
  shows "\<exists>mc. estimate_max_chunk_length heads dtb budget_bytes batch p n = Inr mc"
proof -
  have "0 < int (Max (set heads) * batch * dtb)" using assms(2) by (simp only: of_nat_0_less_iff)
  moreover have "0 < p + int n" using assms(3,4) by simp
  ultimately have "0 < int (Max (set heads) * batch * dtb) * (p + int n)" by (rule mult_pos_pos)
  then show ?thesis using assms(1,2) unfolding estimate_max_chunk_length_def Let_def by auto
qed

text \<open>A contiguous step never fails while there is room.\<close>

lemma cached_body_exact:
  assumes c: "causal_block (\<lambda>n v. kvs_ok n ts v) (\<lambda>n. kvs_take (int n)) fwd blk"
    and m: "module_computes (\<lambda>n v. kvs_ok n ts v) m blk"
    and ts: "shards_ok B L ts" "ts \<noteq> []" and v: "kvs_ok k ts v" "select_layer_past (int k) ts = v"
    and hs: "hs \<noteq> []" "k + length hs \<le> L"
    and est: "shard_num_heads b \<noteq> []" "0 < Max (set (shard_num_heads b)) * batch * dtype_bytes b"
  shows "\<exists>ts'. cached_body b m batch hs [] (int k) None shared ts = (Inr (fst (blk v hs), shared), ts')
    \<and> shards_ok B L ts' \<and> ts' \<noteq> [] \<and> select_layer_past (int (k + length hs)) ts' = snd (blk v hs)
    \<and> (\<lambda>n v. kvs_ok n ts' v) = (\<lambda>n v. kvs_ok n ts v)"
proof -
  have r: "reorder_cache_inplace [] ts = (Inr (), ts)" by (cases ts) simp_all
  obtain mc where mc: "estimate_max_chunk_length (shard_num_heads b) (dtype_bytes b) (max_chunk_size_bytes b) batch (int k) (length hs) = Inr mc"
    using estimate_some [OF est, of "int k" "length hs"] hs(1) by auto
  have f: "forward_chunked m hs (Some v) mc None shared = Inr (fst (blk v hs), Some (snd (blk v hs)), shared)"
    by (rule forward_chunked_exact [OF c m v(1) hs(1) estimate_pos [OF mc]])
  have nv: "kvs_ok (k + length hs) ts (snd (blk v hs))" "kvs_take (int k) (snd (blk v hs)) = v"
    using causal_blockD(2,3) [OF c v(1), of hs] by simp_all
  from update_cache_exact [OF ts(1) nv(1) ts(2) _ hs(2), of k] v(2) nv(2)
  obtain ts' where ts': "update_cache ts (snd (blk v hs)) (int k) = (Inr (), ts')" "shards_ok B L ts'"
    "select_layer_past (int (k + length hs)) ts' = snd (blk v hs)" by auto
  have sh: "map shape ts' = map shape ts" by (rule update_cache_shapes [OF ts'(1)])
  then have "ts' \<noteq> []" using ts(2) by auto
  moreover have "(\<lambda>n v. kvs_ok n ts' v) = (\<lambda>n v. kvs_ok n ts v)" using kvs_ok_shapes [OF sh] by blast
  moreover have "cached_body b m batch hs [] (int k) None shared ts = (Inr (fst (blk v hs), shared), ts')"
    using r mc f v(2) ts'(1) by (simp add: cached_body_def)
  ultimately show ?thesis using ts' by blast
qed

text \<open>C6. A contiguous session computes what a single pass would, and never fails before the reserved
  length: feeding a sequence in any steps, each split into chunks, succeeds, returns the outputs of
  the block on the whole sequence, and the cache then reads as exactly its keys and values.\<close>

theorem cached_session_exact:
  assumes "causal_block (\<lambda>n v. kvs_ok n ts v) (\<lambda>n. kvs_take (int n)) fwd blk"
    and "module_computes (\<lambda>n v. kvs_ok n ts v) m blk"
    and "shards_ok B L ts" "ts \<noteq> []" "kvs_ok k ts v" "select_layer_past (int k) ts = v"
    and "[] \<notin> set hss" "k + length (concat hss) \<le> L"
    and "shard_num_heads b \<noteq> []" "0 < Max (set (shard_num_heads b)) * batch * dtype_bytes b"
  shows "\<exists>outs ts'. cached_session b m batch k hss ts = (Inr outs, ts')
    \<and> concat outs = fst (blk v (concat hss)) \<and> select_layer_past (int (k + length (concat hss))) ts' = snd (blk v (concat hss))"
  using assms
proof (induction hss arbitrary: k v ts)
  case Nil
  then show ?case using causal_blockD(5) [OF Nil(1,5)] by simp
next
  case (Cons hs hss)
  note c = Cons.prems(1)
  have hs: "hs \<noteq> []" "[] \<notin> set hss" "k + length hs \<le> L" "k + length hs + length (concat hss) \<le> L"
    using Cons.prems(7,8) by auto
  obtain ts1 where t1: "cached_body b m batch hs [] (int k) None None ts = (Inr (fst (blk v hs), None), ts1)"
    "shards_ok B L ts1" "ts1 \<noteq> []" "select_layer_past (int (k + length hs)) ts1 = snd (blk v hs)"
    and F: "(\<lambda>n v. kvs_ok n ts1 v) = (\<lambda>n v. kvs_ok n ts v)"
    using cached_body_exact [OF c Cons.prems(2-6) hs(1,3) Cons.prems(9,10)] by blast
  have k1: "kvs_ok (k + length hs) ts1 (snd (blk v hs))"
    using causal_blockD(2) [OF c Cons.prems(5), of hs] fun_cong [OF fun_cong [OF F]] by simp
  obtain outs ts' where rest: "cached_session b m batch (k + length hs) hss ts1 = (Inr outs, ts')"
    "concat outs = fst (blk (snd (blk v hs)) (concat hss))"
    "select_layer_past (int (k + length hs + length (concat hss))) ts' = snd (blk (snd (blk v hs)) (concat hss))"
    using Cons.IH [of ts1 "k + length hs" "snd (blk v hs)"] c Cons.prems(2) F t1 k1 hs Cons.prems(9,10) by auto
  have w: "blk v (hs @ concat hss) = (fst (blk v hs) @ fst (blk (snd (blk v hs)) (concat hss)), snd (blk (snd (blk v hs)) (concat hss)))"
    by (rule causal_blockD(6) [OF c Cons.prems(5)])
  have "cached_session b m batch k (hs # hss) ts = (Inr (fst (blk v hs) # outs), ts')"
    using t1(1) rest(1) by simp
  then show ?case using w rest by (simp add: add.assoc)
qed

section \<open>A concrete block\<close>

text \<open>A one-row block over numbers: it outputs running sums and caches its tokens.\<close>

definition running :: "int list \<Rightarrow> int list \<Rightarrow> int list" where
  "running past hs = map (\<lambda>i. sum_list past + sum_list (take (Suc i) hs)) [0..<length hs]"

lemma length_running [simp]: "length (running past hs) = length hs"
  by (simp add: running_def)

lemma nth_running: "i < length hs \<Longrightarrow> running past hs ! i = sum_list past + sum_list (take (Suc i) hs)"
  by (simp add: running_def)

lemma running_append: "running past (xs @ ys) = running past xs @ running (past @ xs) ys"
proof (rule nth_equalityI)
  fix i assume "i < length (running past (xs @ ys))"
  then have i: "i < length xs + length ys" by simp
  show "running past (xs @ ys) ! i = (running past xs @ running (past @ xs) ys) ! i"
  proof (cases "i < length xs")
    case True
    then show ?thesis using i by (simp add: nth_running nth_append)
  next
    case False
    then have "Suc i - length xs = Suc (i - length xs)" "take (Suc i) xs = xs" by simp_all
    then show ?thesis using False i by (simp add: nth_running nth_append)
  qed
qed simp

definition row_block :: "int list list \<Rightarrow> int list \<Rightarrow> int list \<times> int list list" where
  "row_block v hs = (running (hd v) hs, [hd v @ hs])"

definition row_module :: "(int, int list list, unit, unit) module" where
  "row_module past hs pli sh = (case past of None \<Rightarrow> Inl TypeError
     | Some v \<Rightarrow> Inr (fst (row_block v hs), Some (snd (row_block v hs)), sh))"

definition row_pool :: "int pool" where
  "row_pool = register_slot 5 1 (init_pool 0 4 2)"

definition small_backend :: backend where
  "small_backend = \<lparr>shard_num_heads = [1], dtype_bytes = 1, max_chunk_size_bytes = 6\<rparr>"

lemma row_pool_fits: "slot_fits 5 row_pool n v \<longleftrightarrow> (\<exists>r. v = [r] \<and> length r = n)"
  by (auto simp: slot_fits_def row_pool_def register_slot_def init_pool_def dict_has_def length_Suc_conv)

lemma row_block_causal:
  "causal_block (slot_fits 5 row_pool) (\<lambda>n. map (take n)) (\<lambda>_ v hs. Inr (row_block v hs)) row_block"
  unfolding causal_block_def row_pool_fits by (auto simp: row_block_def running_append) (simp_all add: running_def)

lemma row_module_computes: "module_computes (slot_fits 5 row_pool) row_module row_block"
  by (simp add: module_computes_def row_module_def)

theorem chunked_forward_exact_witness:
  "forward_chunked row_module [1, 2, 3] (Some [[4]]) 2 None None
     = Inr (fst (row_block [[4]] [1, 2, 3]), Some (snd (row_block [[4]] [1, 2, 3])), None)"
  by (rule chunked_forward_exact [OF row_block_causal row_module_computes, of 1]) (simp_all add: row_pool_fits)

theorem paged_session_exact_witness:
  "concat [[1, 3, 6], [10]] = fst (row_block [[]] (concat [[1, 2, 3], [4]]))
    \<and> pool_ok (snd (paged_session small_backend row_module 1 5 0 [[1, 2, 3], [4]] row_pool))
    \<and> gather 5 (0 + length (concat [[1, 2, 3], [4 :: int]])) (snd (paged_session small_backend row_module 1 5 0 [[1, 2, 3], [4]] row_pool))
        = Inr (snd (row_block [[]] (concat [[1, 2, 3], [4]])))"
proof (rule paged_session_exact [OF row_block_causal row_module_computes])
  show "pool_ok row_pool" unfolding row_pool_def by (intro pool_ok_register pool_ok_init) simp
  show "slot_fits 5 row_pool 0 [[]]" "gather 5 0 row_pool = Inr [[]]" by code_simp+
  have "fst (paged_session small_backend row_module 1 5 0 [[1, 2, 3], [4]] row_pool) = Inr [[1, 3, 6], [10]]" by code_simp
  then show "paged_session small_backend row_module 1 5 0 [[1, 2, 3], [4]] row_pool
    = (Inr [[1, 3, 6], [10]], snd (paged_session small_backend row_module 1 5 0 [[1, 2, 3], [4]] row_pool))"
    by (metis prod.collapse)
qed simp

definition tensor_block :: "int tensor list \<Rightarrow> int list \<Rightarrow> int list \<times> int tensor list" where
  "tensor_block v hs =
     (running (elems (v ! 0)) hs,
      [\<lparr>shape = [1, 1, length (elems (v ! 0) @ hs)], elems = elems (v ! 0) @ hs\<rparr>,
       \<lparr>shape = [1, length (elems (v ! 1) @ hs), 1], elems = elems (v ! 1) @ hs\<rparr>])"

definition tensor_module :: "(int, int tensor list, unit, unit) module" where
  "tensor_module past hs pli sh = (case past of None \<Rightarrow> Inl TypeError
     | Some v \<Rightarrow> Inr (fst (tensor_block v hs), Some (snd (tensor_block v hs)), sh))"

definition small_cache :: "int tensor list" where
  "small_cache = [\<lparr>shape = [1, 1, 1, 4], elems = replicate 4 0\<rparr>, \<lparr>shape = [1, 1, 4, 1], elems = replicate 4 0\<rparr>]"

definition flat_kv :: "int list \<Rightarrow> int list \<Rightarrow> int tensor list" where
  "flat_kv ks vs = [\<lparr>shape = [1, 1, length ks], elems = ks\<rparr>, \<lparr>shape = [1, length vs, 1], elems = vs\<rparr>]"

lemma small_cache_fits:
  "kvs_ok n small_cache v \<longleftrightarrow> (\<exists>ks vs. v = flat_kv ks vs \<and> length ks = n \<and> length vs = n)"
proof
  assume "kvs_ok n small_cache v"
  then obtain nk nv where v: "v = [nk, nv]" "tensor_ok nk" "tensor_ok nv" "shape nk = [1, 1, n]" "shape nv = [1, n, 1]"
    by (cases "(n, small_cache, v)" rule: kvs_ok.cases) (auto simp: small_cache_def elim: kvs_ok.elims)
  then have "v = flat_kv (elems nk) (elems nv)" "length (elems nk) = n" "length (elems nv) = n"
    by (auto simp: flat_kv_def tensor_ok_def intro!: tensor_eqI)
  then show "\<exists>ks vs. v = flat_kv ks vs \<and> length ks = n \<and> length vs = n" by blast
qed (auto simp: small_cache_def flat_kv_def tensor_ok_def)

lemma flat_kv_take:
  assumes "n \<le> length ks" "n \<le> length vs"
  shows "kvs_take (int n) (flat_kv ks vs) = flat_kv (take n ks) (take n vs)"
proof -
  have t: "tabulate3 1 n 1 (\<lambda>c j i. es ! j) = take n es" if "n \<le> length es" for es :: "int list"
    using that by (auto simp: tabulate3_def intro!: nth_equalityI)
  then show ?thesis using assms
    by (auto simp: flat_kv_def select_axis_def Let_def axis_len_def outer_def inner_def elem_def slice_index_def
        tabulate3_def numeral_eq_Suc min_def intro!: nth_equalityI)
qed

lemma tensor_block_flat:
  "tensor_block (flat_kv ks vs) hs = (running ks hs, flat_kv (ks @ hs) (vs @ hs))"
  by (simp add: tensor_block_def flat_kv_def)

lemma tensor_block_causal:
  "causal_block (\<lambda>n v. kvs_ok n small_cache v) (\<lambda>n. kvs_take (int n)) (\<lambda>_ v hs. Inr (tensor_block v hs)) tensor_block"
  unfolding causal_block_def small_cache_fits
proof (intro conjI allI impI; elim exE conjE)
  fix n v hs ks vs assume v: "v = flat_kv ks vs" "length ks = n" "length vs = n"
  show "\<exists>ks' vs'. snd (tensor_block v hs) = flat_kv ks' vs' \<and> length ks' = n + length hs \<and> length vs' = n + length hs"
    using v by (intro exI [of _ "ks @ hs"] exI [of _ "vs @ hs"]) (simp add: tensor_block_flat)
  show "kvs_take (int n) (snd (tensor_block v hs)) = v"
    using v flat_kv_take [of n "ks @ hs" "vs @ hs"] by (simp add: tensor_block_flat)
qed (auto simp: tensor_block_flat running_append, simp add: running_def)

theorem cached_session_exact_witness:
  "\<exists>outs ts'. cached_session small_backend tensor_module 1 0 [[1, 2, 3], [4]] small_cache = (Inr outs, ts')
    \<and> concat outs = fst (tensor_block (flat_kv [] []) (concat [[1, 2, 3], [4]]))
    \<and> select_layer_past (int (0 + length (concat [[1, 2, 3], [4 :: int]]))) ts' = snd (tensor_block (flat_kv [] []) (concat [[1, 2, 3], [4]]))"
proof (rule cached_session_exact [OF tensor_block_causal])
  show "module_computes (\<lambda>n v. kvs_ok n small_cache v) tensor_module tensor_block"
    by (simp add: module_computes_def tensor_module_def)
  show "shards_ok 1 4 small_cache" by (simp add: small_cache_def tensor_ok_def)
  show "kvs_ok 0 small_cache (flat_kv [] [])" by (simp add: small_cache_fits)
  show "select_layer_past (int 0) small_cache = flat_kv [] []" by code_simp
qed (simp_all add: small_cache_def small_backend_def)

section \<open>Blocks that attend to shared keys and values\<close>

text \<open>
  The positions \<open>WrappedGemma4Block.forward\<close> (\<open>src/drift/models/gemma4/block.py\<close>) gives to its
  tokens: a sharing block infers how many tokens came before from the length of the donor's keys,
  the others from their own cache.
\<close>

definition gemma4_positions :: "nat option \<Rightarrow> nat \<Rightarrow> nat \<Rightarrow> int list" where
  "gemma4_positions donor_length past_cached seq_length =
     (let past_length = (case donor_length of Some d \<Rightarrow> int d - int seq_length | None \<Rightarrow> int past_cached) in
      map (\<lambda>i. past_length + int i) [0..<seq_length])"

text \<open>Such a block as a module whose outputs are the positions it used; it keeps no cache.\<close>

definition sharing_block :: "(int, unit, unit, int list) module" where
  "sharing_block layer_past hs pli shared =
     (case shared of None \<Rightarrow> Inl TypeError
      | Some d \<Rightarrow> rbind (dict_get d ''full_attention'') (\<lambda>(key, _).
          Inr (gemma4_positions (Some (length key)) 0 (length hs), None, shared)))"

text \<open>Chunking is not invisible for a block that attends to shared keys and values: the donor has
  already stored the keys of the whole sequence, so every chunk takes itself for the last one. In
  a prompt that needs more than one chunk the first token gets position \<open>prefix + n - chunk\<close>
  instead of \<open>prefix\<close>, while a single chunk gives the right positions.\<close>

theorem sharing_block_chunks_misplaced:
  assumes "0 < mc" "mc < length hs" "length key = prefix_len + length hs"
  shows "(\<exists>out. forward_chunked sharing_block hs past mc None (Some [(''full_attention'', key, value)]) = Inr (out, None, Some [(''full_attention'', key, value)])
      \<and> out ! 0 = int (prefix_len + length hs - mc) \<and> out ! 0 \<noteq> int prefix_len)
    \<and> forward_chunked sharing_block hs past (length hs) None (Some [(''full_attention'', key, value)])
        = Inr (map (\<lambda>i. int prefix_len + int i) [0..<length hs], None, Some [(''full_attention'', key, value)])"
proof
  let ?sh = "Some [(''full_attention'', key, value)]"
  have step: "sharing_block past' chunk None ?sh = Inr (gemma4_positions (Some (length key)) 0 (length chunk), None, ?sh)" for past' chunk
    by (simp add: sharing_block_def dict_get_def)
  have len: "length (gemma4_positions d c n) = n" for d c n by (simp add: gemma4_positions_def Let_def)
  have loop: "\<exists>rest. chunk_loop sharing_block mc hs None offset past' ?sh out (Some None) = Inr (out @ rest, None, ?sh)"
    for offset past' out
  proof (induction "length hs - offset" arbitrary: offset past' out rule: less_induct)
    case less
    show ?case
    proof (cases "offset < length hs")
      case True
      let ?p = "gemma4_positions (Some (length key)) 0 (min mc (length hs - offset))"
      have "chunk_loop sharing_block mc hs None offset past' ?sh out (Some None)
        = chunk_loop sharing_block mc hs None (offset + mc) None ?sh (out @ ?p) (Some None)"
        using True assms(1,2) step by (subst chunk_loop.simps) (simp add: fit_chunk_def len min.commute)
      moreover have lt: "length hs - (offset + mc) < length hs - offset" using True assms(1) by linarith
      moreover obtain rest where "chunk_loop sharing_block mc hs None (offset + mc) None ?sh (out @ ?p) (Some None)
        = Inr ((out @ ?p) @ rest, None, ?sh)" using less(1) [OF lt, of None "out @ ?p"] by blast
      ultimately show ?thesis by auto
    qed (use assms(1) in \<open>simp add: chunk_loop.simps\<close>)
  qed
  have hs: "hs \<noteq> []" using assms(2) by auto
  let ?p = "gemma4_positions (Some (length key)) 0 mc"
  have "chunk_loop sharing_block mc hs None 0 past ?sh [] None = chunk_loop sharing_block mc hs None mc None ?sh ?p (Some None)"
    using assms(1,2) hs step by (subst chunk_loop.simps) (simp add: fit_chunk_def len min_absorb1)
  moreover obtain rest where "chunk_loop sharing_block mc hs None mc None ?sh ?p (Some None) = Inr (?p @ rest, None, ?sh)"
    using loop by blast
  moreover have "(?p @ rest) ! 0 = int (prefix_len + length hs - mc)"
    using assms by (simp add: nth_append len) (simp add: gemma4_positions_def Let_def)
  ultimately show "\<exists>out. forward_chunked sharing_block hs past mc None ?sh = Inr (out, None, ?sh)
      \<and> out ! 0 = int (prefix_len + length hs - mc) \<and> out ! 0 \<noteq> int prefix_len"
    using assms by (auto simp: forward_chunked_def)
  have "chunk_loop sharing_block (length hs) hs None 0 past ?sh [] None
    = chunk_loop sharing_block (length hs) hs None (length hs) None ?sh (gemma4_positions (Some (length key)) 0 (length hs)) (Some None)"
    using assms(1,2) hs step by (subst chunk_loop.simps) simp
  also have "\<dots> = Inr (gemma4_positions (Some (length key)) 0 (length hs), None, ?sh)"
    by (subst chunk_loop.simps) simp
  finally show "forward_chunked sharing_block hs past (length hs) None ?sh
      = Inr (map (\<lambda>i. int prefix_len + int i) [0..<length hs], None, ?sh)"
    using assms hs by (simp add: forward_chunked_def gemma4_positions_def Let_def)
qed

theorem sharing_block_chunks_misplaced_witness:
  "(\<exists>out. forward_chunked sharing_block [10, 11, 12] None 2 None (Some [(''full_attention'', [1, 2, 3], [4, 5, 6])])
        = Inr (out, None, Some [(''full_attention'', [1, 2, 3], [4, 5, 6])])
      \<and> out ! 0 = int (0 + length [10, 11, 12 :: int] - 2) \<and> out ! 0 \<noteq> int 0)
    \<and> forward_chunked sharing_block [10, 11, 12] None (length [10, 11, 12 :: int]) None (Some [(''full_attention'', [1, 2, 3], [4, 5, 6])])
        = Inr (map (\<lambda>i. int 0 + int i) [0..<length [10, 11, 12 :: int]], None, Some [(''full_attention'', [1, 2, 3], [4, 5, 6])])"
  by (rule sharing_block_chunks_misplaced) simp_all

end
