(* ===== verification/Span_Session.thy ===== *)
theory Span_Session
  imports Block_Functions Backend_Correct
begin

text \<open>
  A whole inference session on one server, over the chain of its blocks. The locale
  \<open>span_blocks\<close> is the interface between the request loop and the blocks: what each block keeps of
  the session and what one step of it returns. From it follows, once for both task pools, that a
  session computes the composition of its blocks on the whole sequence the client has fed, steps
  back included. The contiguous backend of \<open>Backend\<close> provides the interface.
\<close>

section \<open>A session of plain requests\<close>

text \<open>A request without beam search, prompts, per-layer inputs or shared keys and values.\<close>

definition plain :: "('h, 'p, 't) step_request \<Rightarrow> bool" where
  "plain rq \<longleftrightarrow> rq_hidden rq \<noteq> [] \<and> dummy_slices (rq_prompts rq) \<and> rq_hypo_ids rq = [] \<and> rq_hypo_int64 rq
     \<and> dummy_slices (rq_per_layer rq) \<and> rq_shared_keys rq = []"

text \<open>The sequence a client has fed, after a request that may step back.\<close>

definition fed :: "'h list \<Rightarrow> ('h, 'p, 't) step_request \<Rightarrow> 'h list" where
  "fed xs rq = take (case rq_start rq of None \<Rightarrow> length xs | Some p \<Rightarrow> nat p) xs @ rq_hidden rq"

fun admissible :: "nat \<Rightarrow> nat \<Rightarrow> nat \<Rightarrow> 'h list \<Rightarrow> ('h, 'p, 't) step_request list \<Rightarrow> bool" where
  "admissible rows limit max_batch xs [] \<longleftrightarrow> True"
| "admissible rows limit max_batch xs (rq # rqs) \<longleftrightarrow>
     plain rq \<and> rq_batch rq = rows \<and> (case rq_start rq of None \<Rightarrow> True | Some p \<Rightarrow> 0 \<le> p \<and> p \<le> int (length xs)) \<and> length (fed xs rq) \<le> limit
     \<and> rows * length (rq_hidden rq) \<le> max_batch \<and> admissible rows limit max_batch (fed xs rq) rqs"

text \<open>What the client should receive: each time the outputs of its new tokens in the whole sequence.\<close>

fun expected :: "('h list \<Rightarrow> 'h list) \<Rightarrow> 'h list \<Rightarrow> ('h, 'p, 't) step_request list \<Rightarrow> 'h list list" where
  "expected f xs [] = []"
| "expected f xs (rq # rqs) = drop (length (fed xs rq) - length (rq_hidden rq)) (f (fed xs rq)) # expected f (fed xs rq) rqs"

section \<open>The interface of a block\<close>

text \<open>What the blocks of a chain keep when the first one has been fed \<open>xs\<close>, and what the chain computes.\<close>

fun chain_keeps :: "(served_block \<Rightarrow> 's \<Rightarrow> 'h list \<Rightarrow> bool) \<Rightarrow> (served_block \<Rightarrow> 'h list \<Rightarrow> 'h list) \<Rightarrow> served_block list
   \<Rightarrow> 's \<Rightarrow> 'h list \<Rightarrow> bool" where
  "chain_keeps keeps sem [] s xs \<longleftrightarrow> True"
| "chain_keeps keeps sem (b # bs) s xs \<longleftrightarrow> keeps b s xs \<and> chain_keeps keeps sem bs s (sem b xs)"

definition chain_sem :: "(served_block \<Rightarrow> 'h list \<Rightarrow> 'h list) \<Rightarrow> served_block list \<Rightarrow> 'h list \<Rightarrow> 'h list" where
  "chain_sem sem bs = fold sem bs"

locale span_blocks =
  fixes steps :: "string \<Rightarrow> ('h, 'p, 't, 's) block_step option"
    and keeps :: "served_block \<Rightarrow> 's \<Rightarrow> 'h list \<Rightarrow> bool"
    and sem :: "served_block \<Rightarrow> 'h list \<Rightarrow> 'h list"
    and blocks :: "served_block list"
    and room :: nat
  assumes step_exact: "b \<in> set blocks \<Longrightarrow> keeps b s xs \<Longrightarrow> pos \<le> length xs \<Longrightarrow> hs \<noteq> [] \<Longrightarrow> pos + length hs \<le> room \<Longrightarrow>
      \<exists>st s'. steps (sb_uid b) = Some st
        \<and> st hs [] (step_info (int pos) [] b None) s = (Inr (drop pos (sem b (take pos xs @ hs)), [], Some []), s')
        \<and> keeps b s' (take pos xs @ hs)
        \<and> (\<forall>c \<in> set blocks. c \<noteq> b \<longrightarrow> (\<forall>ys. keeps c s ys \<longrightarrow> keeps c s' ys))"
    and sem_length: "b \<in> set blocks \<Longrightarrow> keeps b s zs \<Longrightarrow> length (sem b xs) = length xs"
    and sem_causal: "b \<in> set blocks \<Longrightarrow> keeps b s zs \<Longrightarrow> n \<le> length xs \<Longrightarrow> take n (sem b (xs @ ys)) = take n (sem b xs)"
begin

lemma sem_take: "b \<in> set blocks \<Longrightarrow> keeps b s zs \<Longrightarrow> pos \<le> length xs \<Longrightarrow> take pos (sem b (take pos xs @ hs)) = take pos (sem b xs)"
  using sem_causal [of b s zs pos "take pos xs" hs] sem_causal [of b s zs pos "take pos xs" "drop pos xs"] by simp

lemma chain_keeps_other:
  assumes "\<forall>c \<in> set bs. \<forall>ys. keeps c s ys \<longrightarrow> keeps c s' ys" "chain_keeps keeps sem bs s xs"
  shows "chain_keeps keeps sem bs s' xs"
  using assms by (induction bs arbitrary: xs) auto

lemma chain_sem_length:
  "set bs \<subseteq> set blocks \<Longrightarrow> chain_keeps keeps sem bs s zs \<Longrightarrow> length (chain_sem sem bs xs) = length xs"
  by (induction bs arbitrary: xs zs) (auto simp: chain_sem_def sem_length)

lemma chain_sem_causal:
  assumes "set bs \<subseteq> set blocks" "chain_keeps keeps sem bs s zs" "n \<le> length xs"
  shows "take n (chain_sem sem bs (xs @ ys)) = take n (chain_sem sem bs xs)"
  using assms
proof (induction bs arbitrary: xs ys zs)
  case (Cons b bs)
  then have b: "b \<in> set blocks" "keeps b s zs" by auto
  have "take (length xs) (sem b (xs @ ys)) = sem b xs"
    using sem_causal [OF b, of "length xs" xs ys] sem_length [OF b, of xs] by simp
  then have "sem b (xs @ ys) = sem b xs @ drop (length xs) (sem b (xs @ ys))" by (metis append_take_drop_id)
  then show ?case
    using Cons.IH [of "sem b zs" "sem b xs" "drop (length xs) (sem b (xs @ ys))"] Cons.prems sem_length [OF b, of xs]
    by (simp add: chain_sem_def)
qed (simp add: chain_sem_def)

lemma merged_chain:
  assumes "set bs \<subseteq> set blocks" "distinct bs" "chain_keeps keeps sem bs s xs" "pos \<le> length xs" "hs \<noteq> []" "pos + length hs \<le> room"
  shows "\<exists>s'. merged_loop addf steps [] hs (Some []) (map (\<lambda>b. (step_info (int pos) [] b None, None)) bs) s
      = (Inr (drop pos (chain_sem sem bs (take pos xs @ hs)), Some []), s')
    \<and> chain_keeps keeps sem bs s' (take pos xs @ hs)
    \<and> (\<forall>c \<in> set blocks - set bs. \<forall>ys. keeps c s ys \<longrightarrow> keeps c s' ys)"
  using assms
proof (induction bs arbitrary: s xs hs)
  case Nil
  then show ?case by (simp add: chain_sem_def)
next
  case (Cons b bs)
  let ?xs = "take pos xs @ hs" and ?h = "drop pos (sem b (take pos xs @ hs))"
  have b: "b \<in> set blocks" "keeps b s xs" "b \<notin> set bs" using Cons.prems(1-3) by auto
  obtain st s1 where st: "steps (sb_uid b) = Some st"
    "st hs [] (step_info (int pos) [] b None) s = (Inr (?h, [], Some []), s1)" "keeps b s1 ?xs"
    and frame: "\<forall>c \<in> set blocks. c \<noteq> b \<longrightarrow> (\<forall>ys. keeps c s ys \<longrightarrow> keeps c s1 ys)"
    using step_exact [OF b(1,2) Cons.prems(4-6)] by blast
  have rest: "chain_keeps keeps sem bs s1 (sem b xs)"
    by (rule chain_keeps_other [of bs s]) (use frame b(3) Cons.prems(1,3) in auto)
  have len: "length (sem b xs) = length xs" "length (sem b ?xs) = pos + length hs"
    using sem_length [OF b(1,2)] Cons.prems(4) by simp_all
  have fed: "take pos (sem b xs) @ ?h = sem b ?xs"
    using sem_take [OF b(1,2) Cons.prems(4), of hs] append_take_drop_id [of pos "sem b ?xs"] by simp
  have "?h \<noteq> []" "pos + length ?h \<le> room" using len Cons.prems(5,6) by auto
  from Cons.IH [OF _ _ rest _ this] Cons.prems(1,2,4) len fed
  obtain s' where s': "merged_loop addf steps [] ?h (Some []) (map (\<lambda>b. (step_info (int pos) [] b None, None)) bs) s1
      = (Inr (drop pos (chain_sem sem bs (sem b ?xs)), Some []), s')" "chain_keeps keeps sem bs s' (sem b ?xs)"
    "\<forall>c \<in> set blocks - set bs. \<forall>ys. keeps c s1 ys \<longrightarrow> keeps c s' ys"
    by auto
  show ?case
  proof (intro exI conjI)
    show "merged_loop addf steps [] hs (Some []) (map (\<lambda>b. (step_info (int pos) [] b None, None)) (b # bs)) s
      = (Inr (drop pos (chain_sem sem (b # bs) ?xs), Some []), s')"
      using st(1,2) s'(1) by (simp add: chain_sem_def)
    show "chain_keeps keeps sem (b # bs) s' ?xs" using s'(2,3) st(3) b(1,3) by auto
    show "\<forall>c \<in> set blocks - set (b # bs). \<forall>ys. keeps c s ys \<longrightarrow> keeps c s' ys"
      using frame s'(3) by auto
  qed
qed

text \<open>The same chain through the pool of the server, in one call or block by block.\<close>

lemma call_chain:
  assumes "sv_steps sv = steps" "rows * length hs \<le> sv_max_batch_size sv"
    and "set bs \<subseteq> set blocks" "distinct bs" "chain_keeps keeps sem bs s xs" "pos \<le> length xs" "hs \<noteq> []" "pos + length hs \<le> room" "bs \<noteq> []"
  shows "\<exists>s'. inference_call addf sv rows hs [] (map (\<lambda>b. step_info (int pos) [] b None) bs) (map (\<lambda>_. None) bs) s
      = (Inr (drop pos (chain_sem sem bs (take pos xs @ hs)), []), s')
    \<and> chain_keeps keeps sem bs s' (take pos xs @ hs)
    \<and> (\<forall>c \<in> set blocks - set bs. \<forall>ys. keeps c s ys \<longrightarrow> keeps c s' ys)"
proof -
  have z: "zip (map (\<lambda>b. step_info (int pos) [] b None) bs) (map (\<lambda>_. None) bs) = map (\<lambda>b. (step_info (int pos) [] b None, None)) bs"
    by (induction bs) simp_all
  have h: "(case map (\<lambda>b. step_info (int pos) [] b None) bs of [] \<Rightarrow> None | i # _ \<Rightarrow> md_shared_kv_states i) = Some []"
    using assms(9) by (cases bs) simp_all
  show ?thesis
    using merged_chain [OF assms(3-8), of addf] assms(1,2)
    by (auto simp: inference_call_def merged_inference_step_def z h Let_def extract_produced_shared_kv_def)
qed

lemma unmerged_chain:
  assumes sv: "sv_steps sv = steps" "rows * length hs \<le> sv_max_batch_size sv" "\<forall>b \<in> set blocks. sb_donor_types b = []"
    and "set bs \<subseteq> set blocks" "distinct bs" "chain_keeps keeps sem bs s xs" "pos \<le> length xs" "hs \<noteq> []" "pos + length hs \<le> room"
  shows "\<exists>s'. unmerged_loop addf sv rows [] (int pos) [] (map (\<lambda>b. (b, None, None)) bs) hs [] s
      = (Inr (drop pos (chain_sem sem bs (take pos xs @ hs)), []), s')
    \<and> chain_keeps keeps sem bs s' (take pos xs @ hs)
    \<and> (\<forall>c \<in> set blocks - set bs. \<forall>ys. keeps c s ys \<longrightarrow> keeps c s' ys)"
  using assms(2,4-)
proof (induction bs arbitrary: s xs hs)
  case Nil
  then show ?case by (simp add: chain_sem_def)
next
  case (Cons b bs)
  let ?xs = "take pos xs @ hs" and ?h = "drop pos (sem b (take pos xs @ hs))"
  have b: "b \<in> set blocks" "b \<notin> set bs" "sb_donor_types b = []" and kb: "keeps b s xs" using Cons.prems(2,3,4) sv(3) by auto
  from call_chain [OF sv(1) Cons.prems(1) _ _ _ Cons.prems(5-7), of "[b]" s addf] Cons.prems(4) b
  obtain s1 where s1: "inference_call addf sv rows hs [] [step_info (int pos) [] b None] [None] s = (Inr (?h, []), s1)"
    "keeps b s1 ?xs" and frame: "\<forall>c \<in> set blocks - {b}. \<forall>ys. keeps c s ys \<longrightarrow> keeps c s1 ys"
    by (auto simp: chain_sem_def)
  have rest: "chain_keeps keeps sem bs s1 (sem b xs)"
    by (rule chain_keeps_other [of bs s]) (use frame b(2) Cons.prems(2,4) in auto)
  have len: "length (sem b xs) = length xs" "length (sem b ?xs) = pos + length hs"
    using sem_length [OF b(1) kb] Cons.prems(5) by simp_all
  have fed: "take pos (sem b xs) @ ?h = sem b ?xs"
    using sem_take [OF b(1) kb Cons.prems(5), of hs] append_take_drop_id [of pos "sem b ?xs"] by simp
  have h: "rows * length ?h \<le> sv_max_batch_size sv" "?h \<noteq> []" "pos + length ?h \<le> room"
    using len Cons.prems(1,6,7) by auto
  from Cons.IH [OF h(1) _ _ rest _ h(2,3)] Cons.prems(2,3,5) len fed
  obtain s' where s': "unmerged_loop addf sv rows [] (int pos) [] (map (\<lambda>b. (b, None, None)) bs) ?h [] s1
      = (Inr (drop pos (chain_sem sem bs (sem b ?xs)), []), s')" "chain_keeps keeps sem bs s' (sem b ?xs)"
    "\<forall>c \<in> set blocks - set bs. \<forall>ys. keeps c s1 ys \<longrightarrow> keeps c s' ys"
    by auto
  show ?case
  proof (intro exI conjI)
    show "unmerged_loop addf sv rows [] (int pos) [] (map (\<lambda>b. (b, None, None)) (b # bs)) hs [] s
      = (Inr (drop pos (chain_sem sem (b # bs) ?xs), []), s')"
      using s1(1) s'(1) b(3) by (simp add: chain_sem_def unflatten_shared_kv_def dict_of_def)
    show "chain_keeps keeps sem (b # bs) s' ?xs" using s'(2,3) s1(2) b(1,2) by auto
    show "\<forall>c \<in> set blocks - set (b # bs). \<forall>ys. keeps c s ys \<longrightarrow> keeps c s' ys"
      using frame s'(3) by auto
  qed
qed

lemma step_chain:
  assumes sv: "sv_steps sv = steps" "sv_blocks sv = blocks" "sv_max_length sv = room" "distinct blocks" "blocks \<noteq> []"
      "\<forall>b \<in> set blocks. sb_donor_types b = []" "0 < rows"
    and rq: "plain rq" "rq_batch rq = rows" "case rq_start rq of None \<Rightarrow> True | Some p \<Rightarrow> 0 \<le> p \<and> p \<le> int (length xs)"
      "length (fed xs rq) \<le> room" "rows * length (rq_hidden rq) \<le> sv_max_batch_size sv"
    and keep: "chain_keeps keeps sem blocks s xs"
  shows "\<exists>resp s'. rpc_inference_step addf sv (int (length xs)) rq s = (Inr (resp, int (length (fed xs rq))), s')
    \<and> resp_hidden resp = drop (length (fed xs rq) - length (rq_hidden rq)) (chain_sem sem blocks (fed xs rq))
    \<and> chain_keeps keeps sem blocks s' (fed xs rq) \<and> resp_shared_keys resp = [] \<and> resp_shared_tensors resp = []"
proof -
  define pos where "pos = (case rq_start rq of None \<Rightarrow> length xs | Some p \<Rightarrow> nat p)"
  have pos: "pos \<le> length xs" "start_position (int (length xs)) (rq_start rq) = Inr (int pos)"
    using rq(3) by (auto simp: pos_def start_position_def split: option.splits)
  have fed: "fed xs rq = take pos xs @ rq_hidden rq" by (simp add: fed_def pos_def)
  have len: "length (fed xs rq) = pos + length (rq_hidden rq)" using pos(1) fed by simp
  have hs: "rq_hidden rq \<noteq> []" "rq_hypo_ids rq = []" using rq(1) by (simp_all add: plain_def)
  have slices: "zip blocks (zip (replicate (length blocks) None) (replicate (length blocks) None)) = map (\<lambda>b. (b, None, None)) blocks"
    by (induction blocks) simp_all
  have none: "map (\<lambda>x. None) blocks = map (\<lambda>_. None) blocks" ..
  have check: "check_step sv (int (length xs)) rq = Inr (int pos, map (\<lambda>b. (b, None, None)) blocks, [])"
    using rq(1,4) sv(2,3) pos(2) len slices
    by (auto simp: check_step_def plain_def step_prompts_def step_per_layer_def Let_def dummy_slices_def split: option.splits)
  have room: "pos + length (rq_hidden rq) \<le> room" using rq(4) len by simp
  have donors: "concat (map (sb_donor_types \<circ> fst) (map (\<lambda>b. (b, None, None)) blocks)) = []" using sv(6) by auto
  obtain s1 where m: "merged_call addf sv rows [] (int pos) [] (map (\<lambda>b. (b, None, None)) blocks) (rq_hidden rq) s
      = (Inr (drop pos (chain_sem sem blocks (fed xs rq)), []), s1)" "chain_keeps keeps sem blocks s1 (fed xs rq)"
    using call_chain [OF sv(1) rq(5) subset_refl sv(4) keep pos(1) hs(1) room sv(5), of addf] donors
    by (auto simp: merged_call_def fed comp_def unflatten_shared_kv_def dict_of_def)
  obtain s2 where u: "unmerged_loop addf sv rows [] (int pos) [] (map (\<lambda>b. (b, None, None)) blocks) (rq_hidden rq) [] s
      = (Inr (drop pos (chain_sem sem blocks (fed xs rq)), []), s2)" "chain_keeps keeps sem blocks s2 (fed xs rq)"
    using unmerged_chain [OF sv(1) rq(5) sv(6) subset_refl sv(4) keep pos(1) hs(1) room, of addf] by (auto simp: fed)
  have d: "drop (length (fed xs rq) - length (rq_hidden rq)) ys = drop pos ys" for ys :: "'h list" using len by simp
  show ?thesis
    using m u check rq(2) hs sv(7) len
    by (cases "can_merge_pools (sv_quant sv) rows (length (rq_hidden rq))")
      (auto simp: rpc_inference_step_def flatten_shared_kv_def Let_def d)
qed

lemma session_chain:
  assumes sv: "sv_steps sv = steps" "sv_blocks sv = blocks" "sv_max_length sv = room" "distinct blocks" "blocks \<noteq> []"
      "\<forall>b \<in> set blocks. sb_donor_types b = []" "0 < rows"
    and "admissible rows room (sv_max_batch_size sv) xs rqs" "chain_keeps keeps sem blocks s xs"
  shows "\<exists>resps n s'. iterate_rpc_inference addf sv (int (length xs)) rqs s = (resps, None, n, s')
    \<and> map resp_hidden resps = expected (chain_sem sem blocks) xs rqs"
  using assms(8,9)
proof (induction rqs arbitrary: xs s)
  case Nil
  then show ?case by simp
next
  case (Cons rq rqs)
  then have a: "plain rq" "rq_batch rq = rows" "case rq_start rq of None \<Rightarrow> True | Some p \<Rightarrow> 0 \<le> p \<and> p \<le> int (length xs)"
      "length (fed xs rq) \<le> room" "rows * length (rq_hidden rq) \<le> sv_max_batch_size sv"
    and rest: "admissible rows room (sv_max_batch_size sv) (fed xs rq) rqs" by simp_all
  from step_chain [OF sv a Cons.prems(2), of addf] obtain resp s1 where
    one: "rpc_inference_step addf sv (int (length xs)) rq s = (Inr (resp, int (length (fed xs rq))), s1)"
      "resp_hidden resp = drop (length (fed xs rq) - length (rq_hidden rq)) (chain_sem sem blocks (fed xs rq))"
      "chain_keeps keeps sem blocks s1 (fed xs rq)" by blast
  from Cons.IH [OF rest one(3)] obtain resps n s' where
    "iterate_rpc_inference addf sv (int (length (fed xs rq))) rqs s1 = (resps, None, n, s')"
    "map resp_hidden resps = expected (chain_sem sem blocks) (fed xs rq) rqs" by blast
  then show ?case using one by simp
qed

end

section \<open>The contiguous backend provides the interface\<close>

lemma fold_update_notin: "k \<notin> fst ` set kvs \<Longrightarrow> map_of (fold (\<lambda>(h, t). AList.update h t) kvs d) k = map_of d k"
  by (induction kvs arbitrary: d) auto

lemma fold_update_in:
  "distinct (map fst kvs) \<Longrightarrow> (k, v) \<in> set kvs \<Longrightarrow> map_of (fold (\<lambda>(h, t). AList.update h t) kvs d) k = Some v"
proof (induction kvs arbitrary: d)
  case (Cons x xs)
  then show ?case by (cases "(k, v) \<in> set xs") (auto simp: fold_update_notin image_iff)
qed simp

lemma rmap_cong: "(\<And>x. x \<in> set xs \<Longrightarrow> f x = g x) \<Longrightarrow> rmap f xs = rmap g xs"
  by (induction xs) simp_all

lemma drain_all: "drain zero ms d = (Inr u, ms', d') \<Longrightarrow> ms' = []"
  by (induction zero ms d rule: drain.induct) (auto split: if_splits)

text \<open>Reading after a step: the block sees what it stored, the other blocks what they had.\<close>

lemma use_cache_stored:
  assumes "use_cache zero handles s = (Inr ts, s1)" "distinct handles" "length ts' = length ts"
  shows "fst (use_cache zero handles (store_tensors handles ts' s1)) = Inr ts'"
    and "set others \<inter> set handles = {} \<Longrightarrow>
      fst (use_cache zero others (store_tensors handles ts' s1)) = fst (use_cache zero others s)"
proof -
  from assms(1) obtain u ms d where d: "drain zero (pipe s) (allocated s) = (Inr u, ms, d)" "rmap (dict_get d) handles = Inr ts"
    "s1 = s\<lparr>pipe := ms, allocated := d\<rparr>"
    by (auto simp: use_cache_def split: prod.splits sum.splits)
  have ms: "ms = []" by (rule drain_all [OF d(1)])
  have len: "length handles = length ts'" using rmap_length [OF d(2)] assms(3) by simp
  let ?d = "fold (\<lambda>(h, t). AList.update h t) (zip handles ts') d"
  have st: "pipe (store_tensors handles ts' s1) = []" "allocated (store_tensors handles ts' s1) = ?d"
    by (simp_all add: store_tensors_def d(3) ms)
  have fst: "map fst (zip handles ts') = handles" using len by simp
  have each: "dict_get ?d (handles ! i) = Inr (ts' ! i)" if "i < length handles" for i
  proof -
    have "(handles ! i, ts' ! i) \<in> set (zip handles ts')" using that len by (auto simp: in_set_zip)
    from fold_update_in [OF _ this, of d] show ?thesis using assms(2) fst by (simp add: dict_get_def)
  qed
  have "rmap (dict_get ?d) (map (\<lambda>i. handles ! i) is) = Inr (map (\<lambda>i. ts' ! i) is)" if "set is \<subseteq> {..<length handles}" for "is"
    using that each by (induction "is") auto
  from this [of "[0..<length handles]"] have "rmap (dict_get ?d) handles = Inr ts'"
    using map_nth [of handles] map_nth [of ts'] len by (simp add: lessThan_atLeast0)
  then show "fst (use_cache zero handles (store_tensors handles ts' s1)) = Inr ts'"
    using st by (simp add: use_cache_def)
  assume apart: "set others \<inter> set handles = {}"
  have "map_of ?d x = map_of d x" if "x \<in> set others" for x
  proof (rule fold_update_notin)
    have "fst ` set (zip handles ts') = set handles" using fst by (metis set_map)
    then show "x \<notin> fst ` set (zip handles ts')" using that apart by auto
  qed
  then have "rmap (dict_get ?d) others = rmap (dict_get d) others"
    by (intro rmap_cong) (simp add: dict_get_def)
  then show "fst (use_cache zero others (store_tensors handles ts' s1)) = fst (use_cache zero others s)"
    using st d(1) by (simp add: use_cache_def)
qed

text \<open>
  The blocks of one session: what each computes from its empty cache, and which handles hold its
  tensors. \<open>cache_keeps\<close> says that a block's tensors read as the keys and values of the tokens \<open>xs\<close>.
\<close>

type_synonym ('h, 'a) block_meaning = "'a tensor list \<Rightarrow> 'h list \<Rightarrow> 'h list \<times> 'a tensor list"

definition cache_steps ::
  "'a \<Rightarrow> nat \<Rightarrow> (string \<Rightarrow> (backend \<times> ('h, 'a tensor list, 'p, 't) module) option)
   \<Rightarrow> string \<Rightarrow> ('h, 'p, 't, 'a cache) block_step option" where
  "cache_steps zero rows served u = map_option (\<lambda>(b, m). inference_step zero b m rows) (served u)"

definition handles_apart :: "served_block list \<Rightarrow> bool" where
  "handles_apart bs \<longleftrightarrow> list_all (\<lambda>b. distinct (sb_handles b)) bs
     \<and> list_all (\<lambda>b. list_all (\<lambda>c. b = c \<or> set (sb_handles b) \<inter> set (sb_handles c) = {}) bs) bs"

definition backend_ready :: "nat \<Rightarrow> backend \<Rightarrow> bool" where
  "backend_ready rows b \<longleftrightarrow> shard_num_heads b \<noteq> [] \<and> 0 < Max (set (shard_num_heads b)) * rows * dtype_bytes b"

definition computes_block ::
  "nat \<Rightarrow> (backend \<times> ('h, 'a tensor list, 'p, 't) module) option \<Rightarrow> ('h, 'a) block_meaning \<Rightarrow> 'a tensor list \<Rightarrow> 'a tensor list \<Rightarrow> bool" where
  "computes_block rows served blk start ts \<longleftrightarrow>
     (case served of None \<Rightarrow> False | Some (b, m) \<Rightarrow>
        backend_ready rows b \<and> module_computes (\<lambda>n v. kvs_ok n ts v) m blk)
     \<and> causal_block (\<lambda>n v. kvs_ok n ts v) (\<lambda>n. kvs_take (int n)) (\<lambda>_ v hs. Inr (blk v hs)) blk
     \<and> kvs_ok 0 ts start"

definition cache_keeps ::
  "'a \<Rightarrow> nat \<Rightarrow> nat \<Rightarrow> (string \<Rightarrow> (backend \<times> ('h, 'a tensor list, 'p, 't) module) option)
   \<Rightarrow> (string \<Rightarrow> ('h, 'a) block_meaning) \<Rightarrow> (string \<Rightarrow> 'a tensor list) \<Rightarrow> served_block list
   \<Rightarrow> served_block \<Rightarrow> 'a cache \<Rightarrow> 'h list \<Rightarrow> bool" where
  "cache_keeps zero rows limit served blk start blocks b s xs \<longleftrightarrow> handles_apart blocks \<and> length xs \<le> limit
     \<and> (\<exists>ts. fst (use_cache zero (sb_handles b) s) = Inr ts \<and> ts \<noteq> [] \<and> shards_ok rows limit ts
          \<and> computes_block rows (served (sb_uid b)) (blk (sb_uid b)) (start (sb_uid b)) ts
          \<and> select_layer_past (int (length xs)) ts = snd (blk (sb_uid b) (start (sb_uid b)) xs))"

lemma kvs_ok_length: "kvs_ok n ts v \<Longrightarrow> length ts = length v"
  by (induction n ts v rule: kvs_ok.induct) auto

lemma inference_step_exact:
  assumes use: "use_cache zero handles s = (Inr ts, s1)"
    and ts: "ts \<noteq> []" "shards_ok rows limit ts" and c: "computes_block rows (Some (b, m)) blk start ts"
    and past: "select_layer_past (int (length xs)) ts = snd (blk start xs)" "length xs \<le> limit"
    and pos: "pos \<le> length xs" "hs \<noteq> []" "pos + length hs \<le> limit"
    and info: "md_cache_handles info = handles" "md_prefix_length info = int pos" "md_per_layer_input info = None"
      "md_shared_kv_states info = Some []"
  shows "\<exists>ts'. inference_step zero b m rows hs [] info s
      = (Inr (drop pos (fst (blk start (take pos xs @ hs))), [], Some []), store_tensors handles ts' s1)
    \<and> length ts' = length ts \<and> ts' \<noteq> [] \<and> shards_ok rows limit ts' \<and> computes_block rows (Some (b, m)) blk start ts'
    \<and> select_layer_past (int (pos + length hs)) ts' = snd (blk start (take pos xs @ hs))"
proof -
  from c have cb: "causal_block (\<lambda>n v. kvs_ok n ts v) (\<lambda>n. kvs_take (int n)) (\<lambda>_ v hs. Inr (blk v hs)) blk"
    and m: "module_computes (\<lambda>n v. kvs_ok n ts v) m blk" and k0: "kvs_ok 0 ts start" and ready: "backend_ready rows b"
    by (simp_all add: computes_block_def)
  let ?v = "snd (blk start (take pos xs))"
  have v: "kvs_ok pos ts ?v" using causal_blockD(2) [OF cb k0, of "take pos xs"] pos(1) by simp
  have "snd (blk start xs) = snd (blk ?v (drop pos xs))"
    using causal_blockD(6) [OF cb k0, of "take pos xs" "drop pos xs"] by simp
  then have "kvs_take (int pos) (snd (blk start xs)) = ?v" using causal_blockD(3) [OF cb v] by simp
  then have sel: "select_layer_past (int pos) ts = ?v"
    using select_layer_past_prefix [OF ts(2) pos(1) past(2)] past(1) by simp
  have app: "blk start (take pos xs @ hs) = (fst (blk start (take pos xs)) @ fst (blk ?v hs), snd (blk ?v hs))"
    by (rule causal_blockD(6) [OF cb k0])
  have len: "length (fst (blk start (take pos xs))) = pos" using causal_blockD(4) [OF cb k0, of "take pos xs"] pos(1) by simp
  obtain ts' where ts': "cached_body b m rows hs [] (int pos) None (Some []) ts = (Inr (fst (blk ?v hs), Some []), ts')"
    "shards_ok rows limit ts'" "ts' \<noteq> []" "select_layer_past (int (pos + length hs)) ts' = snd (blk ?v hs)"
    and F: "(\<lambda>n v. kvs_ok n ts' v) = (\<lambda>n v. kvs_ok n ts v)"
    using cached_body_exact [OF cb m ts(2,1) v sel pos(2,3), of b] ready unfolding backend_ready_def by blast
  have "length ts' = length ts" using F k0 kvs_ok_length by metis
  moreover have "computes_block rows (Some (b, m)) blk start ts'"
    using c F fun_cong [OF fun_cong [OF F], of 0 start] by (simp add: computes_block_def)
  ultimately show ?thesis
    using use ts' app len info by (auto simp: inference_step_def Let_def extract_produced_shared_kv_def)
qed

text \<open>What the blocks of a server compute on a whole sequence.\<close>

definition block_sem :: "(string \<Rightarrow> ('h, 'a) block_meaning) \<Rightarrow> (string \<Rightarrow> 'a tensor list) \<Rightarrow> served_block \<Rightarrow> 'h list \<Rightarrow> 'h list" where
  "block_sem blk start b xs = fst (blk (sb_uid b) (start (sb_uid b)) xs)"

interpretation cached: span_blocks
  "cache_steps zero rows served" "cache_keeps zero rows limit served blk start blocks"
  "block_sem blk start" blocks limit
  for zero rows served blk start blocks limit
proof unfold_locales
  fix b s xs pos and hs :: "'b list"
  assume b: "b \<in> set blocks" and keep: "cache_keeps zero rows limit served blk start blocks b s xs"
    and pos: "pos \<le> length xs" "hs \<noteq> []" "pos + length hs \<le> limit"
  let ?blk = "blk (sb_uid b)" and ?start = "start (sb_uid b)" and ?hs = "sb_handles b"
  from keep obtain ts where apart: "handles_apart blocks" and xs: "length xs \<le> limit"
    and ts: "fst (use_cache zero ?hs s) = Inr ts" "ts \<noteq> []" "shards_ok rows limit ts"
      "computes_block rows (served (sb_uid b)) ?blk ?start ts" "select_layer_past (int (length xs)) ts = snd (?blk ?start xs)"
    by (auto simp: cache_keeps_def)
  obtain be m where served: "served (sb_uid b) = Some (be, m)"
    using ts(4) by (auto simp: computes_block_def split: option.splits)
  obtain s1 where use: "use_cache zero ?hs s = (Inr ts, s1)" using ts(1) by (metis prod.collapse)
  from inference_step_exact [OF use ts(2,3) ts(4) [unfolded served] ts(5) xs pos, of "step_info (int pos) [] b None"]
  obtain ts' where ts': "inference_step zero be m rows hs [] (step_info (int pos) [] b None) s
      = (Inr (drop pos (fst (?blk ?start (take pos xs @ hs))), [], Some []), store_tensors ?hs ts' s1)"
    "length ts' = length ts" "ts' \<noteq> []" "shards_ok rows limit ts'" "computes_block rows (Some (be, m)) ?blk ?start ts'"
    "select_layer_past (int (pos + length hs)) ts' = snd (?blk ?start (take pos xs @ hs))" by auto
  have dist: "distinct ?hs" using apart b by (simp add: handles_apart_def list_all_iff)
  have "cache_keeps zero rows limit served blk start blocks b (store_tensors ?hs ts' s1) (take pos xs @ hs)"
    using use_cache_stored(1) [OF use dist ts'(2)] ts'(3-6) served apart pos(1,3) by (simp add: cache_keeps_def)
  moreover have "cache_keeps zero rows limit served blk start blocks c (store_tensors ?hs ts' s1) ys"
    if c: "c \<in> set blocks" "c \<noteq> b" "cache_keeps zero rows limit served blk start blocks c s ys" for c ys
  proof -
    have "set (sb_handles c) \<inter> set ?hs = {}" using apart b c(1,2) by (auto simp: handles_apart_def list_all_iff)
    from use_cache_stored(2) [OF use dist ts'(2) this] c(3) show ?thesis by (simp add: cache_keeps_def)
  qed
  ultimately show "\<exists>st s'. cache_steps zero rows served (sb_uid b) = Some st
      \<and> st hs [] (step_info (int pos) [] b None) s = (Inr (drop pos (block_sem blk start b (take pos xs @ hs)), [], Some []), s')
      \<and> cache_keeps zero rows limit served blk start blocks b s' (take pos xs @ hs)
      \<and> (\<forall>c \<in> set blocks. c \<noteq> b \<longrightarrow> (\<forall>ys. cache_keeps zero rows limit served blk start blocks c s ys
            \<longrightarrow> cache_keeps zero rows limit served blk start blocks c s' ys))"
    using ts'(1) served by (simp add: cache_steps_def block_sem_def)
next
  fix b s zs and xs :: "'b list"
  assume "cache_keeps zero rows limit served blk start blocks b s zs"
  then obtain ts where "causal_block (\<lambda>n v. kvs_ok n ts v) (\<lambda>n. kvs_take (int n)) (\<lambda>_ v hs. Inr (blk (sb_uid b) v hs)) (blk (sb_uid b))"
    "kvs_ok 0 ts (start (sb_uid b))" by (auto simp: cache_keeps_def computes_block_def)
  from causal_blockD(4) [OF this] show "length (block_sem blk start b xs) = length xs" by (simp add: block_sem_def)
next
  fix b s zs n and xs ys :: "'b list"
  assume keep: "cache_keeps zero rows limit served blk start blocks b s zs" and n: "n \<le> length xs"
  from keep obtain ts where c: "causal_block (\<lambda>n v. kvs_ok n ts v) (\<lambda>n. kvs_take (int n)) (\<lambda>_ v hs. Inr (blk (sb_uid b) v hs)) (blk (sb_uid b))"
    "kvs_ok 0 ts (start (sb_uid b))" by (auto simp: cache_keeps_def computes_block_def)
  from causal_blockD(6) [OF c, of xs ys] causal_blockD(4) [OF c, of xs] n
  show "take n (block_sem blk start b (xs @ ys)) = take n (block_sem blk start b xs)"
    by (simp add: block_sem_def)
qed

section \<open>The session of a server\<close>

text \<open>A server ready for a session: distinct blocks that keep and read no shared keys, each with tensors of its own.\<close>

definition session_ready ::
  "'a \<Rightarrow> nat \<Rightarrow> (string \<Rightarrow> (backend \<times> ('h, 'a tensor list, 'p, 't) module) option)
   \<Rightarrow> (string \<Rightarrow> ('h, 'a) block_meaning) \<Rightarrow> (string \<Rightarrow> 'a tensor list) \<Rightarrow> ('h, 'p, 't, 'a cache) span_server \<Rightarrow> 'a cache \<Rightarrow> bool" where
  "session_ready zero rows served blk start sv s \<longleftrightarrow>
     sv_steps sv = cache_steps zero rows served \<and> sv_blocks sv \<noteq> [] \<and> distinct (sv_blocks sv) \<and> 0 < rows
     \<and> (\<forall>b \<in> set (sv_blocks sv). sb_donor_types b = []
          \<and> cache_keeps zero rows (sv_max_length sv) served blk start (sv_blocks sv) b s [])"

lemma cached_chain_start:
  assumes "\<forall>b \<in> set bs. cache_keeps zero rows limit served blk start blocks b s []"
  shows "chain_keeps (cache_keeps zero rows limit served blk start blocks) (block_sem blk start) bs s []"
  using assms
proof (induction bs)
  case (Cons b bs)
  then have keep: "cache_keeps zero rows limit served blk start blocks b s []" by simp
  then obtain ts where "causal_block (\<lambda>n v. kvs_ok n ts v) (\<lambda>n. kvs_take (int n)) (\<lambda>_ v hs. Inr (blk (sb_uid b) v hs)) (blk (sb_uid b))"
    "kvs_ok 0 ts (start (sb_uid b))" by (auto simp: cache_keeps_def computes_block_def)
  from causal_blockD(5) [OF this] show ?case using keep Cons by (simp add: block_sem_def)
qed simp

text \<open>C4. A session on a server is exact: whatever the steps in which a client feeds its tokens, with
  steps back to any earlier position, through the merged pool or block by block, each in chunks of
  any size, all steps succeed within the reserved length and return exactly the outputs the chain of
  blocks gives to the new tokens in the sequence fed so far.\<close>

theorem server_session_exact:
  assumes "session_ready zero rows served blk start sv s"
    and "admissible rows (sv_max_length sv) (sv_max_batch_size sv) [] rqs"
  shows "\<exists>resps n s'. iterate_rpc_inference addf sv 0 rqs s = (resps, None, n, s')
    \<and> map resp_hidden resps = expected (chain_sem (block_sem blk start) (sv_blocks sv)) [] rqs"
proof -
  note ready = assms(1) [unfolded session_ready_def]
  have "chain_keeps (cache_keeps zero rows (sv_max_length sv) served blk start (sv_blocks sv)) (block_sem blk start) (sv_blocks sv) s []"
    using ready by (intro cached_chain_start) simp
  from cached.session_chain [OF _ refl refl _ _ _ _ assms(2) this, of addf] ready
  show ?thesis by simp
qed

text \<open>Two blocks of running sums on one server, a session of two steps and a step back.\<close>

definition two_blocks :: "served_block list" where
  "two_blocks = [\<lparr>sb_uid = ''m.0'', sb_handles = [0, 1], sb_donor_types = []\<rparr>,
                 \<lparr>sb_uid = ''m.1'', sb_handles = [2, 3], sb_donor_types = []\<rparr>]"

definition two_served :: "string \<Rightarrow> (backend \<times> (int, int tensor list, unit, unit) module) option" where
  "two_served u = (if u = ''m.0'' \<or> u = ''m.1'' then Some (small_backend, tensor_module) else None)"

definition two_server :: "(int, unit, unit, int cache) span_server" where
  "two_server = \<lparr>sv_blocks = two_blocks, sv_steps = cache_steps 0 1 two_served, sv_max_batch_size = 2,
     sv_quant = NF4, sv_max_length = 4\<rparr>"

definition two_cache :: "int cache" where
  "two_cache = (init_cache (Some 100))\<lparr>allocated := zip [0, 1, 2, 3] (small_cache @ small_cache)\<rparr>"

definition plain_request :: "int option \<Rightarrow> int list \<Rightarrow> (int, unit, unit) step_request" where
  "plain_request start hs = \<lparr>rq_batch = 1, rq_hidden = hs, rq_prompts = None, rq_hypo_ids = [], rq_hypo_int64 = True,
     rq_per_layer = None, rq_shared_tensors = [], rq_start = start, rq_shared_keys = []\<rparr>"

lemma two_server_ready:
  "session_ready 0 1 two_served (\<lambda>_. tensor_block) (\<lambda>_. flat_kv [] []) two_server two_cache"
proof -
  have c: "computes_block 1 (Some (small_backend, tensor_module)) tensor_block (flat_kv [] []) small_cache"
    using tensor_block_causal by (simp add: computes_block_def backend_ready_def small_backend_def module_computes_def
        tensor_module_def small_cache_fits)
  have u: "fst (use_cache 0 [0, 1] two_cache) = Inr small_cache" "fst (use_cache 0 [2, 3] two_cache) = Inr small_cache"
    by code_simp+
  have sh: "small_cache \<noteq> []" "shards_ok 1 4 small_cache" by (simp_all add: small_cache_def tensor_ok_def)
  have v: "select_layer_past 0 small_cache = snd (tensor_block (flat_kv [] []) [])" by code_simp
  have h: "handles_apart two_blocks" by code_simp
  show ?thesis using c u sh v h
    by (simp add: session_ready_def cache_keeps_def two_server_def two_blocks_def two_served_def)
qed

theorem server_session_exact_witness:
  "\<exists>resps n s'. iterate_rpc_inference (+) two_server 0 [plain_request None [1, 2], plain_request (Some 1) [5], plain_request None [7]] two_cache
      = (resps, None, n, s')
    \<and> map resp_hidden resps = expected (chain_sem (block_sem (\<lambda>_. tensor_block) (\<lambda>_. flat_kv [] [])) (sv_blocks two_server)) []
        [plain_request None [1, 2], plain_request (Some 1) [5], plain_request None [7]]"
  by (rule server_session_exact [OF two_server_ready])
    (simp add: plain_request_def plain_def dummy_slices_def fed_def two_server_def)

end
