(* ===== verification/Inference_Session_Correct.thy ===== *)
theory Inference_Session_Correct
  imports Inference_Session Span_Session
begin

text \<open>
  Properties of the client's session: without failures a step computes the chain of its servers on
  everything fed so far, steps back included; the position never passes the reserved length; and a
  server that fails after the first step is never replaced successfully.
\<close>

section \<open>Failover\<close>

lemma enter_sessions_new:
  "enter_sessions net sps opened w = (Inr ss, w') \<Longrightarrow> (\<forall>s \<in> set opened. ss_position s = 0) \<Longrightarrow>
     (\<forall>s \<in> set ss. ss_position s = 0) \<and> length ss = length opened + length sps"
proof (induction net sps opened w rule: enter_sessions.induct)
  case (2 net sp sps opened w)
  then show ?case by (auto simp: new_session_def split: sum.splits prod.splits)
qed simp

text \<open>After an update the session in question is fresh, and the position of the client unchanged.\<close>

lemma close_failed_keeps:
  "close_failed net i c w = (c', w') \<Longrightarrow> cl_position c' = cl_position c \<and> length (cl_sessions c') = length (cl_sessions c)"
  by (auto simp: close_failed_def split: if_splits prod.splits)

lemma install_fresh:
  assumes "new \<noteq> []" "\<forall>s \<in> set new. ss_position s = 0" "i \<le> length (cl_sessions c)"
  shows "cl_position (install i new c) = cl_position c \<and> i < length (cl_sessions (install i new c))
    \<and> ss_position (cl_sessions (install i new c) ! i) = 0"
  using assms by (cases new) (auto simp: install_def Let_def nth_append)

lemma update_sequence_fresh:
  assumes "update_sequence net i b c w = (r, c', w')" "i \<le> length (cl_sessions c)"
  shows "cl_position c' = cl_position c \<and> i \<le> length (cl_sessions c')
    \<and> (is_ok r \<longrightarrow> i < length (cl_sessions c') \<and> ss_position (cl_sessions c' ! i) = 0)"
proof -
  obtain c1 w1 where c1: "close_failed net i c w = (c1, w1)" by force
  note keeps = close_failed_keeps [OF c1]
  show ?thesis
  proof (cases r)
    case (Inl e)
    then have "c' = c1" using assms(1) c1
      by (auto simp: update_sequence_def Let_def split: prod.splits sum.splits)
    then show ?thesis using keeps assms(2) Inl by simp
  next
    case (Inr u)
    then obtain e spans spans' new w2 w3 where route: "cut_last e spans = Inr spans'" "enter_sessions net spans' [] w2 = (Inr new, w3)"
      and c': "c' = install i new c1"
      using assms(1) c1 by (auto simp: update_sequence_def Let_def split: prod.splits sum.splits)
    have "spans' \<noteq> []" using route(1) by (auto simp: cut_last_def split: if_splits)
    then have "new \<noteq> []" "\<forall>s \<in> set new. ss_position s = 0" using enter_sessions_new [OF route(2)] by auto
    from install_fresh [OF this, of i c1] show ?thesis using keeps assms(2) c' by simp
  qed
qed

lemma try_span_after_failure:
  assumes "0 < cl_position c" "i \<le> length (cl_sessions c)" "1 \<le> k"
    and "try_span net args i b k inputs shared c w = (r, peer, c', w')"
  shows "\<not> is_ok r \<and> cl_position c' = cl_position c \<and> i \<le> length (cl_sessions c')"
proof -
  obtain r1 c1 w1 where u: "update_sequence net i b c w = (r1, c1, w1)" by (cases "update_sequence net i b c w") auto
  note f = update_sequence_fresh [OF u assms(2)]
  show ?thesis
    using assms(4) f assms(1,3) u by (cases r1) (auto simp: try_span_def Let_def)
qed

lemma attempts_fail:
  assumes "attempts net mr args i b k inputs shared c w = Some y"
  shows "1 \<le> k \<longrightarrow> 0 < cl_position c \<longrightarrow> i \<le> length (cl_sessions c) \<longrightarrow> \<not> is_ok (fst y)"
proof (rule attempts.raw_induct [OF _ assms, where P = "\<lambda>net mr args i b k inputs shared c w y.
    1 \<le> k \<longrightarrow> 0 < cl_position c \<longrightarrow> i \<le> length (cl_sessions c) \<longrightarrow> \<not> is_ok (fst y)"], intro impI)
  fix self and net :: "('h, 'p, 't, 'w) net" and mr args i b k inputs shared c w y
  assume IH: "\<And>net mr args i b k inputs shared c w y. self net mr args i b k inputs shared c w = Some y \<Longrightarrow>
      1 \<le> k \<longrightarrow> 0 < cl_position c \<longrightarrow> i \<le> length (cl_sessions c) \<longrightarrow> \<not> is_ok (fst y)"
    and body: "(case try_span net args i b k inputs shared c w of
        (Inl e, peer, c1, w1) \<Rightarrow>
          (let w2 = net_failure net peer w1 in
           if mr = Some (Suc k) then Some (Inl e, c1, w2) else self net mr args i b (Suc k) inputs shared c1 w2)
      | (Inr (outs, produced, sp), peer, c1, w1) \<Rightarrow> Some (Inr (outs, produced, sp), c1, net_success net (rs_peer_id sp) w1)) = Some y"
    and k: "1 \<le> k" "0 < cl_position c" "i \<le> length (cl_sessions c)"
  obtain r1 peer c1 w1 where t: "try_span net args i b k inputs shared c w = (r1, peer, c1, w1)" by (metis prod_cases4)
  note f = try_span_after_failure [OF k(2,3,1) t]
  then obtain e where e: "r1 = Inl e" by (cases r1) auto
  show "\<not> is_ok (fst y)"
    using IH [of net mr args i b "Suc k" inputs shared c1 "net_failure net peer w1" y] body k f t e
    by (auto simp: Let_def split: if_splits)
qed

text \<open>C38. Once a session has made progress, a failed server is never replaced: after the first failed
  attempt of a step at a positive position no further attempt succeeds, whatever routes and servers
  are found, because the fresh session starts at position zero and the step insists on the client's
  position; each attempt blames the peer it has just connected to.\<close>

theorem failover_never_recovers:
  assumes "0 < cl_position c" "i \<le> length (cl_sessions c)" "1 \<le> attempt_no"
    and "attempts net max_retries args i block_idx attempt_no inputs shared c w = Some (r, c', w')"
  shows "\<not> is_ok r"
  using attempts_fail [OF assms(4)] assms(1-3) by simp

text \<open>A network with one server that routes, connects and answers.\<close>

definition echo_net :: "(int, unit, unit, nat) net" where
  "echo_net = \<lparr>net_route = (\<lambda>a b _ w. (Inr [\<lparr>rs_peer_id = ''P'', rs_start = int a, rs_end = int b, rs_server_info = sample_info ONLINE 1\<rparr>], w)),
     net_open = (\<lambda>_ w. (Inr w, Suc w)), net_close = (\<lambda>_ w. (True, w)),
     net_step = (\<lambda>_ rq w. (Inr (sr_hidden rq, [], []), w)), net_failure = (\<lambda>_ w. w), net_success = (\<lambda>_ w. w)\<rparr>"

definition no_args :: "(int, unit) step_args" where
  "no_args = \<lparr>sa_prompts = None, sa_hypo_ids = [], sa_per_layer = None\<rparr>"

definition progressed_client :: "int client" where
  "progressed_client = (new_client 2 8)\<lparr>cl_position := 1,
     cl_sessions := [(new_session \<lparr>rs_peer_id = ''P'', rs_start = 0, rs_end = 2, rs_server_info = sample_info ONLINE 1\<rparr> 0)
       \<lparr>ss_position := 1, ss_history := Some [5], ss_stepped := True\<rparr>]\<rparr>"

lemma echo_attempts:
  "map_option fst (attempts echo_net (Some 3) no_args 0 0 1 [6] [] progressed_client 1) = Some (Inl AssertionError)"
  by (simp add: attempts.simps echo_net_def no_args_def progressed_client_def try_span_def update_sequence_def close_failed_def
      close_session_def cut_last_def new_client_def new_session_def install_def Let_def numeral_eq_Suc)

theorem failover_never_recovers_witness:
  "\<not> is_ok (Inl AssertionError :: (int list \<times> unit shared_kv \<times> remote_span) res)"
proof -
  obtain c' w' where "attempts echo_net (Some 3) no_args 0 0 1 [6] [] progressed_client 1 = Some (Inl AssertionError, c', w')"
    using echo_attempts by (auto simp: map_option_case split: option.splits)
  from failover_never_recovers [OF _ _ _ this] show ?thesis
    by (simp add: progressed_client_def new_client_def)
qed

section \<open>Exactness without failures\<close>

text \<open>Requests the exactness statement is about: no beam search, prompts or side inputs.\<close>

definition plain_span_request :: "('h, 'p, 't) span_request \<Rightarrow> bool" where
  "plain_span_request rq \<longleftrightarrow> sr_hidden rq \<noteq> [] \<and> dummy_slices (sr_prompts rq) \<and> sr_hypo_ids rq = []
     \<and> dummy_slices (sr_per_layer rq) \<and> sr_shared rq = []"

text \<open>
  Servers that compute: \<open>fed w sid\<close> is what session \<open>sid\<close> has been fed, and a step from an earlier
  position replaces what was fed after it and returns the outputs of the new tokens.
\<close>

definition exact_net ::
  "('h, 'p, 't, 'w) net \<Rightarrow> nat \<Rightarrow> (nat \<Rightarrow> 'h list \<Rightarrow> 'h list) \<Rightarrow> ('w \<Rightarrow> nat \<Rightarrow> 'h list option) \<Rightarrow> bool" where
  "exact_net net room F fed_to \<longleftrightarrow>
     (\<forall>w sid xs rq. fed_to w sid = Some xs \<longrightarrow> plain_span_request rq \<longrightarrow> sr_start rq \<le> length xs \<longrightarrow>
        sr_start rq + length (sr_hidden rq) \<le> room \<longrightarrow>
        (\<exists>w'. net_step net sid rq w = (Inr (drop (sr_start rq) (F sid (take (sr_start rq) xs @ sr_hidden rq)), [], []), w')
           \<and> fed_to w' = (fed_to w)(sid \<mapsto> take (sr_start rq) xs @ sr_hidden rq)))
     \<and> (\<forall>w p. fed_to (net_success net p w) = fed_to w)
     \<and> (\<forall>w sid zs xs. fed_to w sid = Some zs \<longrightarrow> length (F sid xs) = length xs)
     \<and> (\<forall>w sid zs xs ys n. fed_to w sid = Some zs \<longrightarrow> n \<le> length xs \<longrightarrow> take n (F sid (xs @ ys)) = take n (F sid xs))"

text \<open>The sessions of a connected client, whose first session has been fed \<open>xs\<close>.\<close>

fun sessions_ok ::
  "(nat \<Rightarrow> 'h list \<Rightarrow> 'h list) \<Rightarrow> (nat \<Rightarrow> 'h list option) \<Rightarrow> 'h list \<Rightarrow> 'h server_session list \<Rightarrow> bool" where
  "sessions_ok F fed_to xs [] \<longleftrightarrow> True"
| "sessions_ok F fed_to xs (s # ss) \<longleftrightarrow>
     \<not> ss_closed s \<and> ss_position s = length xs
     \<and> (case ss_history s of None \<Rightarrow> xs = [] | Some h \<Rightarrow> length h = length xs \<and> ss_stepped s)
     \<and> (case fed_to (ss_id s) of None \<Rightarrow> False | Some ys \<Rightarrow> length xs \<le> length ys \<and> take (length xs) ys = xs)
     \<and> sessions_ok F fed_to (F (ss_id s) xs) ss"

text \<open>The spans follow each other up to the last block.\<close>

fun covers_blocks :: "nat \<Rightarrow> nat \<Rightarrow> 'h server_session list \<Rightarrow> bool" where
  "covers_blocks n b [] \<longleftrightarrow> n \<le> b"
| "covers_blocks n b (s # ss) \<longleftrightarrow> b < n \<and> covers_blocks n (nat (rs_end (ss_span s))) ss"

definition connected ::
  "(nat \<Rightarrow> 'h list \<Rightarrow> 'h list) \<Rightarrow> ('w \<Rightarrow> nat \<Rightarrow> 'h list option) \<Rightarrow> nat list \<Rightarrow> 'h list \<Rightarrow> 'h client \<Rightarrow> 'w \<Rightarrow> bool" where
  "connected F fed_to sids xs c w \<longleftrightarrow> \<not> cl_closed c \<and> cl_position c = length xs \<and> cl_sessions c \<noteq> []
     \<and> sids = map ss_id (cl_sessions c) \<and> distinct sids
     \<and> sessions_ok F (fed_to w) xs (cl_sessions c) \<and> covers_blocks (cl_num_blocks c) 0 (cl_sessions c)"

lemma sessions_ok_other:
  "sid \<notin> ss_id ` set ss \<Longrightarrow> sessions_ok F (f(sid \<mapsto> ys)) xs ss = sessions_ok F f xs ss"
  by (induction ss arbitrary: xs) auto

lemma exact_netD:
  assumes "exact_net net room F fed_to"
  shows "fed_to w sid = Some xs \<Longrightarrow> plain_span_request rq \<Longrightarrow> sr_start rq \<le> length xs \<Longrightarrow> sr_start rq + length (sr_hidden rq) \<le> room \<Longrightarrow>
      \<exists>w'. net_step net sid rq w = (Inr (drop (sr_start rq) (F sid (take (sr_start rq) xs @ sr_hidden rq)), [], []), w')
        \<and> fed_to w' = (fed_to w)(sid \<mapsto> take (sr_start rq) xs @ sr_hidden rq)"
    and "fed_to (net_success net p w) = fed_to w" "fed_to w sid = Some zs \<Longrightarrow> length (F sid xs) = length xs"
    and "fed_to w sid = Some zs \<Longrightarrow> n \<le> length xs \<Longrightarrow> take n (F sid (xs @ ys)) = take n (F sid xs)"
  using assms unfolding exact_net_def by blast+

lemma session_step_exact:
  fixes net :: "('h, 'p, 't, 'w) net"
  assumes net: "exact_net net room F fed_to" and s: "sessions_ok F (fed_to w) xs (s # ss)"
    and hs: "hs \<noteq> []" "length xs + length hs \<le> room" and plain: "dummy_slices ps" "dummy_slices pli"
  shows "\<exists>s' w'. session_step net max_length hs ps [] pli [] s w = (Inr (drop (length xs) (F (ss_id s) (xs @ hs)), []), s', w')
    \<and> fed_to w' = (fed_to w)(ss_id s \<mapsto> xs @ hs) \<and> ss_id s' = ss_id s \<and> ss_span s' = ss_span s
    \<and> \<not> ss_closed s' \<and> ss_position s' = length xs + length hs \<and> ss_stepped s'
    \<and> (case ss_history s' of None \<Rightarrow> False | Some h \<Rightarrow> length h = length xs + length hs)"
proof -
  obtain ys where ys: "fed_to w (ss_id s) = Some ys" "length xs \<le> length ys" "take (length xs) ys = xs"
    using s by (auto split: option.splits)
  have h: "length (extend_history hs s) = length xs + length hs"
    "(if ss_stepped s then hs else extend_history hs s) = hs"
    using s by (auto simp: extend_history_def split: option.splits)
  define rq :: "('h, 'p, 't) span_request" where "rq = \<lparr>sr_hidden = hs, sr_prompts = ps, sr_hypo_ids = [], sr_per_layer = pli, sr_shared = [],
    sr_start = length xs, sr_max_length = (if ss_stepped s then None else Some max_length)\<rparr>"
  have "plain_span_request rq" using hs(1) plain by (simp add: rq_def plain_span_request_def)
  from exact_netD(1) [OF net ys(1) this] ys(2,3) hs(2) obtain w' where
    w': "net_step net (ss_id s) rq w = (Inr (drop (length xs) (F (ss_id s) (xs @ hs)), [], []), w')"
    "fed_to w' = (fed_to w)(ss_id s \<mapsto> xs @ hs)" by (auto simp: rq_def)
  have len: "length (drop (length xs) (F (ss_id s) (xs @ hs))) = length hs" using exact_netD(3) [OF net ys(1)] by simp
  show ?thesis
    using s h w' len
    by (simp add: session_step_def Let_def unflatten_shared_kv_def dict_of_def rq_def [symmetric])
qed

lemma span_loop_exact:
  assumes net: "exact_net net room F fed_to" and hs: "hs \<noteq> []" "length xs + length hs \<le> room"
    and plain: "dummy_slices (sa_prompts args)" "dummy_slices (sa_per_layer args)" "sa_hypo_ids args = []"
    and "sessions_ok F (fed_to w) xs ss" "distinct (map ss_id ss)" "covers_blocks (cl_num_blocks c) b ss"
    and "cl_sessions c = done @ ss" "cl_sessions c \<noteq> []" "cl_position c = length xs"
  shows "\<exists>ss' w'. span_loop net mr args (length done) b hs [] c w
      = Some (Inr (drop (length xs) (fold F (map ss_id ss) (xs @ hs))), c\<lparr>cl_sessions := done @ ss'\<rparr>, w')
    \<and> map ss_id ss' = map ss_id ss \<and> map ss_span ss' = map ss_span ss
    \<and> sessions_ok F (fed_to w') (xs @ hs) ss'
    \<and> (\<forall>sid. sid \<notin> ss_id ` set ss \<longrightarrow> fed_to w' sid = fed_to w sid)"
  using assms(2,3,7-)
proof (induction ss arbitrary: xs hs b c w "done")
  case Nil
  then show ?case by (subst span_loop.simps) (simp add: Nil.prems(6))
next
  case (Cons s ss)
  note ok = Cons.prems(3)
  have slices: "dummy_slices (span_slice sp ps)" if "dummy_slices ps" for sp :: remote_span and ps :: "'x list list option"
    using that by (auto simp: dummy_slices_def span_slice_def py_slice_def Let_def split: option.splits dest: in_set_takeD in_set_dropD)
  obtain s' w1 where step: "session_step net (cl_max_length c) hs (span_slice (ss_span s) (sa_prompts args)) []
        (span_slice (ss_span s) (sa_per_layer args)) [] s w = (Inr (drop (length xs) (F (ss_id s) (xs @ hs)), []), s', w1)"
    and w1: "fed_to w1 = (fed_to w)(ss_id s \<mapsto> xs @ hs)" and s': "ss_id s' = ss_id s" "ss_span s' = ss_span s"
      "\<not> ss_closed s'" "ss_position s' = length xs + length hs" "ss_stepped s'"
      "case ss_history s' of None \<Rightarrow> False | Some h \<Rightarrow> length h = length xs + length hs"
    using session_step_exact [OF net ok Cons.prems(1,2) slices [OF plain(1)] slices [OF plain(2)]] by blast
  obtain zs where zs: "fed_to w (ss_id s) = Some zs" using ok by (auto split: option.splits)
  let ?outs = "drop (length xs) (F (ss_id s) (xs @ hs))"
  let ?c1 = "c\<lparr>cl_sessions := (cl_sessions c)[length done := s']\<rparr>"
  let ?w2 = "net_success net (rs_peer_id (ss_span s)) w1"
  have cs: "cl_sessions c = done @ s # ss" by (rule Cons.prems(6))
  have try_ok: "try_span net args (length done) b 0 hs [] c w
      = (Inr (?outs, [], ss_span s), Some (rs_peer_id (ss_span s)), ?c1, w1)"
    using step ok cs Cons.prems(7,8) plain(3) by (simp add: try_span_def Let_def)
  have att: "attempts net mr args (length done) b 0 hs [] c w = Some (Inr (?outs, [], ss_span s), ?c1, ?w2)"
    by (subst attempts.simps) (simp add: try_ok)
  have fx: "length (F (ss_id s) xs) = length xs" using exact_netD(3) [OF net zs] by simp
  have joined: "F (ss_id s) xs @ ?outs = F (ss_id s) (xs @ hs)"
    using exact_netD(4) [OF net zs, of "length xs" xs hs] fx append_take_drop_id [of "length xs" "F (ss_id s) (xs @ hs)"] by simp
  have outs: "?outs \<noteq> []" "length (F (ss_id s) xs) + length ?outs \<le> room"
    using Cons.prems(1,2) exact_netD(3) [OF net zs] by auto
  have fed2: "fed_to ?w2 = (fed_to w)(ss_id s \<mapsto> xs @ hs)" using exact_netD(2) [OF net] w1 by simp
  have fresh: "ss_id s \<notin> ss_id ` set ss" using Cons.prems(4) by simp
  have rest: "sessions_ok F (fed_to ?w2) (F (ss_id s) xs) ss"
    using ok unfolding fed2 sessions_ok_other [OF fresh] by simp
  have c1: "cl_sessions ?c1 = (done @ [s']) @ ss" using cs by simp
  from Cons.IH [OF outs rest _ _ c1, of "nat (rs_end (ss_span s))"] Cons.prems(4,5,8) fx c1
  obtain ss' w' where
    r: "span_loop net mr args (length (done @ [s'])) (nat (rs_end (ss_span s))) ?outs [] ?c1 ?w2
      = Some (Inr (drop (length (F (ss_id s) xs)) (fold F (map ss_id ss) (F (ss_id s) (xs @ hs)))), ?c1\<lparr>cl_sessions := (done @ [s']) @ ss'\<rparr>, w')"
    and ss': "map ss_id ss' = map ss_id ss" "map ss_span ss' = map ss_span ss" "sessions_ok F (fed_to w') (F (ss_id s) (xs @ hs)) ss'"
      "\<forall>sid. sid \<notin> ss_id ` set ss \<longrightarrow> fed_to w' sid = fed_to ?w2 sid"
    unfolding joined by auto
  have loop: "span_loop net mr args (length done) b hs [] c w
    = Some (Inr (drop (length xs) (fold F (map ss_id (s # ss)) (xs @ hs))), c\<lparr>cl_sessions := done @ s' # ss'\<rparr>, w')"
    using att r fx Cons.prems(5) by (subst span_loop.simps) simp
  have fs: "fed_to w' (ss_id s) = Some (xs @ hs)" using ss'(4) fresh fed2 by simp
  have ok': "sessions_ok F (fed_to w') (xs @ hs) (s' # ss')"
    using s' ss'(3) fs by (auto split: option.splits)
  have others: "\<forall>sid. sid \<notin> ss_id ` set (s # ss) \<longrightarrow> fed_to w' sid = fed_to w sid"
    using ss'(4) fed2 by auto
  show ?case
    by (rule exI [of _ "s' # ss'"], rule exI [of _ w']) (use loop ok' others s'(1,2) ss'(1,2) in simp)
qed

text \<open>A session of a client: each time possibly a step back, then new tokens.\<close>

fun client_run ::
  "('h, 'p, 't, 'w) net \<Rightarrow> nat option \<Rightarrow> nat \<Rightarrow> ('h, 'p) step_args \<Rightarrow> (nat option \<times> 'h list) list \<Rightarrow> 'h client \<Rightarrow> 'w
   \<Rightarrow> ('h list list res \<times> 'h client \<times> 'w) option" where
  "client_run net mr batch args [] c w = Some (Inr [], c, w)"
| "client_run net mr batch args ((start, hs) # ops) c w =
     (case (case start of None \<Rightarrow> (Inr (), c) | Some p \<Rightarrow> set_position p c) of
        (Inl e, c1) \<Rightarrow> Some (Inl e, c1, w)
      | (Inr _, c1) \<Rightarrow>
          Option.bind (client_step net mr batch args hs c1 w) (\<lambda>(r, c2, w2).
          case r of
            Inl e \<Rightarrow> Some (Inl e, c2, w2)
          | Inr out \<Rightarrow>
              Option.bind (client_run net mr batch args ops c2 w2) (\<lambda>(r, c3, w3).
                Some (case r of Inl e \<Rightarrow> Inl e | Inr outs \<Rightarrow> Inr (out # outs), c3, w3))))"

definition fed_after :: "'h list \<Rightarrow> nat option \<times> 'h list \<Rightarrow> 'h list" where
  "fed_after xs oper = take (case fst oper of None \<Rightarrow> length xs | Some p \<Rightarrow> p) xs @ snd oper"

fun admissible_ops :: "nat \<Rightarrow> 'h list \<Rightarrow> (nat option \<times> 'h list) list \<Rightarrow> bool" where
  "admissible_ops room xs [] \<longleftrightarrow> True"
| "admissible_ops room xs (oper # ops) \<longleftrightarrow>
     (case fst oper of None \<Rightarrow> True | Some p \<Rightarrow> p \<le> length xs) \<and> snd oper \<noteq> []
     \<and> length (fed_after xs oper) \<le> room \<and> admissible_ops room (fed_after xs oper) ops"

fun expected_ops :: "('h list \<Rightarrow> 'h list) \<Rightarrow> 'h list \<Rightarrow> (nat option \<times> 'h list) list \<Rightarrow> 'h list list" where
  "expected_ops f xs [] = []"
| "expected_ops f xs (oper # ops) =
     drop (length (fed_after xs oper) - length (snd oper)) (f (fed_after xs oper)) # expected_ops f (fed_after xs oper) ops"

lemma set_sessions_position_ok:
  assumes net: "exact_net net room F fed_to" and "sessions_ok F (fed_to w) xs ss" "p \<le> length xs"
  shows "\<exists>ss'. set_sessions_position p ss = (Inr (), ss') \<and> map ss_id ss' = map ss_id ss \<and> map ss_span ss' = map ss_span ss
    \<and> sessions_ok F (fed_to w) (take p xs) ss'"
  using assms(2,3)
proof (induction ss arbitrary: xs)
  case (Cons s ss)
  obtain ys where ys: "fed_to w (ss_id s) = Some ys" "length xs \<le> length ys" "take (length xs) ys = xs"
    and s: "\<not> ss_closed s" "ss_position s = length xs"
      "case ss_history s of None \<Rightarrow> xs = [] | Some h \<Rightarrow> length h = length xs \<and> ss_stepped s"
      "sessions_ok F (fed_to w) (F (ss_id s) xs) ss"
    using Cons.prems(1) by (auto split: option.splits)
  have fl: "length (F (ss_id s) zs) = length zs" for zs using exact_netD(3) [OF net ys(1)] .
  have ft: "take p (F (ss_id s) xs) = F (ss_id s) (take p xs)"
    using exact_netD(4) [OF net ys(1), of p "take p xs" "drop p xs"] fl [of "take p xs"] Cons.prems(2) by simp
  obtain ss' where ss': "set_sessions_position p ss = (Inr (), ss')" "map ss_id ss' = map ss_id ss" "map ss_span ss' = map ss_span ss"
    "sessions_ok F (fed_to w) (F (ss_id s) (take p xs)) ss'"
    using Cons.IH [OF s(4)] Cons.prems(2) fl ft by auto
  obtain s' where s': "set_session_position p s = Inr s'" "ss_id s' = ss_id s" "ss_span s' = ss_span s" "\<not> ss_closed s'"
    "ss_position s' = p" "case ss_history s' of None \<Rightarrow> take p xs = [] | Some h \<Rightarrow> length h = p \<and> ss_stepped s'"
    using s Cons.prems(2) by (auto simp: set_session_position_def split: option.splits if_splits)
  have "take p ys = take p xs" using ys(3) Cons.prems(2) by (metis min_def take_take)
  then have "sessions_ok F (fed_to w) (take p xs) (s' # ss')"
    using s' ss'(4) ys Cons.prems(2) by (auto split: option.splits)
  then show ?case using s' ss' by simp
qed simp

lemma covers_blocks_spans: "map ss_span ss = map ss_span ss' \<Longrightarrow> covers_blocks n b ss = covers_blocks n b ss'"
proof (induction ss arbitrary: b ss')
  case (Cons s ss)
  then obtain t ts where "ss' = t # ts" "ss_span t = ss_span s" "map ss_span ss = map ss_span ts" by (cases ss') auto
  then show ?case using Cons.IH by simp
qed simp

lemma sessions_fed: "sessions_ok F f xs ss \<Longrightarrow> sid \<in> ss_id ` set ss \<Longrightarrow> f sid \<noteq> None"
  by (induction ss arbitrary: xs) (auto split: option.splits)

text \<open>What the servers of a connected client compute together is causal.\<close>

lemma connected_causal:
  assumes net: "exact_net net room F fed_to" and con: "connected F fed_to sids xs c w"
  shows "length (fold F sids zs) = length zs"
    and "n \<le> length zs \<Longrightarrow> take n (fold F sids (zs @ ys)) = take n (fold F sids zs)"
proof -
  have fed: "\<exists>v. fed_to w sid = Some v" if "sid \<in> set sids" for sid
    using con that sessions_fed [of F "fed_to w" xs "cl_sessions c" sid] by (auto simp: connected_def)
  have len: "length (F sid us) = length us" if "sid \<in> set sids" for sid us
    using exact_netD(3) [OF net] fed [OF that] by blast
  have causal: "take n (F sid us) = take n (F sid (take n us))" if "sid \<in> set sids" for sid us n
    using exact_netD(4) [OF net, of w sid _ n "take n us" "drop n us"] fed [OF that] by (cases "n \<le> length us") auto
  have "set tids \<subseteq> set sids \<Longrightarrow> length (fold F tids us) = length us" for tids us
    by (induction tids arbitrary: us) (simp_all add: len)
  moreover have "set tids \<subseteq> set sids \<Longrightarrow> take n (fold F tids us) = take n (fold F tids (take n us))" for tids us n
  proof (induction tids arbitrary: us)
    case (Cons tid tids)
    then have "tid \<in> set sids" "set tids \<subseteq> set sids" by simp_all
    then show ?case using Cons.IH [of "F tid us"] Cons.IH [of "F tid (take n us)"] causal [of tid n us] by simp
  qed simp
  ultimately have all: "length (fold F sids us) = length us" "take n (fold F sids us) = take n (fold F sids (take n us))" for us n
    by simp_all
  show "length (fold F sids zs) = length zs" by (rule all(1))
  show "take n (fold F sids (zs @ ys)) = take n (fold F sids zs)" if "n \<le> length zs"
    using all(2) [of n "zs @ ys"] all(2) [of n zs] that by simp
qed

lemma client_step_exact:
  assumes net: "exact_net net (cl_max_length c) F fed_to" and con: "connected F fed_to sids xs c w"
    and hs: "hs \<noteq> []" "length xs + length hs \<le> cl_max_length c"
    and plain: "dummy_slices (sa_prompts args)" "dummy_slices (sa_per_layer args)" "sa_hypo_ids args = []"
  shows "\<exists>c' w'. client_step net mr batch args hs c w = Some (Inr (drop (length xs) (fold F sids (xs @ hs))), c', w')
    \<and> connected F fed_to sids (xs @ hs) c' w' \<and> cl_max_length c' = cl_max_length c"
proof -
  note con' = con [unfolded connected_def]
  have a: "args_ok (cl_num_blocks c) batch (length hs) args" using plain by (simp add: args_ok_def)
  from span_loop_exact [OF net hs plain, of w "cl_sessions c" c 0 "[]" mr] con'
  obtain ss' w' where loop: "span_loop net mr args 0 0 hs [] c w
      = Some (Inr (drop (length xs) (fold F sids (xs @ hs))), c\<lparr>cl_sessions := ss'\<rparr>, w')"
    and ss': "map ss_id ss' = sids" "map ss_span ss' = map ss_span (cl_sessions c)" "sessions_ok F (fed_to w') (xs @ hs) ss'"
    by auto
  have len: "length (fold F sids (xs @ hs)) = length xs + length hs" using connected_causal(1) [OF net con] by simp
  have "ss' \<noteq> []" using ss'(1) con' by auto
  then have "connected F fed_to sids (xs @ hs) (c\<lparr>cl_sessions := ss', cl_position := length xs + length hs\<rparr>) w'"
    using con' ss' covers_blocks_spans [OF ss'(2)] by (auto simp: connected_def)
  then show ?thesis using con' a hs loop len by (auto simp: client_step_def)
qed

lemma set_position_exact:
  assumes net: "exact_net net room F fed_to" and con: "connected F fed_to sids xs c w" and p: "p \<le> length xs"
  shows "\<exists>c'. set_position p c = (Inr (), c') \<and> connected F fed_to sids (take p xs) c' w \<and> cl_max_length c' = cl_max_length c"
proof -
  note con' = con [unfolded connected_def]
  obtain ss' where ss': "set_sessions_position p (cl_sessions c) = (Inr (), ss')" "map ss_id ss' = map ss_id (cl_sessions c)"
    "map ss_span ss' = map ss_span (cl_sessions c)" "sessions_ok F (fed_to w) (take p xs) ss'"
    using set_sessions_position_ok [OF net _ p] con' by blast
  then have "ss' \<noteq> []" using con' by auto
  then show ?thesis using con' ss' p covers_blocks_spans [OF ss'(3)]
    by (auto simp: set_position_def connected_def)
qed

lemma client_run_exact:
  assumes net: "exact_net net limit F fed_to"
    and plain: "dummy_slices (sa_prompts args)" "dummy_slices (sa_per_layer args)" "sa_hypo_ids args = []"
    and "connected F fed_to sids xs c w" "cl_max_length c = limit" "admissible_ops limit xs ops"
  shows "\<exists>c' w'. client_run net mr batch args ops c w = Some (Inr (expected_ops (fold F sids) xs ops), c', w')"
  using assms(5-)
proof (induction ops arbitrary: xs c w)
  case (Cons oper ops)
  obtain start hs where o: "oper = (start, hs)" by force
  define p where "p = (case start of None \<Rightarrow> length xs | Some p \<Rightarrow> p)"
  have p: "p \<le> length xs" and hs: "hs \<noteq> []" and fed: "fed_after xs oper = take p xs @ hs"
    using Cons.prems(3) o by (auto simp: p_def fed_after_def split: option.splits)
  have len: "length (take p xs) + length hs \<le> limit" and adm: "admissible_ops limit (take p xs @ hs) ops"
    using Cons.prems(3) fed o by auto
  have "\<exists>c1. (case start of None \<Rightarrow> (Inr (), c) | Some p \<Rightarrow> set_position p c) = (Inr (), c1)
    \<and> connected F fed_to sids (take p xs) c1 w \<and> cl_max_length c1 = limit"
    using Cons.prems(1,2) set_position_exact [OF net Cons.prems(1), of p] p
    by (cases start) (auto simp: p_def)
  then obtain c1 where c1: "(case start of None \<Rightarrow> (Inr (), c) | Some p \<Rightarrow> set_position p c) = (Inr (), c1)"
    "connected F fed_to sids (take p xs) c1 w" "cl_max_length c1 = limit" by blast
  have net1: "exact_net net (cl_max_length c1) F fed_to" using net c1(3) by simp
  from client_step_exact [OF net1 c1(2) hs _ plain, of mr batch] len c1(3) obtain c2 w2 where
    step: "client_step net mr batch args hs c1 w = Some (Inr (drop (length (take p xs)) (fold F sids (take p xs @ hs))), c2, w2)"
    and c2: "connected F fed_to sids (take p xs @ hs) c2 w2" "cl_max_length c2 = limit" by auto
  from Cons.IH [OF c2 adm] obtain c' w' where
    "client_run net mr batch args ops c2 w2 = Some (Inr (expected_ops (fold F sids) (take p xs @ hs) ops), c', w')" by blast
  then show ?case using c1(1) step fed p by (simp add: o)
qed simp

end
