(* ===== verification/Swarm_Session.thy ===== *)
theory Swarm_Session
  imports Inference_Session_Correct
begin

text \<open>
  Client and servers together: a client whose sessions run on servers, each with its own request
  loop, blocks and contiguous caches. The world holds, per session, the state of the server's cache
  and what it has been fed; a request of the client becomes a step of \<open>iterate_rpc_inference\<close>.
\<close>

section \<open>Servers as the network of a client\<close>

text \<open>The request on the wire: shared keys and values flattened, the position always present.\<close>

definition wire_request :: "nat \<Rightarrow> ('h, 'p, 't) span_request \<Rightarrow> ('h, 'p, 't) step_request" where
  "wire_request rows rq =
     \<lparr>rq_batch = rows, rq_hidden = sr_hidden rq, rq_prompts = sr_prompts rq, rq_hypo_ids = sr_hypo_ids rq,
      rq_hypo_int64 = True, rq_per_layer = sr_per_layer rq, rq_shared_tensors = snd (flatten_shared_kv (sr_shared rq)),
      rq_start = Some (int (sr_start rq)), rq_shared_keys = fst (flatten_shared_kv (sr_shared rq))\<rparr>"

type_synonym ('h, 'a) world = "nat \<Rightarrow> ('a cache \<times> 'h list) option"

definition server_net ::
  "('h \<Rightarrow> 'h \<Rightarrow> 'h) \<Rightarrow> nat \<Rightarrow> (nat \<Rightarrow> ('h, 'p, 't, 'a cache) span_server) \<Rightarrow> ('h, 'p, 't, ('h, 'a) world) net
   \<Rightarrow> ('h, 'p, 't, ('h, 'a) world) net" where
  "server_net addf rows servers base =
     base\<lparr>net_success := (\<lambda>_ w. w),
          net_step := (\<lambda>sid rq w.
            case w sid of
              None \<Rightarrow> (Inl GenericException, w)
            | Some (st, xs) \<Rightarrow>
                (case rpc_inference_step addf (servers sid) (int (length xs)) (wire_request rows rq) st of
                   (Inl e, st') \<Rightarrow> (Inl e, w(sid \<mapsto> (st', xs)))
                 | (Inr (resp, _), st') \<Rightarrow>
                     (Inr (resp_hidden resp, resp_shared_keys resp, resp_shared_tensors resp),
                      w(sid \<mapsto> (st', take (sr_start rq) xs @ sr_hidden rq)))))\<rparr>"

text \<open>A server whose blocks run the model's blocks on contiguous caches, with room for the client's sequence.\<close>

definition server_fits ::
  "'a \<Rightarrow> nat \<Rightarrow> nat \<Rightarrow> (string \<Rightarrow> (backend \<times> ('h, 'a tensor list, 'p, 't) module) option) \<Rightarrow> ('h, 'p, 't, 'a cache) span_server \<Rightarrow> bool" where
  "server_fits zero rows limit served sv \<longleftrightarrow>
     sv_steps sv = cache_steps zero rows served \<and> sv_blocks sv \<noteq> [] \<and> distinct (sv_blocks sv) \<and> 0 < rows
     \<and> (\<forall>b \<in> set (sv_blocks sv). sb_donor_types b = []) \<and> sv_max_length sv = limit \<and> rows * limit \<le> sv_max_batch_size sv"

definition fed_by ::
  "'a \<Rightarrow> nat \<Rightarrow> nat \<Rightarrow> (string \<Rightarrow> (backend \<times> ('h, 'a tensor list, 'p, 't) module) option)
   \<Rightarrow> (string \<Rightarrow> ('h, 'a) block_meaning) \<Rightarrow> (string \<Rightarrow> 'a tensor list) \<Rightarrow> (nat \<Rightarrow> ('h, 'p, 't, 'a cache) span_server)
   \<Rightarrow> ('h, 'a) world \<Rightarrow> nat \<Rightarrow> 'h list option" where
  "fed_by zero rows limit served blk start servers w sid =
     (case w sid of
        None \<Rightarrow> None
      | Some (st, xs) \<Rightarrow>
          let bs = sv_blocks (servers sid) in
          if server_fits zero rows limit served (servers sid)
             \<and> chain_keeps (cache_keeps zero rows limit served blk start bs) (block_sem blk start) bs st xs
          then Some xs else None)"

definition server_sem :: "(string \<Rightarrow> ('h, 'a) block_meaning) \<Rightarrow> (string \<Rightarrow> 'a tensor list)
   \<Rightarrow> (nat \<Rightarrow> ('h, 'p, 't, 'a cache) span_server) \<Rightarrow> nat \<Rightarrow> 'h list \<Rightarrow> 'h list" where
  "server_sem blk start servers sid = chain_sem (block_sem blk start) (sv_blocks (servers sid))"

lemma wire_plain:
  "plain_span_request rq \<Longrightarrow> plain (wire_request rows rq)"
  by (simp add: plain_span_request_def plain_def wire_request_def flatten_shared_kv_def)

lemma server_net_exact:
  fixes servers :: "nat \<Rightarrow> ('h, 'p, 't, 'a cache) span_server"
  shows "exact_net (server_net addf rows servers base) limit (server_sem blk start servers)
      (fed_by zero rows limit served blk start servers)"
proof -
  let ?fed = "fed_by zero rows limit served blk start servers"
  let ?net = "server_net addf rows servers base"
  have keep: "server_fits zero rows limit served (servers sid)
      \<and> (\<exists>st. w sid = Some (st, xs)
        \<and> chain_keeps (cache_keeps zero rows limit served blk start (sv_blocks (servers sid))) (block_sem blk start) (sv_blocks (servers sid)) st xs)"
    if "?fed w sid = Some xs" for w sid xs
    using that by (auto simp: fed_by_def Let_def split: option.splits if_splits)
  have step: "\<exists>w'. net_step ?net sid rq w
        = (Inr (drop (sr_start rq) (server_sem blk start servers sid (take (sr_start rq) xs @ sr_hidden rq)), [], []), w')
      \<and> ?fed w' = (?fed w)(sid \<mapsto> take (sr_start rq) xs @ sr_hidden rq)"
    if f: "?fed w sid = Some xs" and rq: "plain_span_request rq" "sr_start rq \<le> length xs" "sr_start rq + length (sr_hidden rq) \<le> limit"
    for w sid xs and rq :: "('h, 'p, 't) span_request"
  proof -
    let ?sv = "servers sid" and ?rq = "wire_request rows rq" and ?ys = "take (sr_start rq) xs @ sr_hidden rq"
    from keep [OF f] obtain st where fits: "server_fits zero rows limit served ?sv" and st: "w sid = Some (st, xs)"
      and ck: "chain_keeps (cache_keeps zero rows limit served blk start (sv_blocks ?sv)) (block_sem blk start) (sv_blocks ?sv) st xs"
      by blast
    note fits' = fits [unfolded server_fits_def]
    have fed: "fed xs ?rq = ?ys" by (simp add: fed_def wire_request_def)
    have len: "length ?ys = sr_start rq + length (sr_hidden rq)" using rq(2) by simp
    have small: "rows * length (sr_hidden rq) \<le> sv_max_batch_size ?sv"
    proof -
      have "rows * length (sr_hidden rq) \<le> rows * limit" using rq(3) by (intro mult_le_mono2) simp
      then show ?thesis using fits' by linarith
    qed
    from cached.step_chain [of ?sv zero rows served "sv_blocks ?sv" limit rows ?rq xs blk start st addf]
    obtain resp st' where r: "rpc_inference_step addf ?sv (int (length xs)) ?rq st = (Inr (resp, int (length ?ys)), st')"
      "resp_hidden resp = drop (length ?ys - length (sr_hidden rq)) (chain_sem (block_sem blk start) (sv_blocks ?sv) ?ys)"
      "chain_keeps (cache_keeps zero rows limit served blk start (sv_blocks ?sv)) (block_sem blk start) (sv_blocks ?sv) st' ?ys"
      "resp_shared_keys resp = []" "resp_shared_tensors resp = []"
      using fits' wire_plain [OF rq(1), of rows] rq len small ck unfolding fed by (auto simp: wire_request_def)
    let ?w' = "w(sid \<mapsto> (st', ?ys))"
    have "net_step ?net sid rq w = (Inr (drop (sr_start rq) (server_sem blk start servers sid ?ys), [], []), ?w')"
      using st r len by (simp add: server_net_def server_sem_def)
    moreover have "?fed ?w' = (?fed w)(sid \<mapsto> ?ys)"
      using fits r(3) by (auto simp: fed_by_def Let_def fun_eq_iff)
    ultimately show ?thesis by blast
  qed
  have len: "length (server_sem blk start servers sid xs) = length xs" if f: "?fed w sid = Some zs" for w sid zs xs
  proof -
    from keep [OF f] obtain st where
      "chain_keeps (cache_keeps zero rows limit served blk start (sv_blocks (servers sid))) (block_sem blk start) (sv_blocks (servers sid)) st zs"
      by blast
    from cached.chain_sem_length [OF subset_refl this] show ?thesis by (simp add: server_sem_def)
  qed
  have causal: "take n (server_sem blk start servers sid (xs @ ys)) = take n (server_sem blk start servers sid xs)"
    if f: "?fed w sid = Some zs" and n: "n \<le> length xs" for w sid zs xs ys n
  proof -
    from keep [OF f] obtain st where
      "chain_keeps (cache_keeps zero rows limit served blk start (sv_blocks (servers sid))) (block_sem blk start) (sv_blocks (servers sid)) st zs"
      by blast
    from cached.chain_sem_causal [OF subset_refl this n] show ?thesis by (simp add: server_sem_def)
  qed
  have success: "?fed (net_success ?net p w) = ?fed w" for w p by (simp add: server_net_def)
  show ?thesis unfolding exact_net_def using step len causal success by blast
qed

section \<open>The session of a client\<close>

lemma fold_server_sem:
  "fold (server_sem blk start servers) sids xs = chain_sem (block_sem blk start) (concat (map (\<lambda>sid. sv_blocks (servers sid)) sids)) xs"
  by (induction sids arbitrary: xs) (simp_all add: server_sem_def chain_sem_def)

text \<open>C1. Distributed inference is exact: a client connected to servers that together hold the model's
  blocks may feed its tokens in any steps and step back to any earlier position; every step
  succeeds within the reserved length, and returns the outputs the composition of all blocks of all
  its servers gives to the new tokens in the sequence fed so far, although each server only ever
  computes the new tokens against its own cache.\<close>

theorem swarm_session_exact:
  fixes servers :: "nat \<Rightarrow> ('h, 'p, 't, 'a cache) span_server"
  assumes "connected (server_sem blk start servers) (fed_by zero rows (cl_max_length c) served blk start servers) sids [] c w"
    and "dummy_slices (sa_prompts args)" "dummy_slices (sa_per_layer args)" "sa_hypo_ids args = []"
    and "admissible_ops (cl_max_length c) [] ops"
  shows "\<exists>c' w'. client_run (server_net addf rows servers base) max_retries batch args ops c w
    = Some (Inr (expected_ops (chain_sem (block_sem blk start) (concat (map (\<lambda>sid. sv_blocks (servers sid)) sids))) [] ops), c', w')"
  using client_run_exact [OF server_net_exact assms(2-4,1) refl assms(5), of addf base max_retries batch]
  by (simp add: fold_server_sem [abs_def])

text \<open>Two servers with two blocks each.\<close>

definition two_world :: "(int, int) world" where
  "two_world sid = (if sid < 2 then Some (two_cache, []) else None)"

definition two_client :: "int client" where
  "two_client = (new_client 4 4)\<lparr>cl_sessions :=
     [new_session \<lparr>rs_peer_id = ''P'', rs_start = 0, rs_end = 2, rs_server_info = sample_info ONLINE 1\<rparr> 0,
      new_session \<lparr>rs_peer_id = ''Q'', rs_start = 2, rs_end = 4, rs_server_info = sample_info ONLINE 1\<rparr> 1]\<rparr>"

definition big_server :: "(int, unit, unit, int cache) span_server" where
  "big_server = two_server\<lparr>sv_max_batch_size := 4\<rparr>"

lemma two_world_fed:
  assumes "sid < 2"
  shows "fed_by 0 1 4 two_served (\<lambda>_. tensor_block) (\<lambda>_. flat_kv [] []) (\<lambda>_. big_server) two_world sid = Some []"
proof -
  note ready = two_server_ready [unfolded session_ready_def]
  have "server_fits 0 1 4 two_served big_server"
    using ready by (simp add: server_fits_def big_server_def two_server_def)
  moreover have "chain_keeps (cache_keeps 0 1 4 two_served (\<lambda>_. tensor_block) (\<lambda>_. flat_kv [] []) (sv_blocks two_server))
      (block_sem (\<lambda>_. tensor_block) (\<lambda>_. flat_kv [] [])) (sv_blocks two_server) two_cache []"
    using ready by (intro cached_chain_start) (simp add: two_server_def)
  ultimately show ?thesis using assms by (simp add: fed_by_def two_world_def big_server_def)
qed

lemma two_client_connected:
  "connected (server_sem (\<lambda>_. tensor_block) (\<lambda>_. flat_kv [] []) (\<lambda>_. big_server))
      (fed_by 0 1 (cl_max_length two_client) two_served (\<lambda>_. tensor_block) (\<lambda>_. flat_kv [] []) (\<lambda>_. big_server)) [0, 1] [] two_client two_world"
  using two_world_fed [of 0] two_world_fed [of 1]
  by (simp add: connected_def two_client_def new_client_def new_session_def server_sem_def chain_sem_def block_sem_def
      big_server_def two_server_def two_blocks_def tensor_block_def running_def)

theorem swarm_session_exact_witness:
  "\<exists>c' w'. client_run (server_net (+) 1 (\<lambda>_. big_server) undefined) None 1 no_args [(None, [1, 2]), (Some 1, [5])] two_client two_world
    = Some (Inr (expected_ops (chain_sem (block_sem (\<lambda>_. tensor_block) (\<lambda>_. flat_kv [] []))
        (concat (map (\<lambda>sid. sv_blocks big_server) [0, 1 :: nat]))) [] [(None, [1, 2]), (Some 1, [5])]), c', w')"
proof (rule swarm_session_exact [of _ _ "\<lambda>_. big_server", where served = two_served and zero = 0])
  show "connected (server_sem (\<lambda>_. tensor_block) (\<lambda>_. flat_kv [] []) (\<lambda>_. big_server))
      (fed_by 0 1 (cl_max_length two_client) two_served (\<lambda>_. tensor_block) (\<lambda>_. flat_kv [] []) (\<lambda>_. big_server)) [0, 1] [] two_client two_world"
    by (rule two_client_connected)
qed (simp_all add: no_args_def dummy_slices_def fed_after_def two_client_def new_client_def)

end
