(* ===== verification/Handler.thy ===== *)
theory Handler
  imports Block_Functions Data_Structures
begin

text \<open>
  Models \<open>src/drift/server/handler.py\<close>: what a connection handler checks and computes for each
  request, the sequence of steps of one inference session, and the queues through which several
  handler processes pass pushed activations to the process that owns a session. Protobuf and msgpack
  encoding are library code: a request is its decoded fields, metadata a dictionary of \<open>pyval\<close>s.
\<close>

section \<open>Checks\<close>

definition check_uids :: "string list \<Rightarrow> string \<Rightarrow> string list res" where
  "check_uids module_backends uids =
     (let us = split_on CHAIN_DELIMITER uids in
      if us = [] then Inl RuntimeError
      else if list_all (\<lambda>u. u \<in> set module_backends) us then Inr us else Inl RuntimeError)"

text \<open>A truthy adapter must be served; membership in \<open>None\<close> is a \<open>TypeError\<close>.\<close>

definition get_active_adapter :: "string list option \<Rightarrow> (string \<times> pyval) list \<Rightarrow> pyval res" where
  "get_active_adapter adapters metadata =
     (let a = vget metadata ''active_adapter'' (VStr []) in
      if \<not> truthy a then Inr a
      else case adapters of
        None \<Rightarrow> Inl TypeError
      | Some served \<Rightarrow> if a \<in> VStr ` set served then Inr a else Inl KeyError)"

fun is_number :: "pyval \<Rightarrow> bool" where
  "is_number (VBool _) = True"
| "is_number (VInt _) = True"
| "is_number (VFloat _) = True"
| "is_number VInf = True"
| "is_number VNaN = True"
| "is_number _ = False"

fun as_int :: "pyval \<Rightarrow> int option" where
  "as_int (VBool b) = Some (if b then 1 else 0)"
| "as_int (VInt i) = Some i"
| "as_int _ = None"

definition get_points :: "(string \<times> pyval) list \<Rightarrow> pyval res" where
  "get_points metadata =
     (let points = vget metadata ''points'' (VInt 0) in
      if is_number points then Inr points else Inl AssertionError)"

text \<open>\<open>float(x)\<close> on a metadata value; parsing a string is the parameter.\<close>

definition to_float :: "(string \<Rightarrow> pyval res) \<Rightarrow> pyval \<Rightarrow> pyval res" where
  "to_float parse v =
     (case v of
        VBool b \<Rightarrow> Inr (VFloat (if b then 1 else 0))
      | VInt i \<Rightarrow> Inr (VFloat (rat_of_int i))
      | VFloat r \<Rightarrow> Inr (VFloat r)
      | VInf \<Rightarrow> Inr VInf
      | VNaN \<Rightarrow> Inr VNaN
      | VStr s \<Rightarrow> parse s
      | _ \<Rightarrow> Inl TypeError)"

text \<open>The compression of each result: the client's choice, checked, or that of the schema.\<close>

definition output_compression :: "(string \<times> pyval) list \<Rightarrow> nat \<Rightarrow> int list \<Rightarrow> int list res" where
  "output_compression metadata n schema =
     (case vget metadata ''output_compression'' VNone of
        VNone \<Rightarrow> Inr schema
      | VList vs \<Rightarrow>
          if list_all (\<lambda>v. as_int v \<noteq> None) vs \<and> length vs = n
          then Inr (map (\<lambda>v. the (as_int v)) vs) else Inl AssertionError
      | _ \<Rightarrow> Inl AssertionError)"

definition serialize_outputs :: "(string \<times> pyval) list \<Rightarrow> int list \<Rightarrow> 'r \<Rightarrow> ('r \<times> int) list res" where
  "serialize_outputs metadata schema hidden =
     rbind (output_compression metadata 1 schema) (\<lambda>cs. Inr (zip (take (length schema) [hidden]) cs))"

text \<open>The gradient schema repeats that of the arguments, one per gradient, followed by that of the keywords.\<close>

definition serialize_grads :: "(string \<times> pyval) list \<Rightarrow> int list \<Rightarrow> int list \<Rightarrow> 'r list \<Rightarrow> ('r \<times> int) list res" where
  "serialize_grads metadata args_schema kwargs_schema grads =
     (if length args_schema = 1 \<and> length grads \<in> {1, 2}
      then
        let schema = concat (replicate (length grads) args_schema) @ kwargs_schema in
        rbind (output_compression metadata (length grads) schema) (\<lambda>cs. Inr (zip (take (length schema) grads) cs))
      else Inl AssertionError)"

section \<open>Forward and backward requests\<close>

record 'h forward_request =
  fr_uid :: string
  fr_metadata :: "(string \<times> pyval) list"
  fr_batch :: nat
  fr_inputs :: "'h list"
  fr_prompts :: "'h list list option"

text \<open>The backends of a server with their output and argument schemas.\<close>

record 'h served_module =
  sm_functions :: "'h block_functions"
  sm_outputs_schema :: "int list"
  sm_args_schema :: "int list"
  sm_kwargs_schema :: "int list"

definition prepare_request ::
  "(string, 'h served_module) dict \<Rightarrow> string list option \<Rightarrow> string \<Rightarrow> (string \<times> pyval) list \<Rightarrow> 'h served_module list res" where
  "prepare_request modules adapters uid metadata =
     rbind (check_uids (map fst modules) uid) (\<lambda>us.
     rbind (rmap (dict_get modules) us) (\<lambda>ms.
     rbind (get_active_adapter adapters metadata) (\<lambda>_.
     rbind (get_points metadata) (\<lambda>_. Inr ms))))"

definition rpc_forward ::
  "('h \<Rightarrow> 'h \<Rightarrow> 'h) \<Rightarrow> (string, 'h served_module) dict \<Rightarrow> string list option \<Rightarrow> 'h forward_request \<Rightarrow> ('h list \<times> int) list res" where
  "rpc_forward addf modules adapters rq =
     rbind (prepare_request modules adapters (fr_uid rq) (fr_metadata rq)) (\<lambda>ms.
     rbind (run_rpc_forward addf (fr_batch rq) (map sm_functions ms) (fr_inputs rq) (fr_prompts rq)) (\<lambda>h.
     serialize_outputs (fr_metadata rq) (sm_outputs_schema (last ms)) h))"

text \<open>The gradients as tensors: that of the inputs, and those of the prompts unless there are none.\<close>

definition grad_tensors :: "'h list \<times> 'h list list \<Rightarrow> 'h list list list" where
  "grad_tensors gs = (case gs of (g, []) \<Rightarrow> [[g]] | (g, ps) \<Rightarrow> if concat ps = [] then [[g]] else [[g], ps])"

definition rpc_backward ::
  "('h \<Rightarrow> 'h \<Rightarrow> 'h) \<Rightarrow> (string, 'h served_module) dict \<Rightarrow> string list option \<Rightarrow> 'h forward_request \<Rightarrow> 'h list
   \<Rightarrow> ('h list list \<times> int) list res" where
  "rpc_backward addf modules adapters rq grad_outputs =
     rbind (prepare_request modules adapters (fr_uid rq) (fr_metadata rq)) (\<lambda>ms.
     rbind (run_rpc_backward addf (fr_batch rq) (map sm_functions ms) (fr_inputs rq) grad_outputs (fr_prompts rq)) (\<lambda>gs.
     serialize_grads (fr_metadata rq) (sm_args_schema (hd ms)) (sm_kwargs_schema (hd ms)) (grad_tensors gs)))"

text \<open>Streamed requests: every part must name the same blocks, and the first carries the metadata.\<close>

record 'a request_part =
  rp_uid :: string
  rp_metadata :: "(string \<times> pyval) list"
  rp_tensors :: "'a list"

definition gather_inputs :: "'a request_part list \<Rightarrow> (string \<times> 'a list \<times> (string \<times> pyval) list) res" where
  "gather_inputs parts =
     (case parts of
        [] \<Rightarrow> Inl AssertionError
      | p # _ \<Rightarrow>
          if list_all (\<lambda>q. rp_uid q = rp_uid p) parts
          then Inr (rp_uid p, concat (map rp_tensors parts), rp_metadata p)
          else Inl ValueError)"

text \<open>The streamed variants: inputs are gathered first, every result is split into parts.\<close>

definition rpc_forward_stream ::
  "('h \<Rightarrow> 'h \<Rightarrow> 'h) \<Rightarrow> ('h list \<Rightarrow> 'h list list) \<Rightarrow> (string, 'h served_module) dict \<Rightarrow> string list option
   \<Rightarrow> ('a list \<Rightarrow> (nat \<times> 'h list \<times> 'h list list option) res) \<Rightarrow> 'a request_part list \<Rightarrow> ('h list \<times> int) list res" where
  "rpc_forward_stream addf split modules adapters decode parts =
     rbind (gather_inputs parts) (\<lambda>(uid, tensors, metadata).
     rbind (prepare_request modules adapters uid metadata) (\<lambda>ms.
     rbind (decode tensors) (\<lambda>(batch, hidden, prompts).
     rbind (run_rpc_forward addf batch (map sm_functions ms) hidden prompts) (\<lambda>h.
     rbind (serialize_outputs metadata (sm_outputs_schema (last ms)) h) (\<lambda>outs.
     Inr (concat (map (\<lambda>(t, c). map (\<lambda>part. (part, c)) (split t)) outs)))))))"

definition rpc_backward_stream ::
  "('h \<Rightarrow> 'h \<Rightarrow> 'h) \<Rightarrow> ('h list list \<Rightarrow> 'h list list list) \<Rightarrow> (string, 'h served_module) dict \<Rightarrow> string list option
   \<Rightarrow> ('a list \<Rightarrow> (nat \<times> 'h list \<times> 'h list \<times> 'h list list option) res) \<Rightarrow> 'a request_part list
   \<Rightarrow> ('h list list \<times> int) list res" where
  "rpc_backward_stream addf split modules adapters decode parts =
     rbind (gather_inputs parts) (\<lambda>(uid, tensors, metadata).
     rbind (prepare_request modules adapters uid metadata) (\<lambda>ms.
     rbind (decode tensors) (\<lambda>(batch, inputs, grad_outputs, prompts).
     rbind (run_rpc_backward addf batch (map sm_functions ms) inputs grad_outputs prompts) (\<lambda>gs.
     rbind (serialize_grads metadata (sm_args_schema (hd ms)) (sm_kwargs_schema (hd ms)) (grad_tensors gs)) (\<lambda>outs.
     Inr (concat (map (\<lambda>(t, c). map (\<lambda>part. (part, c)) (split t)) outs)))))))"

section \<open>Opening a session\<close>

record session_params =
  sp_uids :: "string list"
  sp_max_length :: nat
  sp_points :: pyval
  sp_session_id :: pyval
  sp_alloc_timeout :: pyval
  sp_batch_size :: nat

text \<open>What \<open>rpc_inference\<close> checks before it allocates; \<open>sizes\<close> is the shape of the first tensor, if any.\<close>

definition open_inference ::
  "(string \<Rightarrow> pyval res) \<Rightarrow> string list \<Rightarrow> nat \<Rightarrow> string \<Rightarrow> (string \<times> pyval) list \<Rightarrow> nat list option \<Rightarrow> session_params res" where
  "open_inference parse module_backends inference_max_length uid metadata sizes =
     rbind (check_uids module_backends uid) (\<lambda>us.
     rbind (to_float parse (vget metadata ''alloc_timeout'' (VFloat 0))) (\<lambda>alloc_timeout.
     rbind (rassert (us \<noteq> []) ValueError) (\<lambda>_.
     rbind (case as_int (vget metadata ''max_length'' VNone) of None \<Rightarrow> Inl AssertionError | Some m \<Rightarrow> Inr m) (\<lambda>max_length.
     rbind (get_points metadata) (\<lambda>points.
     rbind (rassert (0 \<le> max_length \<and> max_length \<le> int inference_max_length) ValueError) (\<lambda>_.
     rbind (case sizes of None \<Rightarrow> Inr 1 | Some [] \<Rightarrow> Inl IndexError | Some (b # _) \<Rightarrow> Inr b) (\<lambda>batch_size.
     Inr \<lparr>sp_uids = us, sp_max_length = nat max_length, sp_points = points,
          sp_session_id = vget metadata ''session_id'' VNone, sp_alloc_timeout = alloc_timeout,
          sp_batch_size = batch_size\<rparr>)))))))"

text \<open>The handles of each backend: those of its descriptors, or its single slot in paged mode.\<close>

fun nested_pack :: "'a list \<Rightarrow> nat list \<Rightarrow> 'a list list" where
  "nested_pack hs [] = []"
| "nested_pack hs (n # ns) = take n hs # nested_pack (drop n hs) ns"

definition pack_handles :: "bool \<Rightarrow> int list \<Rightarrow> nat list \<Rightarrow> int list list" where
  "pack_handles paged handles descr_counts = (if paged then map (\<lambda>h. [h]) handles else nested_pack handles descr_counts)"

definition serve_blocks :: "string list \<Rightarrow> int list list \<Rightarrow> (string \<Rightarrow> string list) \<Rightarrow> served_block list" where
  "serve_blocks us handles donors = map (\<lambda>(u, hs). \<lparr>sb_uid = u, sb_handles = hs, sb_donor_types = donors u\<rparr>) (zip us handles)"

section \<open>The steps of a session\<close>

record 'r step_message =
  msg_body :: 'r
  msg_has_tensors :: bool
  msg_step_id :: "string option"
  msg_pushed :: bool

text \<open>What waiting for the next request can bring; the client's own stream wins a tie.\<close>

datatype 'r wait = From_Client "'r step_message" | From_Push "'r step_message" | Timed_Out

text \<open>The requests passed on to the computation, and how many pushes arrived after the client's copy.\<close>

fun iterate_inference_steps ::
  "string set \<Rightarrow> 'r step_message \<Rightarrow> 'r wait list \<Rightarrow> 'r step_message list \<times> nat" where
  "iterate_inference_steps seen m waits =
     (if \<not> msg_has_tensors m then ([], 0)
      else
        let fresh = (case msg_step_id m of None \<Rightarrow> True | Some i \<Rightarrow> i \<notin> seen);
            late = (if \<not> fresh \<and> msg_pushed m then 1 else 0);
            seen' = (case msg_step_id m of None \<Rightarrow> seen | Some i \<Rightarrow> insert i seen);
            (rest, n) = (case waits of
               From_Client m' # ws \<Rightarrow> iterate_inference_steps seen' m' ws
             | From_Push m' # ws \<Rightarrow> iterate_inference_steps seen' m' ws
             | _ \<Rightarrow> ([], 0)) in
        ((if fresh then [m] else []) @ rest, late + n))"

declare iterate_inference_steps.simps [simp del]

text \<open>
  \<open>rpc_inference\<close>: the checks, the allocation (which gives the handles or fails), and the loop over the
  steps that arrive. \<open>backends\<close> gives the server for the blocks of a request.
\<close>

definition rpc_inference ::
  "('h \<Rightarrow> 'h \<Rightarrow> 'h) \<Rightarrow> (string \<Rightarrow> pyval res) \<Rightarrow> string list \<Rightarrow> string list option \<Rightarrow> nat \<Rightarrow> bool \<Rightarrow> (string \<Rightarrow> nat)
   \<Rightarrow> (string \<Rightarrow> string list) \<Rightarrow> ('h, 'p, 't, 's) span_server \<Rightarrow> (session_params \<Rightarrow> 's \<Rightarrow> int list res \<times> 's)
   \<Rightarrow> string \<Rightarrow> (string \<times> pyval) list \<Rightarrow> nat list option \<Rightarrow> ('h, 'p, 't) step_request step_message
   \<Rightarrow> ('h, 'p, 't) step_request wait list \<Rightarrow> 's \<Rightarrow> (('h, 't) step_response list \<times> exn option) res \<times> 's" where
  "rpc_inference addf parse module_backends adapters inference_max_length paged descr_count donors backends alloc
     uid metadata sizes first waits s =
     (case open_inference parse module_backends inference_max_length uid metadata sizes of
        Inl e \<Rightarrow> (Inl e, s)
      | Inr p \<Rightarrow>
          (case alloc p s of
             (Inl e, s1) \<Rightarrow> (Inl e, s1)
           | (Inr handles, s1) \<Rightarrow>
               (case get_active_adapter adapters metadata of
                  Inl e \<Rightarrow> (Inl e, s1)
                | Inr _ \<Rightarrow>
                    let sv = backends\<lparr>sv_blocks := serve_blocks (sp_uids p)
                                 (pack_handles paged handles (map descr_count (sp_uids p))) donors,
                                      sv_max_length := sp_max_length p\<rparr>;
                        steps = map msg_body (fst (iterate_inference_steps {} first waits));
                        (resps, e, _, s2) = iterate_rpc_inference addf sv 0 steps s1 in
                    (Inr (resps, e), s2))))"

section \<open>Pushing outputs to the next server\<close>

record 'r push_request =
  pr_peer :: string
  pr_uid :: string
  pr_tensors :: "'r list"
  pr_metadata :: "(string \<times> pyval) list"

fun parse_next_server :: "pyval \<Rightarrow> (string \<times> string \<times> int \<times> int) option" where
  "parse_next_server (VList [VStr peer, VStr session_id, VInt a, VInt b]) = Some (peer, session_id, a, b)"
| "parse_next_server _ = None"

text \<open>\<open>_push_outputs\<close>: \<open>None\<close> when nothing is sent.\<close>

definition push_outputs ::
  "string \<Rightarrow> 'r list \<Rightarrow> 'r \<Rightarrow> (string \<times> pyval) list \<Rightarrow> 'r push_request option" where
  "push_outputs dht_prefix request_tensors output metadata =
     (case vget metadata ''next_servers'' VNone of
        VList (s # rest) \<Rightarrow>
          (case parse_next_server s of
             None \<Rightarrow> None
           | Some (peer, session_id, a, b) \<Rightarrow>
               Some \<lparr>pr_peer = peer,
                     pr_uid = join_on CHAIN_DELIMITER (map (\<lambda>i. block_uid dht_prefix (nat i)) (py_range a b)),
                     pr_tensors = output # tl request_tensors,
                     pr_metadata = AList.update ''pushed'' (VBool True)
                       (AList.update ''next_servers'' (VList rest) (AList.update ''session_id'' (VStr session_id) metadata))\<rparr>)
      | _ \<Rightarrow> None)"

section \<open>Server information\<close>

definition rpc_info ::
  "(string \<times> pyval) list \<Rightarrow> int \<Rightarrow> nat list \<Rightarrow> (string \<times> pyval) list option \<Rightarrow> (string \<times> pyval) list res" where
  "rpc_info common left cache_bytes_per_token block_info =
     (if cache_bytes_per_token = [] then Inl ValueError
      else if Max (set cache_bytes_per_token) = 0 then Inl ZeroDivisionError
      else
        let result = common @ [(''cache_tokens_available'', VInt (left div int (Max (set cache_bytes_per_token))))] in
        case block_info of
          None \<Rightarrow> Inr result
        | Some info \<Rightarrow>
            if fst ` set result \<inter> fst ` set info \<noteq> {} then Inl RuntimeError
            else Inr (fold (\<lambda>(k, v). AList.update k v) info result))"

section \<open>Session queues across handler processes\<close>

datatype 'r event = NEW_SESSION string nat | END_SESSION string nat | PUSH string 'r | SHUTDOWN

record 'r conn_handler =
  session_queues :: "(string, 'r list) dict"
  session_handlers :: "(string, nat) dict"
  event_queue :: "'r event list"
  listening :: bool

definition init_handler :: "'r conn_handler" where
  "init_handler = \<lparr>session_queues = [], session_handlers = [], event_queue = [], listening = True\<rparr>"

definition put_event :: "'r event \<Rightarrow> 'r conn_handler \<Rightarrow> 'r conn_handler" where
  "put_event e h = h\<lparr>event_queue := event_queue h @ [e]\<rparr>"

text \<open>An event sent to every handler but \<open>i\<close>.\<close>

definition broadcast :: "nat \<Rightarrow> 'r event \<Rightarrow> 'r conn_handler list \<Rightarrow> 'r conn_handler list" where
  "broadcast i e hs = map (\<lambda>j. if j = i then hs ! j else put_event e (hs ! j)) [0..<length hs]"

text \<open>Entering and leaving \<open>_managed_session\<close> in handler \<open>i\<close>.\<close>

definition enter_session :: "nat \<Rightarrow> string \<Rightarrow> 'r conn_handler list \<Rightarrow> unit res \<times> 'r conn_handler list" where
  "enter_session i sid hs =
     (if dict_has (session_queues (hs ! i)) sid then (Inl AssertionError, hs)
      else
        (Inr (), broadcast i (NEW_SESSION sid i)
          (hs[i := (hs ! i)\<lparr>session_queues := AList.update sid [] (session_queues (hs ! i)),
                           session_handlers := AList.update sid i (session_handlers (hs ! i))\<rparr>])))"

definition exit_session :: "nat \<Rightarrow> string \<Rightarrow> 'r conn_handler list \<Rightarrow> unit res \<times> 'r conn_handler list" where
  "exit_session i sid hs =
     (if \<not> dict_has (session_queues (hs ! i)) sid then (Inl KeyError, hs)
      else
        let h = (hs ! i)\<lparr>session_queues := AList.delete sid (session_queues (hs ! i))\<rparr> in
        if \<not> dict_has (session_handlers h) sid then (Inl KeyError, hs[i := h])
        else (Inr (), broadcast i (END_SESSION sid i)
               (hs[i := h\<lparr>session_handlers := AList.delete sid (session_handlers h)\<rparr>])))"

text \<open>\<open>rpc_push\<close> in handler \<open>i\<close>; a session another handler owns is forwarded to it.\<close>

definition put_into_session_queue :: "nat \<Rightarrow> string \<Rightarrow> 'r \<Rightarrow> 'r conn_handler list \<Rightarrow> unit res \<times> 'r conn_handler list" where
  "put_into_session_queue i sid r hs =
     (case map_of (session_handlers (hs ! i)) sid of
        None \<Rightarrow> (Inr (), hs)
      | Some j \<Rightarrow>
          if j = i
          then (case map_of (session_queues (hs ! i)) sid of
                  None \<Rightarrow> (Inl KeyError, hs)
                | Some q \<Rightarrow> (Inr (), hs[i := (hs ! i)\<lparr>session_queues := AList.update sid (q @ [r]) (session_queues (hs ! i))\<rparr>]))
          else if j < length hs then (Inr (), hs[j := put_event (PUSH sid r) (hs ! j)])
          else (Inl IndexError, hs))"

definition rpc_push ::
  "string list \<Rightarrow> nat \<Rightarrow> string \<Rightarrow> (string \<times> pyval) list \<Rightarrow> 'r \<Rightarrow> 'r conn_handler list \<Rightarrow> unit res \<times> 'r conn_handler list" where
  "rpc_push module_backends i uid metadata r hs =
     (case check_uids module_backends uid of
        Inl e \<Rightarrow> (Inl e, hs)
      | Inr _ \<Rightarrow>
          (case map_of metadata ''session_id'' of
             None \<Rightarrow> (Inl KeyError, hs)
           | Some (VStr sid) \<Rightarrow> put_into_session_queue i sid r hs
           | Some _ \<Rightarrow> (Inr (), hs)))"

text \<open>\<open>_get_from_session_queue\<close>: \<open>Inr None\<close> while the queue is empty and the task waits.\<close>

definition get_from_session_queue :: "nat \<Rightarrow> string \<Rightarrow> 'r conn_handler list \<Rightarrow> 'r option res \<times> 'r conn_handler list" where
  "get_from_session_queue i sid hs =
     (case map_of (session_handlers (hs ! i)) sid of
        None \<Rightarrow> (Inl KeyError, hs)
      | Some j \<Rightarrow>
          if j \<noteq> i then (Inl AssertionError, hs)
          else (case map_of (session_queues (hs ! i)) sid of
                  None \<Rightarrow> (Inl KeyError, hs)
                | Some [] \<Rightarrow> (Inr None, hs)
                | Some (r # q) \<Rightarrow> (Inr (Some r), hs[i := (hs ! i)\<lparr>session_queues := AList.update sid q (session_queues (hs ! i))\<rparr>])))"

text \<open>One event of the listener task.\<close>

definition handle_event :: "'r event \<Rightarrow> 'r conn_handler \<Rightarrow> 'r conn_handler" where
  "handle_event e h =
     (case e of
        NEW_SESSION sid j \<Rightarrow> h\<lparr>session_handlers := AList.update sid j (session_handlers h)\<rparr>
      | END_SESSION sid j \<Rightarrow> h\<lparr>session_handlers := AList.delete sid (session_handlers h)\<rparr>
      | PUSH sid r \<Rightarrow>
          (case map_of (session_queues h) sid of
             None \<Rightarrow> h
           | Some q \<Rightarrow> h\<lparr>session_queues := AList.update sid (q @ [r]) (session_queues h)\<rparr>)
      | SHUTDOWN \<Rightarrow> h\<lparr>listening := False\<rparr>)"

definition listen_once :: "'r conn_handler \<Rightarrow> 'r conn_handler" where
  "listen_once h =
     (case event_queue h of
        [] \<Rightarrow> h
      | e # es \<Rightarrow> if listening h then handle_event e (h\<lparr>event_queue := es\<rparr>) else h)"

end
