(* ===== verification/Block_Functions_Correct.thy ===== *)
theory Block_Functions_Correct
  imports Span_Session
begin

text \<open>
  Properties of the block computations: the backward pass is the chain rule, what the forward pass
  does with too few prompts, the bound every session keeps, and the two task pools on a span with a
  key/value donor.
\<close>

section \<open>Backward is the chain rule\<close>

text \<open>
  The chain rule on a chain of blocks: the gradient of the input and, for each block with a prompt,
  the gradient of its prompt.
\<close>

fun chain_rule ::
  "('h \<Rightarrow> 'h \<Rightarrow> 'h) \<Rightarrow> nat \<Rightarrow> ('h block_functions \<times> 'h list) list \<Rightarrow> 'h list \<Rightarrow> 'h list \<Rightarrow> ('h list \<times> 'h list list) res" where
  "chain_rule addf batch [] x grad = Inr (grad, [])"
| "chain_rule addf batch ((bf, prompt) # rest) x grad =
     rbind (with_prompt addf prompt x) (\<lambda>x'.
     rbind (if rest = [] then Inr (grad, [])
            else rbind (forward_block batch bf x') (\<lambda>y. chain_rule addf batch rest y grad)) (\<lambda>(g, gs).
     rbind (backward_block batch bf x' g) (\<lambda>g'.
     Inr (g', if prompt = [] then gs else take (length prompt) g' # gs))))"

lemma rbind_assoc: "rbind (rbind m f) g = rbind m (\<lambda>x. rbind (f x) g)"
  by (cases m) simp_all

lemma backward_chain_append:
  "backward_chain batch (xs @ ys) g gs = rbind (backward_chain batch xs g gs) (\<lambda>(g', gs'). backward_chain batch ys g' gs')"
  by (induction batch xs g gs rule: backward_chain.induct) (auto simp: rbind_assoc)

lemma inter_inputs_length: "inter_inputs addf batch bs x = Inr (xs, y) \<Longrightarrow> length xs = length bs"
  by (induction addf batch bs x arbitrary: xs y rule: inter_inputs.induct) (auto simp: res_simps)

text \<open>The forward inputs of a chain and the backward pass over them, as the code runs them.\<close>

lemma two_passes_chain_rule:
  assumes "bs \<noteq> []"
  shows "rbind (inter_inputs addf batch (butlast bs) x) (\<lambda>(xs, z).
           rbind (with_prompt addf (snd (last bs)) z) (\<lambda>z'.
           rbind (backward_chain batch (rev (zip (xs @ [z']) (map (\<lambda>(bf, p). (p, bf)) bs))) grad []) (\<lambda>(g, gs). Inr (g, rev gs))))
       = chain_rule addf batch bs x grad"
  using assms
proof (induction bs arbitrary: x)
  case (Cons bp bs)
  obtain bf p where bp: "bp = (bf, p)" by force
  show ?case
  proof (cases "bs = []")
    case True
    show ?thesis
      by (cases "with_prompt addf p x") (simp_all add: bp True rbind_assoc if_distrib [of rev] cong: if_cong)
  next
    case False
    show ?thesis
    proof (cases "with_prompt addf p x")
      case (Inl e)
      then show ?thesis using False by (simp add: bp)
    next
      case x': (Inr x')
      show ?thesis
      proof (cases "forward_block batch bf x'")
        case (Inl e)
        then show ?thesis using False x' by (simp add: bp)
      next
        case y: (Inr y)
        show ?thesis
          using False x' y
          by (simp add: bp Cons.IH [OF False, symmetric] rbind_assoc backward_chain_append case_prod_unfold cong: if_cong)
            (intro arg_cong [where f = "rbind _"] ext, simp add: rbind_assoc if_distrib cong: if_cong)
      qed
    qed
  qed
qed simp

text \<open>C24. The backward pass of a server is the chain rule: for prompts of one slice per block (or none),
  \<open>run_rpc_backward\<close> returns the gradient of the inputs obtained by going back through the blocks at
  their recomputed inputs, and the gradients of the prompts in the order of the blocks; an error is
  the first one met on the way.\<close>

theorem rpc_backward_chain_rule:
  assumes "backends \<noteq> []" "length (split_prompts (length backends) prompts) = length backends"
  shows "run_rpc_backward addf batch backends inputs grad_outputs prompts
    = chain_rule addf batch (zip backends (split_prompts (length backends) prompts)) inputs grad_outputs"
proof -
  let ?ps = "split_prompts (length backends) prompts"
  let ?bs = "zip backends ?ps"
  have ne: "?ps \<noteq> []" "?bs \<noteq> []" using assms by auto
  have bl: "zip (butlast backends) (butlast ?ps) = butlast ?bs" using assms(2) by (simp add: butlast_conv_take take_zip)
  have la: "snd (last ?bs) = last ?ps" using assms ne by (simp add: last_conv_nth)
  have sw: "map (\<lambda>(bf, p). (p, bf)) ?bs = zip ?ps backends" using assms(2) by (simp add: zip_commute [of ?ps])
  have len: "length xs = length backends - 1" if "inter_inputs addf batch (butlast ?bs) inputs = Inr (xs, z)" for xs z
    using inter_inputs_length [OF that] assms(2) by simp
  show ?thesis
    using assms ne len
    by (simp add: run_rpc_backward_def two_passes_chain_rule [OF ne(2), symmetric] bl la sw Let_def)
      (cases "inter_inputs addf batch (butlast ?bs) inputs", auto intro!: arg_cong [where f = "rbind _"])
qed

text \<open>Blocks that scale by a factor; their gradient scales by it too.\<close>

definition scale_block :: "int \<Rightarrow> int block_functions" where
  "scale_block k = \<lparr>bf_forward = (\<lambda>xs. Inr (map ((*) k) xs)), bf_backward = (\<lambda>xs g. Inr (map ((*) k) g)), bf_max_batch_size = 9\<rparr>"

theorem rpc_backward_chain_rule_witness:
  "run_rpc_backward (+) 1 [scale_block 2, scale_block 3] [1, 1] [1, 10] (Some [[5], [7]])
    = chain_rule (+) 1 (zip [scale_block 2, scale_block 3] (split_prompts (length [scale_block 2, scale_block 3]) (Some [[5], [7]]))) [1, 1] [1, 10]
   \<and> run_rpc_backward (+) 1 [scale_block 2, scale_block 3] [1, 1] [1, 10] (Some [[5], [7]]) = Inr ([6, 60], [[6], [3]])"
proof
  show "run_rpc_backward (+) 1 [scale_block 2, scale_block 3] [1, 1] [1, 10] (Some [[5], [7]])
    = chain_rule (+) 1 (zip [scale_block 2, scale_block 3] (split_prompts (length [scale_block 2, scale_block 3]) (Some [[5], [7]]))) [1, 1] [1, 10]"
    by (rule rpc_backward_chain_rule) (simp_all add: split_prompts_def dummy_slices_def)
  show "run_rpc_backward (+) 1 [scale_block 2, scale_block 3] [1, 1] [1, 10] (Some [[5], [7]]) = Inr ([6, 60], [[6], [3]])"
    by code_simp
qed

section \<open>Too few prompts\<close>

lemma zip_take_length: "zip (take (length ys) xs) ys = zip xs ys"
proof (induction ys arbitrary: xs)
  case (Cons y ys)
  then show ?case by (cases xs) simp_all
qed simp

text \<open>\<open>run_rpc_forward\<close> trusts the number of prompts: given deep prompts for the first \<open>k\<close> of the
  requested blocks only, it returns the hidden states after the \<open>k\<close>-th block as if they were the
  output of the whole chain, while \<open>run_rpc_backward\<close> on the same request never succeeds.\<close>

theorem forward_skips_blocks:
  assumes "concat ps \<noteq> []" "length ps < length backends"
  shows "run_rpc_forward addf batch backends hidden (Some ps)
      = run_rpc_forward addf batch (take (length ps) backends) hidden (Some ps)
    \<and> \<not> is_ok (run_rpc_backward addf batch backends hidden grad_outputs (Some ps))"
proof
  have ne: "ps \<noteq> []" "backends \<noteq> []" and split: "split_prompts n (Some ps) = ps" for n
    using assms by (auto simp: split_prompts_def dummy_slices_def)
  then show "run_rpc_forward addf batch backends hidden (Some ps)
      = run_rpc_forward addf batch (take (length ps) backends) hidden (Some ps)"
    by (simp add: run_rpc_forward_def split zip_take_length)
  have "run_rpc_backward addf batch backends hidden grad_outputs (Some ps) \<noteq> Inr r" for r
    using assms by (auto simp: run_rpc_backward_def split_prompts_def dummy_slices_def Let_def res_simps split: if_splits)
  then show "\<not> is_ok (run_rpc_backward addf batch backends hidden grad_outputs (Some ps))"
    by (cases "run_rpc_backward addf batch backends hidden grad_outputs (Some ps)") auto
qed

lemma code_simp_forward: "run_rpc_forward (+) 1 [scale_block 2, scale_block 3] [1] (Some [[5]]) = Inr [12]"
  by code_simp

theorem forward_skips_blocks_witness:
  "run_rpc_forward (+) 1 [scale_block 2, scale_block 3] [1] (Some [[5]])
      = run_rpc_forward (+) 1 (take (length [[5 :: int]]) [scale_block 2, scale_block 3]) [1] (Some [[5]])
    \<and> \<not> is_ok (run_rpc_backward (+) 1 [scale_block 2, scale_block 3] [1] [1] (Some [[5]]))
    \<and> run_rpc_forward (+) 1 [scale_block 2, scale_block 3] [1] (Some [[5]]) = Inr [12]"
  using forward_skips_blocks [of "[[5 :: int]]" "[scale_block 2, scale_block 3]" "(+)" 1 "[1]" "[1]"]
    code_simp_forward by simp

section \<open>Positions\<close>

text \<open>The check of a step: the position is not above the one reached, and the end is within the reserved length.\<close>

definition starts_in_sequence :: "('h, 'p, 't) step_request \<Rightarrow> bool" where
  "starts_in_sequence rq \<longleftrightarrow> (case rq_start rq of None \<Rightarrow> True | Some p \<Rightarrow> 0 \<le> p)"

lemma check_step_bounds:
  assumes "check_step sv pos rq = Inr (p, bs, shared)"
  shows "p \<le> pos \<and> p + int (length (rq_hidden rq)) \<le> int (sv_max_length sv)
    \<and> (starts_in_sequence rq \<longrightarrow> 0 \<le> pos \<longrightarrow> 0 \<le> p)"
  using assms by (auto simp: check_step_def Let_def res_simps start_position_def starts_in_sequence_def split: option.splits if_splits)

text \<open>A property of the server state that every block call within the reserved length keeps.\<close>

definition kept_within :: "('h, 'p, 't, 's) span_server \<Rightarrow> ('s \<Rightarrow> bool) \<Rightarrow> bool" where
  "kept_within sv P \<longleftrightarrow>
     (\<forall>u st h hypo info s. sv_steps sv u = Some st \<longrightarrow> P s \<longrightarrow> 0 \<le> md_prefix_length info \<longrightarrow>
        md_prefix_length info + int (length h) \<le> int (sv_max_length sv) \<longrightarrow>
        P (snd (st h hypo info s)) \<and> (\<forall>h' r. fst (st h hypo info s) = Inr (h', r) \<longrightarrow> length h' = length h))"

lemma add_prompt_length: "add_prompt addf pr h = Inr h' \<Longrightarrow> length h' = length h"
  by (auto simp: add_prompt_def fit_chunk_def Let_def res_simps split: if_splits)

lemma merged_loop_kept:
  assumes k: "kept_within sv P" and "P s" "\<forall>(info, prompt) \<in> set bs. md_prefix_length info = p" "0 \<le> p" "p + int (length h) \<le> int (sv_max_length sv)"
    and "merged_loop addf (sv_steps sv) hypo h shared bs s = (r, s')"
  shows "P s' \<and> (\<forall>h' d. r = Inr (h', d) \<longrightarrow> length h' = length h)"
  using assms(2-)
proof (induction bs arbitrary: h shared s)
  case (Cons x bs)
  obtain info prompt where x: "x = (info, prompt)" by force
  define m where "m = (case prompt of None \<Rightarrow> Inr h | Some pr \<Rightarrow> add_prompt addf pr h)"
  show ?case
  proof (cases m)
    case (Inl e)
    then show ?thesis using Cons.prems x by (auto simp: m_def)
  next
    case h1: (Inr h1)
    have l1: "length h1 = length h" using h1 by (auto simp: m_def split: option.splits dest: add_prompt_length)
    show ?thesis
    proof (cases "sv_steps sv (md_uid info)")
      case None
      then show ?thesis using Cons.prems x h1 by (auto simp: m_def)
    next
      case st: (Some st)
      let ?i = "info\<lparr>md_shared_kv_states := shared\<rparr>"
      obtain r1 s1 where one: "st h1 hypo ?i s = (r1, s1)" by force
      have "0 \<le> md_prefix_length ?i" "md_prefix_length ?i + int (length h1) \<le> int (sv_max_length sv)"
        using Cons.prems(2-4) x l1 by simp_all
      with k st Cons.prems(1) have k1: "P s1" "\<And>h' r. r1 = Inr (h', r) \<Longrightarrow> length h' = length h"
        unfolding kept_within_def using one l1 by (metis fst_conv snd_conv)+
      show ?thesis
      proof (cases r1)
        case (Inl e)
        then show ?thesis using Cons.prems x h1 st one k1(1) by (auto simp: m_def)
      next
        case (Inr y)
        then obtain h2 ts sh2 where y: "r1 = Inr (h2, ts, sh2)" by (cases y) auto
        have "merged_loop addf (sv_steps sv) hypo h2 sh2 bs s1 = (r, s')"
          using Cons.prems(5) x h1 st one y by (simp add: m_def)
        from Cons.IH [OF k1(1) _ _ _ this] Cons.prems(2-4) k1(2) [OF y] show ?thesis by simp
      qed
    qed
  qed
qed auto

lemma inference_call_kept:
  assumes "kept_within sv P" "P s" "\<forall>info \<in> set infos. md_prefix_length info = p" "0 \<le> p" "p + int (length h) \<le> int (sv_max_length sv)"
    and "inference_call addf sv batch h hypo infos prompts s = (r, s')"
  shows "P s' \<and> (\<forall>h' ts. r = Inr (h', ts) \<longrightarrow> length h' = length h)"
proof -
  have z: "\<forall>(info, prompt) \<in> set (zip infos prompts). md_prefix_length info = p"
    using assms(3) by (auto dest: set_zip_leftD)
  show ?thesis
    using assms(2,6) merged_loop_kept [OF assms(1,2) z assms(4,5)]
    by (auto simp: inference_call_def merged_inference_step_def Let_def split: if_splits prod.splits sum.splits)
qed

lemma unmerged_loop_kept:
  assumes "kept_within sv P" "P s" "0 \<le> pos" "pos + int (length h) \<le> int (sv_max_length sv)"
    and "unmerged_loop addf sv batch hypo pos shared bs h produced s = (r, s')"
  shows "P s'"
  using assms(2-)
proof (induction bs arbitrary: h produced s)
  case (Cons x bs)
  obtain b prompt pli where x: "x = (b, prompt, pli)" by (cases x) auto
  obtain r1 s1 where one: "inference_call addf sv batch h hypo [step_info pos shared b pli] [prompt] s = (r1, s1)" by force
  have k1: "P s1" "\<And>h' ts. r1 = Inr (h', ts) \<Longrightarrow> length h' = length h"
    using inference_call_kept [OF assms(1) Cons.prems(1) _ Cons.prems(2,3) one] by simp_all
  show ?case
  proof (cases r1)
    case (Inl e)
    then show ?thesis using Cons.prems(4) x one k1(1) by simp
  next
    case (Inr y)
    then obtain h1 ts where y: "r1 = Inr (h1, ts)" by (cases y) auto
    show ?thesis
    proof (cases "unflatten_shared_kv (filter (\<lambda>lt. lt \<notin> fst ` set shared) (sb_donor_types b)) ts")
      case (Inl e)
      then show ?thesis using Cons.prems(4) x one y k1(1) by simp
    next
      case (Inr d)
      then have "unmerged_loop addf sv batch hypo pos shared bs h1 (fold (\<lambda>(k, v). AList.update k v) d produced) s1 = (r, s')"
        using Cons.prems(4) x one y by simp
      from Cons.IH [OF k1(1) _ _ this] Cons.prems(2,3) k1(2) [OF y] show ?thesis by simp
    qed
  qed
qed simp

lemma rpc_step_kept:
  assumes "kept_within sv P" "P s" "0 \<le> pos" "starts_in_sequence rq" "rpc_inference_step addf sv pos rq s = (r, s')"
  shows "P s' \<and> (\<forall>resp pos'. r = Inr (resp, pos') \<longrightarrow> 0 \<le> pos' \<and> pos' \<le> int (sv_max_length sv))"
proof (cases "check_step sv pos rq")
  case (Inl e)
  then show ?thesis using assms by (auto simp: rpc_inference_step_def)
next
  case (Inr y)
  then obtain p bs shared where y: "check_step sv pos rq = Inr (p, bs, shared)" by (cases y) auto
  have p: "0 \<le> p" "p + int (length (rq_hidden rq)) \<le> int (sv_max_length sv)"
    using check_step_bounds [OF y] assms(3,4) by simp_all
  have m: "P s1" if "merged_call addf sv (rq_batch rq) (rq_hypo_ids rq) p shared bs (rq_hidden rq) s = (r1, s1)" for r1 s1
  proof -
    obtain r2 s2 where c: "inference_call addf sv (rq_batch rq) (rq_hidden rq) (rq_hypo_ids rq)
        (map (\<lambda>(b, _, pli). step_info p shared b pli) bs) (map (\<lambda>(_, prompt, _). prompt) bs) s = (r2, s2)" by force
    have "\<forall>info \<in> set (map (\<lambda>(b, _, pli). step_info p shared b pli) bs). md_prefix_length info = p" by auto
    from inference_call_kept [OF assms(1,2) this p c] have "P s2" by simp
    then show ?thesis using that c by (auto simp: merged_call_def split: sum.splits prod.splits)
  qed
  show ?thesis
    using assms(2,5) y p m unmerged_loop_kept [OF assms(1,2) p]
    by (auto simp: rpc_inference_step_def Let_def split: if_splits sum.splits prod.splits)
qed

text \<open>C16. Whatever requests a client sends with start positions that are not negative (prompts, beam
  indices, shared keys, steps back, steps that are too long or ill-formed), no block is called
  outside the reserved length: every property of the server state that calls between position 0 and
  the reserved length keep holds after the session, and the position stays between them.\<close>

theorem session_within_allocation:
  assumes "kept_within sv P" "P s" "0 \<le> pos" "pos \<le> int (sv_max_length sv)" "list_all starts_in_sequence rqs"
  shows "P (snd (snd (snd (iterate_rpc_inference addf sv pos rqs s))))
    \<and> 0 \<le> fst (snd (snd (iterate_rpc_inference addf sv pos rqs s)))
    \<and> fst (snd (snd (iterate_rpc_inference addf sv pos rqs s))) \<le> int (sv_max_length sv)"
  using assms(2-)
proof (induction rqs arbitrary: pos s)
  case (Cons rq rqs)
  obtain r s1 where one: "rpc_inference_step addf sv pos rq s = (r, s1)" by force
  have k: "P s1 \<and> (\<forall>resp pos'. r = Inr (resp, pos') \<longrightarrow> 0 \<le> pos' \<and> pos' \<le> int (sv_max_length sv))"
    using rpc_step_kept [OF assms(1) Cons.prems(1,2) _ one] Cons.prems(4) by simp
  show ?case
  proof (cases r)
    case (Inl e)
    then show ?thesis using one k Cons.prems(2,3) by simp
  next
    case (Inr y)
    then obtain resp p1 where y: "r = Inr (resp, p1)" by (cases y) auto
    then show ?thesis using one k Cons.prems(4) Cons.IH [of s1 p1] by (simp add: case_prod_unfold Let_def)
  qed
qed simp

text \<open>A block that records the position and the number of tokens of its last call.\<close>

definition probe_server :: "(int, unit, unit, int \<times> nat) span_server" where
  "probe_server = \<lparr>sv_blocks = [\<lparr>sb_uid = ''m.0'', sb_handles = [0], sb_donor_types = []\<rparr>],
     sv_steps = (\<lambda>_. Some (\<lambda>h hypo info s. (Inr (h, [], md_shared_kv_states info), (md_prefix_length info, length h)))),
     sv_max_batch_size = 100, sv_quant = QNone, sv_max_length = 3\<rparr>"

theorem session_within_allocation_witness:
  "(\<lambda>(p, n). 0 \<le> p \<and> p + int n \<le> 3)
      (snd (snd (snd (iterate_rpc_inference (+) probe_server 0 [plain_request None [1, 2], plain_request None [3, 4]] (0, 0)))))
    \<and> 0 \<le> fst (snd (snd (iterate_rpc_inference (+) probe_server 0 [plain_request None [1, 2], plain_request None [3, 4]] (0, 0))))
    \<and> fst (snd (snd (iterate_rpc_inference (+) probe_server 0 [plain_request None [1, 2], plain_request None [3, 4]] (0, 0))))
        \<le> int (sv_max_length probe_server)"
  by (rule session_within_allocation [where P = "\<lambda>(p, n). 0 \<le> p \<and> p + int n \<le> 3"])
    (auto simp: kept_within_def probe_server_def starts_in_sequence_def plain_request_def)

text \<open>Nothing rejects a negative start position: it passes both checks, and the block is called before
  position 0 with more tokens than the session has reserved.\<close>

theorem negative_start_overruns:
  assumes "0 < k" "hs \<noteq> []" "length hs \<le> 3 + k" "length hs \<le> 100"
  shows "\<exists>resp. iterate_rpc_inference (+) probe_server 0 [plain_request (Some (- int k)) hs] (0, 0)
    = ([resp], None, int (length hs) - int k, (- int k, length hs))"
  using assms
  by (simp add: rpc_inference_step_def check_step_def start_position_def probe_server_def plain_request_def Let_def
      step_prompts_def step_per_layer_def dummy_slices_def can_merge_pools_def MAX_SHORT_INFERENCE_TOKENS_def merged_call_def
      inference_call_def merged_inference_step_def extract_produced_shared_kv_def unflatten_shared_kv_def
      dict_of_def flatten_shared_kv_def)

theorem negative_start_overruns_witness:
  "\<exists>resp. iterate_rpc_inference (+) probe_server 0 [plain_request (Some (- int 2)) [1, 2, 3, 4, 5]] (0, 0)
    = ([resp], None, int (length [1, 2, 3, 4, 5 :: int]) - int 2, (- int 2, length [1, 2, 3, 4, 5 :: int]))"
  by (rule negative_start_overruns) simp_all

section \<open>A donor and its consumer on one server\<close>

text \<open>
  A block that stores its keys and values for its layer type, and one that attends to them, as
  \<open>WrappedGemma4Block.forward\<close> looks them up.
\<close>

definition donor_step :: "('h, unit, 'h list, 's) block_step" where
  "donor_step h hypo info s =
     (let shared' = map_option (AList.update ''full_attention'' (h, h)) (md_shared_kv_states info);
          seeded = (case md_shared_kv_states info of None \<Rightarrow> {} | Some d \<Rightarrow> fst ` set d) in
      (Inr (h, extract_produced_shared_kv shared' seeded, shared'), s))"

definition consumer_step :: "('h, unit, 'h list, 's) block_step" where
  "consumer_step h hypo info s =
     (case md_shared_kv_states info of
        None \<Rightarrow> (Inl TypeError, s)
      | Some d \<Rightarrow> (rbind (dict_get d ''full_attention'') (\<lambda>_. Inr (h, [], Some d)), s))"

definition sharing_server :: "nat \<Rightarrow> ('h, unit, 'h list, 's) span_server" where
  "sharing_server room =
     \<lparr>sv_blocks = [\<lparr>sb_uid = ''m.0'', sb_handles = [0], sb_donor_types = [''full_attention'']\<rparr>,
                   \<lparr>sb_uid = ''m.1'', sb_handles = [], sb_donor_types = []\<rparr>],
      sv_steps = (\<lambda>u. if u = ''m.0'' then Some donor_step else Some consumer_step),
      sv_max_batch_size = room, sv_quant = QNone, sv_max_length = room\<rparr>"

definition prompt_request :: "'h list \<Rightarrow> ('h, unit, 'h list) step_request" where
  "prompt_request hs = \<lparr>rq_batch = 1, rq_hidden = hs, rq_prompts = None, rq_hypo_ids = [], rq_hypo_int64 = True,
     rq_per_layer = None, rq_shared_tensors = [], rq_start = None, rq_shared_keys = []\<rparr>"

text \<open>A consumer of shared keys and values does not find those of a donor on the same server when
  the step is too long for the merged pool: with up to 128 tokens the step succeeds, with more it
  fails with a \<open>KeyError\<close>, although donor and consumer are hosted together.\<close>

theorem long_step_loses_donor:
  assumes "hs \<noteq> []" "length hs \<le> room"
  shows "(case fst (rpc_inference_step addf (sharing_server room) 0 (prompt_request hs) s) of
            Inl e \<Rightarrow> 128 < length hs \<and> e = KeyError
          | Inr (resp, pos) \<Rightarrow> length hs \<le> 128 \<and> resp_hidden resp = hs)"
  using assms
  by (simp add: rpc_inference_step_def check_step_def start_position_def sharing_server_def prompt_request_def Let_def
      step_prompts_def step_per_layer_def can_merge_pools_def MAX_SHORT_INFERENCE_TOKENS_def merged_call_def inference_call_def
      merged_inference_step_def donor_step_def consumer_step_def extract_produced_shared_kv_def dict_get_def
      unflatten_shared_kv_def dict_of_def flatten_shared_kv_def numeral_2_eq_2)

theorem long_step_loses_donor_witness:
  "(case fst (rpc_inference_step (+) (sharing_server 200) 0 (prompt_request (replicate 129 (0 :: int))) ()) of
      Inl e \<Rightarrow> 128 < length (replicate 129 (0 :: int)) \<and> e = KeyError
    | Inr (resp, pos) \<Rightarrow> length (replicate 129 (0 :: int)) \<le> 128 \<and> resp_hidden resp = replicate 129 0)"
  by (rule long_step_loses_donor) simp_all

end
