(* ===== verification/Routing_Correct.thy ===== *)
theory Routing_Correct
  imports Routing
begin

text \<open>
  Correctness of routing: the table lists exactly the servers of each block, and every route, by
  either policy, is an unbroken chain of servers from the first wanted block to the last, each used
  only within what it serves. Also what a failed request does not change.
\<close>

section \<open>The table\<close>

text \<open>A table of spans that is the one \<open>_sort_spans\<close> computes.\<close>

definition table_ok :: "sequence_info \<Rightarrow> bool" where
  "table_ok info \<longleftrightarrow> sort_spans (block_infos info) = Inr (spans_by_priority info, spans_containing_block info)"

lemma append_at_ok:
  assumes "0 \<le> i" "i < int (length xs)"
  shows "append_at x i xs = Inr (xs[nat i := xs ! nat i @ [x]])"
  using assms by (simp add: append_at_def Let_def)

lemma append_range:
  assumes "0 \<le> a" "b \<le> int (length xs)"
  shows "rfold (append_at x) (py_range a b) xs
    = Inr (map (\<lambda>k. if a \<le> int k \<and> int k < b then xs ! k @ [x] else xs ! k) [0..<length xs])"
  using assms
proof (induction "nat (b - a)" arbitrary: a xs)
  case 0
  then have "py_range a b = []" by simp
  moreover have "map (\<lambda>k. if a \<le> int k \<and> int k < b then xs ! k @ [x] else xs ! k) [0..<length xs] = xs"
    using 0 by (intro nth_equalityI) auto
  ultimately show ?case by simp
next
  case (Suc n)
  then have ab: "a < b" by linarith
  let ?ys = "xs[nat a := xs ! nat a @ [x]]"
  have "n = nat (b - (a + 1))" using Suc(2) by linarith
  from Suc(1) [OF this, of ?ys] Suc.prems
  have "rfold (append_at x) (py_range (a + 1) b) ?ys
    = Inr (map (\<lambda>k. if a + 1 \<le> int k \<and> int k < b then ?ys ! k @ [x] else ?ys ! k) [0..<length xs])" by simp
  moreover have "map (\<lambda>k. if a + 1 \<le> int k \<and> int k < b then ?ys ! k @ [x] else ?ys ! k) [0..<length xs]
    = map (\<lambda>k. if a \<le> int k \<and> int k < b then xs ! k @ [x] else xs ! k) [0..<length xs]"
    using ab Suc.prems by (auto simp: nth_list_update)
  ultimately show ?case using ab Suc.prems by (simp add: py_range_rec append_at_ok)
qed

lemma add_spans:
  assumes "\<forall>sp \<in> set sps. 0 \<le> rs_start sp \<and> rs_end sp \<le> int (length xs)"
  shows "rfold add_span sps xs
    = Inr (map (\<lambda>k. xs ! k @ filter (\<lambda>sp. rs_start sp \<le> int k \<and> int k < rs_end sp) sps) [0..<length xs])"
  using assms
proof (induction sps arbitrary: xs)
  case Nil
  have "map (\<lambda>k. xs ! k @ []) [0..<length xs] = xs" by (simp add: map_nth)
  then show ?case by simp
next
  case (Cons sp sps)
  let ?ys = "map (\<lambda>k. if rs_start sp \<le> int k \<and> int k < rs_end sp then xs ! k @ [sp] else xs ! k) [0..<length xs]"
  have "add_span sp xs = Inr ?ys" using Cons.prems by (simp add: add_span_def append_range)
  moreover have "rfold add_span sps ?ys
    = Inr (map (\<lambda>k. ?ys ! k @ filter (\<lambda>sp. rs_start sp \<le> int k \<and> int k < rs_end sp) sps) [0..<length ?ys])"
    using Cons.IH [of ?ys] Cons.prems by simp
  ultimately show ?case by (auto intro!: map_cong)
qed

lemma table_facts:
  assumes "table_ok info"
  shows "distinct (map rs_peer_id (spans_by_priority info))"
    "spans_containing_block info
      = map (\<lambda>k. filter (\<lambda>sp. rs_start sp \<le> int k \<and> int k < rs_end sp) (spans_by_priority info)) [0..<length (block_infos info)]"
    "sorted (map (\<lambda>sp. - span_length sp) (spans_by_priority info))"
    "\<forall>sp \<in> set (spans_by_priority info). 0 \<le> rs_start sp \<and> rs_end sp \<le> int (length (block_infos info))
       \<and> state_value ONLINE \<le> state_value (span_state sp)"
proof -
  from assms obtain d where d: "compute_spans (block_infos info) ONLINE = Inr d"
    and by_priority: "spans_by_priority info = sort_key (\<lambda>sp. - span_length sp) (map snd d)"
    and table: "rfold add_span (spans_by_priority info) (map (\<lambda>_. []) (block_infos info)) = Inr (spans_containing_block info)"
    by (auto simp: table_ok_def sort_spans_def res_simps Let_def)
  have ent: "rs_peer_id sp = p \<and> 0 \<le> rs_start sp \<and> rs_end sp \<le> int (length (block_infos info))
      \<and> state_value ONLINE \<le> state_value (span_state sp)" if "(p, sp) \<in> set d" for p sp
    using compute_spans_facts [OF d] that by simp
  have "map rs_peer_id (map snd d) = map fst d" using ent by auto
  then have "mset (map rs_peer_id (spans_by_priority info)) = mset (map fst d)"
    unfolding by_priority by (metis mset_map mset_sort)
  then show "distinct (map rs_peer_id (spans_by_priority info))"
    using compute_spans_facts(1) [OF d] mset_eq_imp_distinct_iff by blast
  show "sorted (map (\<lambda>sp. - span_length sp) (spans_by_priority info))" unfolding by_priority by simp
  show range: "\<forall>sp \<in> set (spans_by_priority info). 0 \<le> rs_start sp \<and> rs_end sp \<le> int (length (block_infos info))
       \<and> state_value ONLINE \<le> state_value (span_state sp)"
    unfolding by_priority using ent by auto
  have "rfold add_span (spans_by_priority info) (map (\<lambda>_. []) (block_infos info))
    = Inr (map (\<lambda>k. filter (\<lambda>sp. rs_start sp \<le> int k \<and> int k < rs_end sp)
        (spans_by_priority info)) [0..<length (block_infos info)])"
    using add_spans [of "spans_by_priority info" "map (\<lambda>_. []) (block_infos info)"] range by (simp cong: map_cong)
  with table show "spans_containing_block info
      = map (\<lambda>k. filter (\<lambda>sp. rs_start sp \<le> int k \<and> int k < rs_end sp) (spans_by_priority info)) [0..<length (block_infos info)]"
    by simp
qed

section \<open>Chains of servers\<close>

fun covers :: "int \<Rightarrow> remote_span list \<Rightarrow> int \<Rightarrow> bool" where
  "covers a [] b \<longleftrightarrow> a = b"
| "covers a (sp # sps) b \<longleftrightarrow> rs_start sp = a \<and> covers (rs_end sp) sps b"

text \<open>A stretch of blocks within what the same server serves.\<close>

definition part_of :: "remote_span list \<Rightarrow> remote_span \<Rightarrow> bool" where
  "part_of table sp \<longleftrightarrow> (\<exists>own \<in> set table. rs_peer_id own = rs_peer_id sp \<and> rs_server_info own = rs_server_info sp
     \<and> rs_start own \<le> rs_start sp \<and> rs_end sp \<le> rs_end own)"

text \<open>Every piece of a route is a non-empty stretch of the span its server announced.\<close>

definition served_by :: "remote_span list \<Rightarrow> remote_span list \<Rightarrow> bool" where
  "served_by table route \<longleftrightarrow> (\<forall>sp \<in> set route. rs_start sp < rs_end sp \<and> part_of table sp)"

definition serves :: "remote_span \<Rightarrow> int \<Rightarrow> bool" where
  "serves sp i \<longleftrightarrow> rs_start sp \<le> i \<and> i < rs_end sp"

lemma covers_append: "covers a (xs @ ys) b \<longleftrightarrow> (\<exists>c. covers a xs c \<and> covers c ys b)"
  by (induction xs arbitrary: a) auto

lemma covers_filter:
  "covers a sps b \<Longrightarrow> \<forall>sp \<in> set sps. rs_start sp \<le> rs_end sp \<Longrightarrow> covers a (filter (\<lambda>sp. 0 < span_length sp) sps) b"
  by (induction sps arbitrary: a) (auto simp: span_length_def)

lemma in_table:
  assumes "table_ok info" "k < length (block_infos info)" "sp \<in> set (spans_containing_block info ! k)"
  shows "sp \<in> set (spans_by_priority info)" "serves sp (int k)"
  using assms(3) unfolding table_facts(2) [OF assms(1)] using assms(2) by (auto simp: serves_def)

section \<open>Minimum latency\<close>

text \<open>What a shortest-path search returns: consecutive edges of the graph from start to end.\<close>

definition path_in :: "edge list \<Rightarrow> node list \<Rightarrow> bool" where
  "path_in g nodes \<longleftrightarrow> nodes \<noteq> [] \<and> hd nodes = Start \<and> last nodes = End
     \<and> successively (\<lambda>u v. (u, v) \<in> fst ` set g) nodes"

definition step_ok :: "remote_span list \<Rightarrow> peer_id \<times> int \<Rightarrow> peer_id \<times> int \<Rightarrow> bool" where
  "step_ok S x y \<longleftrightarrow>
     (snd x = snd y \<and> (\<exists>n \<in> set S. rs_peer_id n = fst y \<and> serves n (snd y)))
     \<or> (fst x = fst y \<and> snd y = snd x + 1 \<and> (\<exists>n \<in> set S. rs_peer_id n = fst y \<and> serves n (snd x)))"

lemma compute_edges_mem:
  assumes "compute_edges a b sps = Inr es" "e \<in> set es"
  shows "\<exists>sp \<in> set sps. \<exists>i. serves sp i \<and> fst e = (At (rs_peer_id sp) i, At (rs_peer_id sp) (i + 1))"
proof -
  have "\<exists>x \<in> set xs. compute_edge (fst x) (snd x) = Inr e"
    if "rmap (\<lambda>(sp, i). compute_edge sp i) xs = Inr ys" "e \<in> set ys" for xs ys
    using that by (induction xs arbitrary: ys) (auto simp: res_simps)
  from this [OF assms [unfolded compute_edges_def]] show ?thesis
    by (fastforce simp: compute_edge_def Let_def serves_def split: if_splits)
qed

lemma graph_edges:
  assumes ok: "table_ok info" and g: "build_inference_graph rtts info a b needed = Inr g" "(u, v) \<in> fst ` set g" and ab: "a < b"
  shows "(u = Start \<and> (\<exists>sp \<in> set (spans_by_priority info). serves sp (int a) \<and> v = At (rs_peer_id sp) (int a)))
    \<or> (v = End \<and> (\<exists>p. u = At p (int b)))
    \<or> (\<exists>x y. u = At (fst x) (snd x) \<and> v = At (fst y) (snd y) \<and> step_ok (spans_by_priority info) x y)"
proof -
  from g(1) obtain ces where b: "b \<le> length (spans_containing_block info)"
    and ces: "compute_edges (int a) (int b) (spans_by_priority info) = Inr ces"
    and gd: "g = entry_edges rtts needed (int a) (spans_containing_block info ! a)
      @ exit_edges rtts (int b) (spans_containing_block info ! (b - 1))
      @ concat (map (\<lambda>i. hop_edges needed (int i) (spans_containing_block info ! (i - 1)) (spans_containing_block info ! i)) [a + 1..<b]) @ ces"
    by (auto simp: build_inference_graph_def Let_def res_simps split: if_splits)
  have len: "length (spans_containing_block info) = length (block_infos info)" using table_facts(2) [OF ok] by simp
  consider (entry) "(u, v) \<in> fst ` set (entry_edges rtts needed (int a) (spans_containing_block info ! a))"
    | (exit) "(u, v) \<in> fst ` set (exit_edges rtts (int b) (spans_containing_block info ! (b - 1)))"
    | (hop) i where "a + 1 \<le> i" "i < b"
        "(u, v) \<in> fst ` set (hop_edges needed (int i) (spans_containing_block info ! (i - 1)) (spans_containing_block info ! i))"
    | (comp) "(u, v) \<in> fst ` set ces"
    using g(2) unfolding gd by (auto simp del: One_nat_def) (metis Suc_eq_plus1 fst_conv image_eqI)
  then show ?thesis
  proof cases
    case entry
    then show ?thesis using in_table [OF ok, of a] ab b len by (force simp: entry_edges_def)
  next
    case exit
    then show ?thesis by (force simp: exit_edges_def)
  next
    case (hop i)
    then obtain c n :: remote_span where cn: "n \<in> set (spans_containing_block info ! i)" "u = At (rs_peer_id c) (int i)" "v = At (rs_peer_id n) (int i)"
      by (auto simp: hop_edges_def)
    have "n \<in> set (spans_by_priority info)" "serves n (int i)"
      using in_table [OF ok _ cn(1)] hop(2) b len by simp_all
    then have "step_ok (spans_by_priority info) (rs_peer_id c, int i) (rs_peer_id n, int i)"
      by (auto simp: step_ok_def)
    then show ?thesis using cn(2,3) by force
  next
    case comp
    then obtain e where "e \<in> set ces" "fst e = (u, v)" by auto
    with compute_edges_mem [OF ces this(1)] obtain sp i where
      sp: "sp \<in> set (spans_by_priority info)" "serves sp i" "u = At (rs_peer_id sp) i" "v = At (rs_peer_id sp) (i + 1)" by auto
    then have "step_ok (spans_by_priority info) (rs_peer_id sp, i) (rs_peer_id sp, i + 1)"
      by (auto simp: step_ok_def)
    then show ?thesis using sp(3,4) by force
  qed
qed

text \<open>What holds of the route built so far when the walk is at a node.\<close>

definition route_at :: "remote_span list \<Rightarrow> int \<Rightarrow> remote_span list \<Rightarrow> peer_id \<times> int \<Rightarrow> bool" where
  "route_at S a acc x \<longleftrightarrow> acc \<noteq> [] \<and> rs_peer_id (last acc) = fst x \<and> covers a acc (snd x)
     \<and> (\<forall>sp \<in> set acc. rs_start sp \<le> rs_end sp \<and> part_of S sp)"

lemma covers_last: "covers a acc b \<Longrightarrow> acc \<noteq> [] \<Longrightarrow> rs_end (last acc) = b"
  by (induction acc arbitrary: a) auto

lemma updates_sound:
  "map_of (fold (\<lambda>sp. AList.update (rs_peer_id sp) (rs_server_info sp)) sps d) p = Some si \<Longrightarrow>
     (\<exists>sp \<in> set sps. rs_peer_id sp = p \<and> rs_server_info sp = si) \<or> map_of d p = Some si"
proof (induction sps arbitrary: d)
  case (Cons sp sps)
  have "(\<exists>sp \<in> set sps. rs_peer_id sp = p \<and> rs_server_info sp = si)
      \<or> map_of (AList.update (rs_peer_id sp) (rs_server_info sp) d) p = Some si"
    using Cons.IH [of "AList.update (rs_peer_id sp) (rs_server_info sp) d"] Cons.prems by (simp del: map_of_update)
  then show ?case by (auto split: if_splits)
qed simp

lemma server_infos_sound:
  assumes "table_ok info" "b \<le> length (block_infos info)" "dict_get (server_infos info a b) p = Inr si"
  shows "\<exists>sp \<in> set (spans_by_priority info). rs_peer_id sp = p \<and> rs_server_info sp = si"
proof -
  have "map_of (server_infos info a b) p = Some si" using assms(3) by (simp add: res_simps)
  from updates_sound [OF this [unfolded server_infos_def]]
  obtain sp where sp: "sp \<in> set (concat (map ((!) (spans_containing_block info)) [a..<b]))" "rs_peer_id sp = p" "rs_server_info sp = si"
    by auto
  from sp(1) obtain k where "k < b" "sp \<in> set (spans_containing_block info ! k)" by auto
  then have "sp \<in> set (spans_by_priority info)" using in_table(1) [OF assms(1), of k sp] assms(2) by linarith
  then show ?thesis using sp(2,3) by blast
qed

lemma distinct_peer:
  assumes "table_ok info" "x \<in> set (spans_by_priority info)" "y \<in> set (spans_by_priority info)" "rs_peer_id x = rs_peer_id y"
  shows "x = y"
  using table_facts(1) [OF assms(1)] assms(2-4) by (auto simp: distinct_map inj_on_def)

lemma part_of_own:
  assumes "table_ok info" "part_of (spans_by_priority info) sp" "n \<in> set (spans_by_priority info)" "rs_peer_id n = rs_peer_id sp"
  shows "rs_server_info n = rs_server_info sp" "rs_start n \<le> rs_start sp" "rs_end sp \<le> rs_end n"
proof -
  from assms(2) obtain own where o: "own \<in> set (spans_by_priority info)" "rs_peer_id own = rs_peer_id sp"
    "rs_server_info own = rs_server_info sp" "rs_start own \<le> rs_start sp" "rs_end sp \<le> rs_end own"
    by (auto simp: part_of_def)
  then have "n = own" using distinct_peer [OF assms(1,3) o(1)] assms(4) by simp
  then show "rs_server_info n = rs_server_info sp" "rs_start n \<le> rs_start sp" "rs_end sp \<le> rs_end n" using o by auto
qed

lemma new_stretch:
  assumes "table_ok info" "b \<le> length (block_infos info)" "dict_get (server_infos info a b) p = Inr si"
    and "n \<in> set (spans_by_priority info)" "rs_peer_id n = p" "serves n i"
  shows "part_of (spans_by_priority info) \<lparr>rs_peer_id = p, rs_start = i, rs_end = i, rs_server_info = si\<rparr>"
proof -
  obtain sp where sp: "sp \<in> set (spans_by_priority info)" "rs_peer_id sp = p" "rs_server_info sp = si"
    using server_infos_sound [OF assms(1-3)] by blast
  then have "n = sp" using distinct_peer [OF assms(1,4) sp(1)] assms(5) by simp
  then show ?thesis using sp assms(6) by (auto simp: part_of_def serves_def)
qed

lemma add_node_step:
  assumes ok: "table_ok info" "b \<le> length (block_infos info)"
    and at: "route_at (spans_by_priority info) c acc x" and st: "step_ok (spans_by_priority info) x y"
    and r: "add_node (server_infos info a b) y acc = Inr acc'"
  shows "route_at (spans_by_priority info) c acc' y"
proof (cases "fst x = fst y")
  case False
  then obtain n where n: "snd x = snd y" "n \<in> set (spans_by_priority info)" "rs_peer_id n = fst y" "serves n (snd y)"
    using st by (auto simp: step_ok_def)
  from r False at obtain si where si: "dict_get (server_infos info a b) (fst y) = Inr si"
    "acc' = acc @ [\<lparr>rs_peer_id = fst y, rs_start = snd y, rs_end = snd y, rs_server_info = si\<rparr>]"
    by (auto simp: add_node_def route_at_def res_simps)
  show ?thesis using at n(1) new_stretch [OF ok si(1) n(2-4)] unfolding si(2)
    by (auto simp: route_at_def covers_append)
next
  case True
  let ?l = "last acc"
  have acc: "acc \<noteq> []" "rs_peer_id ?l = fst y" "covers c acc (snd x)" and l: "part_of (spans_by_priority info) ?l" "rs_start ?l \<le> rs_end ?l"
    using at True by (auto simp: route_at_def)
  have acc': "acc' = butlast acc @ [?l\<lparr>rs_end := snd y\<rparr>]" using r acc True by (simp add: add_node_def)
  have e: "rs_end ?l = snd x" using covers_last [OF acc(3,1)] .
  from st obtain n where n: "n \<in> set (spans_by_priority info)" "rs_peer_id n = rs_peer_id ?l" "snd y \<le> rs_end n" "snd x \<le> snd y"
    using acc(2) by (auto simp: step_ok_def serves_def)
  note own = part_of_own [OF ok(1) l(1) n(1,2)]
  have p: "part_of (spans_by_priority info) (?l\<lparr>rs_end := snd y\<rparr>)"
    using n own unfolding part_of_def by (intro bexI [of _ n]) auto
  have split: "acc = butlast acc @ [?l]" using acc(1) by simp
  have "covers c (butlast acc) (rs_start ?l)" using acc(3) covers_append [of c "butlast acc" "[?l]"] split by auto
  then have "covers c acc' (snd y)" by (simp add: acc' covers_append)
  moreover have "\<forall>sp \<in> set acc'. rs_start sp \<le> rs_end sp \<and> part_of (spans_by_priority info) sp"
    using at p l(2) e n(4) unfolding acc' by (auto simp: route_at_def dest: in_set_butlastD)
  ultimately show ?thesis using acc(2) by (simp add: route_at_def acc')
qed

lemma add_nodes_walk:
  assumes ok: "table_ok info" "b \<le> length (block_infos info)"
    and "route_at (spans_by_priority info) c acc x" "successively (step_ok (spans_by_priority info)) (x # ns)"
    and "rfold (add_node (server_infos info a b)) ns acc = Inr route"
  shows "route_at (spans_by_priority info) c route (last (x # ns))"
  using assms(3-5)
proof (induction ns arbitrary: acc x)
  case Nil
  then show ?case by simp
next
  case (Cons y ns)
  then obtain acc' where a: "add_node (server_infos info a b) y acc = Inr acc'"
    "rfold (add_node (server_infos info a b)) ns acc' = Inr route" by (auto simp: res_simps)
  from Cons.IH [OF add_node_step [OF ok Cons.prems(1) _ a(1)] _ a(2)] Cons.prems(2) show ?case
    by (cases ns) auto
qed

text \<open>The nodes of a path between its two ends.\<close>

lemma path_walk:
  assumes ok: "table_ok info" and g: "build_inference_graph rtts info a b needed = Inr g" and ab: "a < b"
    and path: "path_in g nodes" and ns: "rmap node_pair (butlast (tl nodes)) = Inr ns"
  shows "ns \<noteq> [] \<and> snd (hd ns) = int a \<and> snd (last ns) = int b
    \<and> (\<exists>sp \<in> set (spans_by_priority info). rs_peer_id sp = fst (hd ns) \<and> serves sp (int a))
    \<and> successively (step_ok (spans_by_priority info)) ns"
proof -
  let ?E = "\<lambda>u v. (u, v) \<in> fst ` set g"
  have nodes_At: "ms = map (\<lambda>x. At (fst x) (snd x)) xs" if "rmap node_pair ms = Inr xs" for ms xs
    using that by (induction ms arbitrary: xs) (auto simp: res_simps node_pair_def split: node.splits)
  note edges = graph_edges [OF ok g _ ab]
  from path obtain rest where rest: "nodes = Start # rest" by (cases nodes) (auto simp: path_in_def)
  have "rest \<noteq> []" using path rest by (auto simp: path_in_def)
  then have nodes: "nodes = Start # butlast rest @ [End]" using path rest append_butlast_last_id [of rest] by (auto simp: path_in_def)
  have mid: "butlast rest = map (\<lambda>x. At (fst x) (snd x)) ns" using nodes_At [OF ns] rest by simp
  have succ: "successively ?E (Start # map (\<lambda>x. At (fst x) (snd x)) ns @ [End])"
    using path nodes mid by (simp add: path_in_def)
  have ns0: "ns \<noteq> []" using succ edges [of Start End] by auto
  have first: "?E Start (At (fst (hd ns)) (snd (hd ns)))" using succ ns0 by (cases ns) auto
  have last: "?E (At (fst (last ns)) (snd (last ns))) End"
    using succ ns0 by (cases ns rule: rev_cases) (auto simp: successively_append_iff successively_Cons)
  have "successively ?E (map (\<lambda>x. At (fst x) (snd x)) ns)"
    using succ ns0 by (auto simp: successively_append_iff successively_Cons)
  then have "successively (\<lambda>x y. ?E (At (fst x) (snd x)) (At (fst y) (snd y))) ns"
    by (simp add: successively_map)
  then have walk: "successively (step_ok (spans_by_priority info)) ns"
    by (rule successively_mono) (use edges in fastforce)
  show ?thesis using ns0 walk edges [OF first] edges [OF last] by auto
qed

lemma covers_path:
  assumes ok: "table_ok info" and ab: "a < b"
    and path: "\<And>g nodes. find_path g = Some nodes \<Longrightarrow> path_in g nodes"
    and r: "make_sequence_with_min_latency find_path rtts info a b needed = Inr route"
  shows "covers (int a) route (int b) \<and> (\<forall>sp \<in> set route. rs_start sp < rs_end sp \<and> part_of (spans_by_priority info) sp)"
proof -
  from r ab obtain g nodes ns raw where g: "build_inference_graph rtts info a b needed = Inr g"
    and nodes: "find_path g = Some nodes" and ns: "rmap node_pair (butlast (tl nodes)) = Inr ns"
    and raw: "rfold (add_node (server_infos info a b)) ns [] = Inr raw"
    and route: "route = filter (\<lambda>sp. 0 < span_length sp) raw"
    by (auto simp: make_sequence_with_min_latency_def res_simps split: option.splits)
  have b: "b \<le> length (block_infos info)"
    using g table_facts(2) [OF ok] by (auto simp: build_inference_graph_def Let_def split: if_splits)
  note walk = path_walk [OF ok g ab path [OF nodes] ns]
  then obtain x xs where x: "ns = x # xs" by (cases ns) auto
  then obtain sp where sp: "sp \<in> set (spans_by_priority info)" "rs_peer_id sp = fst x" "serves sp (int a)" "snd x = int a"
    using walk by auto
  from raw x obtain acc where acc: "add_node (server_infos info a b) x [] = Inr acc"
    "rfold (add_node (server_infos info a b)) xs acc = Inr raw" by (auto simp: res_simps)
  from acc(1) obtain si where si: "dict_get (server_infos info a b) (fst x) = Inr si"
    "acc = [\<lparr>rs_peer_id = fst x, rs_start = snd x, rs_end = snd x, rs_server_info = si\<rparr>]"
    by (auto simp: add_node_def res_simps)
  have "route_at (spans_by_priority info) (int a) acc x"
    using new_stretch [OF ok b si(1) sp(1,2)] sp(3,4) unfolding si(2) by (simp add: route_at_def)
  from add_nodes_walk [OF ok b this _ acc(2)] walk x
  have "route_at (spans_by_priority info) (int a) raw (last ns)" by simp
  then have raw': "covers (int a) raw (int b)" "\<forall>sp \<in> set raw. rs_start sp \<le> rs_end sp \<and> part_of (spans_by_priority info) sp"
    using walk by (auto simp: route_at_def)
  show ?thesis using covers_filter [of "int a" raw "int b"] raw' unfolding route by (auto simp: span_length_def)
qed

text \<open>C11. A minimum-latency route is complete and honest: for any search that returns a path of the
  graph, the route is an unbroken chain of non-empty stretches from the first wanted block to the
  last, and every stretch lies within the blocks the same server announced.\<close>

theorem min_latency_route_covers:
  assumes "table_ok info" "a < b"
    and "\<And>g nodes. find_path g = Some nodes \<Longrightarrow> path_in g nodes"
    and "make_sequence find_path pick rtts info a (Some b) Min_Latency needed = Inr route"
  shows "covers (int a) route (int b) \<and> served_by (spans_by_priority info) route"
  using covers_path [OF assms(1-3)] assms(4) by (simp add: make_sequence_def served_by_def)

definition sample_info_table :: sequence_info where
  "sample_info_table =
     (case update_info 7 sample_swarm (make_empty (map rm_uid sample_swarm)) of Inl _ \<Rightarrow> make_empty [] | Inr i \<Rightarrow> i)"

definition fixed_path :: "node list \<Rightarrow> edge list \<Rightarrow> node list option" where
  "fixed_path nodes g = (if path_in g nodes then Some nodes else None)"

lemma sample_table_ok: "table_ok sample_info_table"
  unfolding table_ok_def by code_simp

definition sample_route :: "remote_span list" where
  "sample_route = [sample_span ''B'' 0 1 ONLINE, sample_span ''A'' 1 2 ONLINE]"

theorem min_latency_route_covers_witness:
  "covers (int 0) sample_route (int 2)
    \<and> served_by (spans_by_priority sample_info_table) sample_route"
proof (rule min_latency_route_covers [OF sample_table_ok])
  show "path_in g nodes" if "fixed_path [Start, At ''B'' 0, At ''B'' 1, At ''A'' 1, At ''A'' 2, End] g = Some nodes" for g nodes
    using that by (auto simp: fixed_path_def split: if_splits)
  show "make_sequence (fixed_path [Start, At ''B'' 0, At ''B'' 1, At ''A'' 1, At ''A'' 2, End]) (\<lambda>_ _ _. 0) [] sample_info_table
      0 (Some 2) Min_Latency None = Inr sample_route" by code_simp
qed simp

section \<open>Maximum throughput\<close>

lemma max_throughput_total:
  assumes ok: "table_ok info"
    and pick: "\<And>i cs ws. cs \<noteq> [] \<Longrightarrow> pick i cs ws < length cs"
    and full: "\<forall>i. a \<le> i \<longrightarrow> i < b \<longrightarrow> spans_containing_block info ! nat i \<noteq> []"
    and range: "0 \<le> a" "b \<le> int (length (block_infos info))"
  shows "\<exists>route e. max_throughput_loop pick rtts info a b = Inr route \<and> covers a route e \<and> b \<le> max a e
    \<and> (\<forall>sp \<in> set route. rs_start sp < rs_end sp \<and> part_of (spans_by_priority info) sp)"
  using full range
proof (induction "nat (b - a)" arbitrary: a rule: less_induct)
  case less
  show ?case
  proof (cases "a < b")
    case False
    then show ?thesis by (subst max_throughput_loop.simps) auto
  next
    case True
    let ?cs = "spans_containing_block info ! nat a"
    have len: "length (spans_containing_block info) = length (block_infos info)" using table_facts(2) [OF ok] by simp
    have na: "nat a < length (block_infos info)" using True less.prems by linarith
    then have c: "containing info a = Inr ?cs" using less.prems(2) len by (simp add: containing_def py_get_def Let_def)
    have ne: "?cs \<noteq> []" using less.prems(1) True by auto
    define i where "i = pick a ?cs (map (span_weight rtts) ?cs)"
    have i: "i < length ?cs" unfolding i_def by (rule pick [OF ne])
    then have g: "py_get ?cs (int i) = Inr (?cs ! i)" by (simp add: py_get_def Let_def)
    from i have "?cs ! i \<in> set ?cs" by simp
    from in_table [OF ok na this] less.prems(2)
    have own: "?cs ! i \<in> set (spans_by_priority info)" "rs_start (?cs ! i) \<le> a" "a < rs_end (?cs ! i)"
      by (simp_all add: serves_def)
    have "nat (b - rs_end (?cs ! i)) < nat (b - a)" using own(3) True by linarith
    from less.hyps [OF this] less.prems own(3)
    obtain route e where r: "max_throughput_loop pick rtts info (rs_end (?cs ! i)) b = Inr route"
      "covers (rs_end (?cs ! i)) route e" "b \<le> max (rs_end (?cs ! i)) e"
      "\<forall>sp \<in> set route. rs_start sp < rs_end sp \<and> part_of (spans_by_priority info) sp" by auto
    have "max_throughput_loop pick rtts info a b = Inr ((?cs ! i)\<lparr>rs_start := a\<rparr> # route)"
      using True c ne g own r(1) by (subst max_throughput_loop.simps) (simp add: i_def)
    moreover have "part_of (spans_by_priority info) ((?cs ! i)\<lparr>rs_start := a\<rparr>)"
      using own by (auto simp: part_of_def)
    moreover have "rs_end (?cs ! i) \<le> e" using r(2,4)
    proof -
      have "c \<le> e" if "covers c route e" "\<forall>sp \<in> set route. rs_start sp < rs_end sp" for c
        using that by (induction route arbitrary: c) (auto, fastforce)
      then show ?thesis using r(2,4) by blast
    qed
    ultimately show ?thesis using r own by (intro exI [of _ "(?cs ! i)\<lparr>rs_start := a\<rparr> # route"] exI [of _ e]) auto
  qed
qed

text \<open>C10. A maximum-throughput route always exists when every wanted block has a server, whatever the
  random choices: the loop ends, and the route is an unbroken chain of non-empty stretches of
  announced spans that starts at the first wanted block and reaches at least the last.\<close>

theorem max_throughput_route_exists:
  assumes "table_ok info" "\<And>i cs ws. cs \<noteq> [] \<Longrightarrow> pick i cs ws < length cs"
    and "b \<le> length (block_infos info)" "missing_blocks info a b = []"
  shows "\<exists>route e. make_sequence find_path pick rtts info a (Some b) Max_Throughput needed = Inr route
    \<and> covers (int a) route e \<and> int b \<le> max (int a) e
    \<and> served_by (spans_by_priority info) route"
proof -
  have full: "\<forall>i. int a \<le> i \<longrightarrow> i < int b \<longrightarrow> spans_containing_block info ! nat i \<noteq> []"
  proof (intro allI impI)
    fix i assume "int a \<le> i" "i < int b"
    then have "nat i \<in> set [a..<b]" by auto
    then show "spans_containing_block info ! nat i \<noteq> []"
      using assms(4) unfolding missing_blocks_def by (simp add: filter_empty_conv del: set_upt)
  qed
  show ?thesis using max_throughput_total [OF assms(1,2) full] assms(3) by (simp add: make_sequence_def served_by_def)
qed

theorem max_throughput_route_exists_witness:
  "\<exists>route e. make_sequence (\<lambda>_. None) (\<lambda>_ _ _. 0) [] sample_info_table 0 (Some 2) Max_Throughput None = Inr route
    \<and> covers (int 0) route e \<and> int 2 \<le> max (int 0) e
    \<and> served_by (spans_by_priority sample_info_table) route"
  by (rule max_throughput_route_exists [OF sample_table_ok]) (simp, code_simp+)

section \<open>Failures and refreshes\<close>

text \<open>A failed request does not take the peer out of the routes: \<open>on_request_failure\<close> removes it
  from the block table, but both policies choose from the spans, which stay as they were until the
  next refresh. Any route computed after the failure is the route computed before it.\<close>

theorem failed_peer_still_routed:
  "make_sequence find_path pick rtts (fst (on_request_failure p info)) a b mode needed
     = make_sequence find_path pick rtts info a b mode needed"
proof -
  let ?info = "fst (on_request_failure p info)"
  have eq: "spans_by_priority ?info = spans_by_priority info" "spans_containing_block ?info = spans_containing_block info"
    "block_uids ?info = block_uids info"
    by (simp_all add: on_request_failure_def Let_def)
  have loop: "max_throughput_loop pick rtts ?info i e = max_throughput_loop pick rtts info i e" for i e
  proof (induction "nat (e - i)" arbitrary: i rule: less_induct)
    case less
    have c: "containing ?info i = containing info i" by (simp add: containing_def eq)
    have "max_throughput_loop pick rtts ?info (rs_end sp) e = max_throughput_loop pick rtts info (rs_end sp) e"
      if "i < e" "i < rs_end sp" for sp :: remote_span
      using less [of "rs_end sp"] that by linarith
    then show ?case
      by (subst (1 2) max_throughput_loop.simps) (auto simp: c rbind_def split: sum.splits)
  qed
  show ?thesis
    by (simp add: make_sequence_def make_sequence_with_min_latency_def build_inference_graph_def missing_blocks_def
        server_infos_def eq loop Let_def cong: option.case_cong split: routing_mode.split)
qed



text \<open>One announcement stops inference for everybody: a peer that announces an inference speed of
  zero, which validation accepts, makes the construction of every route over its blocks fail
  with a division by zero.\<close>

theorem zero_speed_breaks_routing:
  assumes "sp \<in> set (spans_by_priority info)" "si_inference_rps (rs_server_info sp) = Some 0"
    and "max (rs_start sp) (int a) < min (rs_end sp) (int b)"
    and "b \<le> length (spans_containing_block info)" "missing_blocks info a b = []"
  shows "make_sequence find_path pick rtts info a (Some b) Min_Latency needed = Inl ZeroDivisionError"
proof -
  have err: "rmap (\<lambda>(sp, i). compute_edge sp i) xs = Inl ZeroDivisionError" if "(sp, i) \<in> set xs" for xs i
    using that
  proof (induction xs)
    case (Cons x xs)
    show ?case
    proof (cases "x = (sp, i)")
      case True
      then show ?thesis using assms(2) by (simp add: compute_edge_def Let_def)
    next
      case False
      then have "rmap (\<lambda>(sp, i). compute_edge sp i) xs = Inl ZeroDivisionError" using Cons by simp
      then show ?thesis by (auto simp: compute_edge_def Let_def rbind_def split: prod.split sum.splits)
    qed
  qed simp
  have "compute_edges (int a) (int b) (spans_by_priority info) = Inl ZeroDivisionError"
    unfolding compute_edges_def
  proof (rule err)
    show "(sp, max (rs_start sp) (int a)) \<in> set (concat (map (\<lambda>sp. map (Pair sp)
            (py_range (max (rs_start sp) (int a)) (min (rs_end sp) (int b)))) (spans_by_priority info)))"
      using assms(1,3) by (auto intro!: bexI [of _ sp])
  qed
  moreover have "a \<noteq> b" using assms(3) by auto
  ultimately show ?thesis
    using assms(4,5) by (simp add: make_sequence_def make_sequence_with_min_latency_def build_inference_graph_def Let_def)
qed

definition zero_info_table :: sequence_info where
  "zero_info_table =
     (let m = \<lparr>rm_uid = ''m.0'', rm_servers = [(''Z'', (sample_info ONLINE 1)\<lparr>si_inference_rps := Some 0\<rparr>)]\<rparr> in
      case update_info 7 [m] (make_empty [''m.0'']) of Inl _ \<Rightarrow> make_empty [] | Inr i \<Rightarrow> i)"

theorem zero_speed_breaks_routing_witness:
  "make_sequence (\<lambda>_. None) (\<lambda>_ _ _. 0) [] zero_info_table 0 (Some 1) Min_Latency None = Inl ZeroDivisionError
    \<and> info_valid ((sample_info ONLINE 1)\<lparr>si_inference_rps := Some 0\<rparr>)"
proof
  show "make_sequence (\<lambda>_. None) (\<lambda>_ _ _. 0) [] zero_info_table 0 (Some 1) Min_Latency None = Inl ZeroDivisionError"
  proof (rule zero_speed_breaks_routing [of "hd (spans_by_priority zero_info_table)"])
    have "spans_by_priority zero_info_table \<noteq> []" by code_simp
    then show "hd (spans_by_priority zero_info_table) \<in> set (spans_by_priority zero_info_table)" by simp
  qed code_simp+
  show "info_valid ((sample_info ONLINE 1)\<lparr>si_inference_rps := Some 0\<rparr>)"
    by (simp add: info_valid_def sample_info_def)
qed


end
