(* ===== verification/Autograd.thy ===== *)
theory Autograd
  imports Routing
begin

text \<open>
  Models \<open>src/drift/client/sequential_autograd.py\<close> and \<open>src/drift/client/remote_forward_backward.py\<close>:
  a training pass over a chain of servers, with retries. A tensor of hidden states is the list of its
  batch rows, a row the list of its positions; prompts are a list of such tensors, one per block, and
  no list at all when they are a dummy. The swarm is a record of operations on a world. Batches that
  the code runs concurrently are run one after the other. Since retries may go on for ever when
  their number is not limited, the loops are partial functions. Serialisation, dtypes, devices and
  the request metadata are not represented.
\<close>

section \<open>One request\<close>

type_synonym 'h rows = "'h list list"

datatype 'h flat = is_hidden: Hidden (hidden_rows: "'h rows") | Layers (layer_list: "'h rows list")

fun nelement :: "'h flat \<Rightarrow> nat" where
  "nelement (Hidden x) = sum_list (map length x)"
| "nelement (Layers ps) = sum_list (map (\<lambda>x. sum_list (map length x)) ps)"

record 'h rpc_schema =
  rpc_keyword_names :: "string list"
  rpc_args :: nat
  rpc_outputs :: nat
  rpc_pack :: "'h flat list \<Rightarrow> 'h flat list res"
  rpc_position_bytes :: nat
  rpc_max_unary :: nat

text \<open>A call of the swarm gets the server, whether the tensors are streamed, and the tensors.\<close>

record ('h, 'w) train_net =
  sw_route :: "int \<Rightarrow> int \<Rightarrow> 'w \<Rightarrow> remote_span list res \<times> 'w"
  sw_forward :: "remote_span \<Rightarrow> bool \<Rightarrow> 'h flat list \<Rightarrow> 'w \<Rightarrow> 'h flat list res \<times> 'w"
  sw_backward :: "remote_span \<Rightarrow> bool \<Rightarrow> 'h flat list \<Rightarrow> 'w \<Rightarrow> 'h flat list res \<times> 'w"
  sw_failure :: "peer_id option \<Rightarrow> 'w \<Rightarrow> 'w"
  sw_success :: "peer_id \<Rightarrow> 'w \<Rightarrow> 'w"
  sw_schema :: "'h rpc_schema"
  sw_num_blocks :: nat
  sw_max_retries :: "nat option"

definition payload_size :: "'h rpc_schema \<Rightarrow> 'h flat list \<Rightarrow> nat" where
  "payload_size sc tensors = sum_list (map (\<lambda>t. rpc_position_bytes sc * nelement t) tensors)"

definition use_stream :: "'h rpc_schema \<Rightarrow> 'h flat list \<Rightarrow> bool" where
  "use_stream sc tensors \<longleftrightarrow> rpc_max_unary sc div 2 < payload_size sc tensors"

definition run_remote_forward :: "('h, 'w) train_net \<Rightarrow> remote_span \<Rightarrow> 'h flat list \<Rightarrow> 'w \<Rightarrow> 'h flat list res \<times> 'w" where
  "run_remote_forward sw sp inputs w =
     (let sc = sw_schema sw in
      if rpc_keyword_names sc \<noteq> [] then (Inl AssertionError, w)
      else if rpc_args sc = 0 then (Inl IndexError, w)
      else if length inputs < rpc_args sc + 1 then (Inl AssertionError, w)
      else
        (case sw_forward sw sp (use_stream sc inputs) inputs w of
           (Inl e, w') \<Rightarrow> (Inl e, w')
         | (Inr outs, w') \<Rightarrow> (rpc_pack sc outs, w')))"

definition run_remote_backward :: "('h, 'w) train_net \<Rightarrow> remote_span \<Rightarrow> 'h flat list \<Rightarrow> 'w \<Rightarrow> 'h flat list res \<times> 'w" where
  "run_remote_backward sw sp inputs w =
     (let sc = sw_schema sw in
      if rpc_args sc = 0 then (Inl IndexError, w)
      else if length inputs < rpc_args sc + rpc_outputs sc + 1 then (Inl AssertionError, w)
      else sw_backward sw sp (use_stream sc inputs) inputs w)"

section \<open>Forward\<close>

type_synonym 'h prompts = "'h rows list option"

definition dummy_prompts :: "'h prompts \<Rightarrow> bool" where
  "dummy_prompts ps = (case ps of None \<Rightarrow> True | Some ls \<Rightarrow> nelement (Layers ls) = 0)"

definition prompt_slice :: "remote_span \<Rightarrow> 'h prompts \<Rightarrow> 'h flat" where
  "prompt_slice sp ps = Layers (case ps of None \<Rightarrow> [] | Some ls \<Rightarrow> py_slice ls (rs_start sp) (rs_end sp))"

definition cut_route :: "int \<Rightarrow> remote_span list \<Rightarrow> remote_span list res" where
  "cut_route e spans =
     (if spans = [] then Inl IndexError
      else Inr (butlast spans @ [(last spans)\<lparr>rs_end := min (rs_end (last spans)) e\<rparr>]))"

text \<open>
  One attempt: the result with the span it ran on, the peer to blame if one was reached, and the
  spans left. An empty route leaves no spans behind.
\<close>

definition fresh_route ::
  "('h, 'w) train_net \<Rightarrow> int \<Rightarrow> int \<Rightarrow> remote_span list \<Rightarrow> 'w \<Rightarrow> remote_span list res \<times> remote_span list \<times> 'w" where
  "fresh_route sw block_idx end_index sequences w =
     (case sw_route sw block_idx end_index w of
        (Inl e, w1) \<Rightarrow> (Inl e, sequences, w1)
      | (Inr spans, w1) \<Rightarrow> (cut_route end_index spans, spans, w1))"

definition current_spans ::
  "('h, 'w) train_net \<Rightarrow> int \<Rightarrow> int \<Rightarrow> nat \<Rightarrow> remote_span list \<Rightarrow> 'w \<Rightarrow> remote_span list res \<times> remote_span list \<times> 'w" where
  "current_spans sw block_idx end_index attempt_no sequences w =
     (if sequences = [] \<or> 1 \<le> attempt_no then fresh_route sw block_idx end_index sequences w else (Inr sequences, sequences, w))"

definition try_forward ::
  "('h, 'w) train_net \<Rightarrow> 'h prompts \<Rightarrow> int \<Rightarrow> int \<Rightarrow> nat \<Rightarrow> 'h rows \<Rightarrow> remote_span list \<Rightarrow> 'w
   \<Rightarrow> ('h rows \<times> remote_span) res \<times> peer_id option \<times> remote_span list \<times> 'w" where
  "try_forward sw prompts end_index block_idx attempt_no inputs sequences w =
     (case current_spans sw block_idx end_index attempt_no sequences w of
        (Inl e, left, w1) \<Rightarrow> (Inl e, None, left, w1)
      | (Inr spans, _, w1) \<Rightarrow>
          let sp = hd spans;
              (r, w2) = run_remote_forward sw sp [Hidden inputs, prompt_slice sp prompts] w1;
              res = (case r of
                 Inl e \<Rightarrow> Inl e
               | Inr [Hidden outputs] \<Rightarrow>
                   if map length outputs = map length inputs then Inr (outputs, sp) else Inl AssertionError
               | Inr [_] \<Rightarrow> Inl AssertionError
               | Inr _ \<Rightarrow> Inl ValueError) in
          (res, Some (rs_peer_id sp), tl spans, w2))"

partial_function (option) forward_attempts ::
  "('h, 'w) train_net \<Rightarrow> 'h prompts \<Rightarrow> int \<Rightarrow> int \<Rightarrow> nat \<Rightarrow> 'h rows \<Rightarrow> remote_span list \<Rightarrow> 'w
   \<Rightarrow> (('h rows \<times> remote_span) res \<times> remote_span list \<times> 'w) option" where
  "forward_attempts sw prompts end_index block_idx attempt_no inputs sequences w =
     (case try_forward sw prompts end_index block_idx attempt_no inputs sequences w of
        (Inr (outputs, sp), peer, spans, w1) \<Rightarrow> Some (Inr (outputs, sp), spans, sw_success sw (rs_peer_id sp) w1)
      | (Inl e, peer, spans, w1) \<Rightarrow>
          (let w2 = sw_failure sw peer w1 in
           if sw_max_retries sw = Some (Suc attempt_no) then Some (Inl e, spans, w2)
           else forward_attempts sw prompts end_index block_idx (Suc attempt_no) inputs spans w2))"

partial_function (option) forward_loop ::
  "('h, 'w) train_net \<Rightarrow> 'h prompts \<Rightarrow> int \<Rightarrow> int \<Rightarrow> 'h rows \<Rightarrow> remote_span list \<Rightarrow> 'h rows list \<Rightarrow> remote_span list \<Rightarrow> 'w
   \<Rightarrow> (('h rows \<times> 'h rows list \<times> remote_span list) res \<times> 'w) option" where
  "forward_loop sw prompts end_index block_idx inputs sequences intermediate done_sequences w =
     (if end_index \<le> block_idx then Some (Inr (inputs, intermediate, done_sequences), w)
      else
        Option.bind (forward_attempts sw prompts end_index block_idx 0 inputs sequences w) (\<lambda>(r, spans, w1).
        case r of
          Inl e \<Rightarrow> Some (Inl e, w1)
        | Inr (outputs, sp) \<Rightarrow>
            forward_loop sw prompts end_index (rs_end sp) outputs spans (intermediate @ [inputs]) (done_sequences @ [sp]) w1))"

definition sequential_forward ::
  "('h, 'w) train_net \<Rightarrow> 'h prompts \<Rightarrow> 'h rows \<Rightarrow> int \<Rightarrow> int option \<Rightarrow> 'w
   \<Rightarrow> (('h rows \<times> 'h rows list \<times> remote_span list) res \<times> 'w) option" where
  "sequential_forward sw prompts inputs start_index end_opt w =
     (let end_index = (case end_opt of None \<Rightarrow> int (sw_num_blocks sw) | Some e \<Rightarrow> e) in
      if \<not> (0 \<le> start_index \<and> end_index \<le> int (sw_num_blocks sw)) then Some (Inl AssertionError, w)
      else if \<not> (dummy_prompts prompts \<or> (case prompts of None \<Rightarrow> True | Some ls \<Rightarrow> length ls = sw_num_blocks sw))
      then Some (Inl AssertionError, w)
      else forward_loop sw prompts end_index start_index inputs [] [] [] w)"

section \<open>Backward\<close>

text \<open>
  One attempt: after a failure the forward pass of the span is repeated and its pieces are pushed on
  the stacks (whose tops are the ends of the lists). The result is the gradient with the gradients of
  the prompts; the stacks, the input and the span of the attempt are kept for the next one. Not
  returning is \<open>None\<close>.
\<close>

record 'h backward_state =
  bs_inputs :: "'h rows"
  bs_span :: remote_span
  bs_intermediate :: "'h rows list"
  bs_sequences :: "remote_span list"

definition reforward ::
  "('h, 'w) train_net \<Rightarrow> 'h prompts \<Rightarrow> 'h backward_state \<Rightarrow> 'w \<Rightarrow> ('h backward_state res \<times> 'w) option" where
  "reforward sw prompts st w =
     map_option (\<lambda>(r, w1).
       (rbind r (\<lambda>(_, backup_inputs, backup_sequences).
          if length backup_inputs \<noteq> length backup_sequences then Inl AssertionError
          else if backup_sequences = [] then Inl IndexError
          else if rs_start (hd backup_sequences) \<noteq> rs_start (bs_span st) then Inl AssertionError
          else if rs_end (last backup_sequences) \<noteq> rs_end (bs_span st) then Inl AssertionError
          else Inr \<lparr>bs_inputs = last backup_inputs, bs_span = last backup_sequences,
                    bs_intermediate = bs_intermediate st @ butlast backup_inputs,
                    bs_sequences = bs_sequences st @ butlast backup_sequences\<rparr>), w1))
       (sequential_forward sw prompts (bs_inputs st) (rs_start (bs_span st)) (Some (rs_end (bs_span st))) w)"

definition call_backward ::
  "('h, 'w) train_net \<Rightarrow> 'h prompts \<Rightarrow> 'h flat list \<Rightarrow> 'h backward_state \<Rightarrow> 'w \<Rightarrow> ('h flat \<times> 'h flat list) res \<times> 'w" where
  "call_backward sw prompts grad_outputs st w =
     (let sp = bs_span st;
          (r, w1) = run_remote_backward sw sp (Hidden (bs_inputs st) # grad_outputs @ [prompt_slice sp prompts]) w in
      (case r of
         Inl e \<Rightarrow> Inl e
       | Inr (g # span_grad_prompts) \<Rightarrow> Inr (g, span_grad_prompts)
       | Inr [] \<Rightarrow> Inl ValueError, w1))"

definition try_backward ::
  "('h, 'w) train_net \<Rightarrow> 'h prompts \<Rightarrow> nat \<Rightarrow> 'h flat list \<Rightarrow> 'h backward_state \<Rightarrow> 'w
   \<Rightarrow> (('h flat \<times> 'h flat list) res \<times> 'h backward_state \<times> 'w) option" where
  "try_backward sw prompts attempt_no grad_outputs st w =
     Option.bind (if 1 \<le> attempt_no then reforward sw prompts st w else Some (Inr st, w)) (\<lambda>(r, w1).
     case r of
       Inl e \<Rightarrow> Some (Inl e, st, w1)
     | Inr st1 \<Rightarrow> let (r, w2) = call_backward sw prompts grad_outputs st1 w1 in Some (r, st1, w2))"

partial_function (option) backward_attempts ::
  "('h, 'w) train_net \<Rightarrow> 'h prompts \<Rightarrow> nat \<Rightarrow> 'h flat list \<Rightarrow> 'h backward_state \<Rightarrow> 'w
   \<Rightarrow> (('h flat \<times> 'h flat list) res \<times> 'h backward_state \<times> 'w) option" where
  "backward_attempts sw prompts attempt_no grad_outputs st w =
     Option.bind (try_backward sw prompts attempt_no grad_outputs st w) (\<lambda>(r, st1, w1).
     case r of
       Inr y \<Rightarrow> Some (Inr y, st1, sw_success sw (rs_peer_id (bs_span st1)) w1)
     | Inl e \<Rightarrow>
         (let w2 = sw_failure sw (Some (rs_peer_id (bs_span st1))) w1 in
          if sw_max_retries sw = Some (Suc attempt_no) then Some (Inl e, st1, w2)
          else backward_attempts sw prompts (Suc attempt_no) grad_outputs st1 w2))"

partial_function (option) backward_loop ::
  "('h, 'w) train_net \<Rightarrow> 'h prompts \<Rightarrow> 'h flat list \<Rightarrow> 'h rows list \<Rightarrow> remote_span list \<Rightarrow> 'h flat list \<Rightarrow> 'w
   \<Rightarrow> (('h flat list \<times> 'h flat list) res \<times> 'w) option" where
  "backward_loop sw prompts grad_outputs intermediate sequences grad_prompts_reversed w =
     (if sequences = [] \<or> intermediate = [] then Some (Inr (grad_outputs, grad_prompts_reversed), w)
      else
        Option.bind (backward_attempts sw prompts 0 grad_outputs
          \<lparr>bs_inputs = last intermediate, bs_span = last sequences,
           bs_intermediate = butlast intermediate, bs_sequences = butlast sequences\<rparr> w) (\<lambda>(r, st, w1).
        case r of
          Inl e \<Rightarrow> Some (Inl e, w1)
        | Inr (g, span_grad_prompts) \<Rightarrow>
            backward_loop sw prompts [g] (bs_intermediate st) (bs_sequences st) (grad_prompts_reversed @ span_grad_prompts) w1))"

text \<open>\<open>torch.cat\<close> along the first dimension: tensors of different rank cannot be joined.\<close>

definition cat_flat :: "'h flat list \<Rightarrow> 'h flat res" where
  "cat_flat ts =
     (if list_all is_hidden ts then Inr (Hidden (concat (map hidden_rows ts)))
      else if list_all (\<lambda>t. \<not> is_hidden t) ts then Inr (Layers (concat (map layer_list ts)))
      else Inl RuntimeError)"

definition sequential_backward ::
  "('h, 'w) train_net \<Rightarrow> 'h prompts \<Rightarrow> 'h flat list \<Rightarrow> 'h rows list \<Rightarrow> remote_span list \<Rightarrow> 'w
   \<Rightarrow> (('h flat list \<times> 'h flat option) res \<times> 'w) option" where
  "sequential_backward sw prompts grad_outputs intermediate sequences w =
     (if length intermediate \<noteq> length sequences then Some (Inl AssertionError, w)
      else
        map_option (\<lambda>(r, w1).
          (rbind r (\<lambda>(gs, grad_prompts_reversed).
             if grad_prompts_reversed = [] then Inr (gs, None)
             else rbind (cat_flat (rev grad_prompts_reversed)) (\<lambda>t. Inr (gs, Some t))), w1))
          (backward_loop sw prompts grad_outputs intermediate sequences [] w))"

section \<open>The autograd function\<close>

text \<open>\<open>tensor.split(n)\<close> into chunks of \<open>n\<close> rows; an empty tensor is one empty chunk.\<close>

function split_rows :: "nat \<Rightarrow> 'x list \<Rightarrow> 'x list list" where
  "split_rows n xs = (if n = 0 \<or> length xs \<le> n then [xs] else take n xs # split_rows n (drop n xs))"
  by pat_completeness auto
termination
  by (relation "measure (\<lambda>(n, xs). length xs)") auto

declare split_rows.simps [simp del]

definition MAX_TOKENS_IN_BATCH :: nat where "MAX_TOKENS_IN_BATCH = 1024"

definition rows_per_batch :: "nat \<Rightarrow> nat res" where
  "rows_per_batch seq = (if seq = 0 then Inl ZeroDivisionError else Inr (max (MAX_TOKENS_IN_BATCH div seq) 1))"

text \<open>Prompts are split along their second dimension, the batch.\<close>

definition split_layers :: "nat \<Rightarrow> 'h rows list \<Rightarrow> 'h rows list list" where
  "split_layers n ls =
     (let chunks = map (split_rows n) ls in map (\<lambda>k. map (\<lambda>c. c ! k) chunks) [0..<length (hd chunks)])"

definition split_prompt_batches :: "nat \<Rightarrow> nat \<Rightarrow> 'h prompts \<Rightarrow> 'h prompts list" where
  "split_prompt_batches n num prompts =
     (case prompts of
        None \<Rightarrow> replicate num None
      | Some ls \<Rightarrow> if dummy_prompts prompts then replicate num None else map Some (split_layers n ls))"

record 'h autograd_ctx =
  ac_prompt_batches :: "'h prompts list"
  ac_intermediate :: "'h rows list list"
  ac_sequences :: "remote_span list list"

fun gather_batches :: "('x \<Rightarrow> 'w \<Rightarrow> ('y res \<times> 'w) option) \<Rightarrow> 'x list \<Rightarrow> 'w \<Rightarrow> ('y list res \<times> 'w) option" where
  "gather_batches f [] w = Some (Inr [], w)"
| "gather_batches f (x # xs) w =
     Option.bind (f x w) (\<lambda>(r, w1).
     Option.bind (gather_batches f xs w1) (\<lambda>(rs, w2).
       Some (rbind r (\<lambda>y. rbind rs (\<lambda>ys. Inr (y # ys))), w2)))"

definition autograd_forward ::
  "('h, 'w) train_net \<Rightarrow> nat \<Rightarrow> 'h rows \<Rightarrow> 'h prompts \<Rightarrow> 'w \<Rightarrow> (('h rows \<times> 'h autograd_ctx) res \<times> 'w) option" where
  "autograd_forward sw seq inputs prompts w =
     (case rows_per_batch seq of
        Inl e \<Rightarrow> Some (Inl e, w)
      | Inr n \<Rightarrow>
          let input_batches = split_rows n inputs;
              ps = split_prompt_batches n (length input_batches) prompts in
          map_option (\<lambda>(r, w1).
            (rbind r (\<lambda>outputs.
               if length outputs \<noteq> length input_batches then Inl AssertionError
               else Inr (concat (map fst outputs),
                 \<lparr>ac_prompt_batches = ps, ac_intermediate = map (fst \<circ> snd) outputs, ac_sequences = map (snd \<circ> snd) outputs\<rparr>)), w1))
            (gather_batches (\<lambda>(x, p). sequential_forward sw p x 0 None) (zip input_batches ps) w))"

text \<open>\<open>torch.cat\<close> along the second dimension: the first one has to agree, and the rank.\<close>

definition cat_second :: "'a list list list \<Rightarrow> 'a list list res" where
  "cat_second xss =
     (if list_ex (\<lambda>xs. length xs \<noteq> length (hd xss)) xss then Inl RuntimeError
      else Inr (map (\<lambda>k. concat (map (\<lambda>xs. xs ! k) xss)) [0..<length (hd xss)]))"

definition cat_flat_second :: "'h flat list \<Rightarrow> 'h flat res" where
  "cat_flat_second ts =
     (if list_all is_hidden ts then rbind (cat_second (map hidden_rows ts)) (\<lambda>x. Inr (Hidden x))
      else if list_all (\<lambda>t. \<not> is_hidden t) ts then rbind (cat_second (map layer_list ts)) (\<lambda>l. Inr (Layers l))
      else Inl RuntimeError)"

definition join_grads :: "('h flat list \<times> 'h flat option) list \<Rightarrow> ('h flat \<times> 'h flat option) res" where
  "join_grads outputs =
     (if list_ex (\<lambda>out. fst out = []) outputs then Inl IndexError
      else
        rbind (cat_flat (map (hd \<circ> fst) outputs)) (\<lambda>grad_inputs.
          if list_ex (\<lambda>out. snd out = None) outputs then Inr (grad_inputs, None)
          else rbind (cat_flat_second (map (the \<circ> snd) outputs)) (\<lambda>grad_prompts. Inr (grad_inputs, Some grad_prompts))))"

text \<open>
  The backward pass pops from the lists of spans in the context, but from copies of the lists of
  inputs: after it has returned, the context holds the inputs without the spans.
\<close>

definition autograd_backward ::
  "('h, 'w) train_net \<Rightarrow> nat \<Rightarrow> 'h autograd_ctx \<Rightarrow> 'h rows \<Rightarrow> 'w
   \<Rightarrow> (('h flat \<times> 'h flat option \<times> 'h autograd_ctx) res \<times> 'w) option" where
  "autograd_backward sw seq ctx grad_outputs w =
     (case rows_per_batch seq of
        Inl e \<Rightarrow> Some (Inl e, w)
      | Inr n \<Rightarrow>
          let grads = split_rows n grad_outputs in
          if length (ac_intermediate ctx) \<noteq> length grads \<or> length grads \<noteq> length (ac_sequences ctx)
          then Some (Inl AssertionError, w)
          else
            map_option (\<lambda>(r, w1).
                (rbind r (\<lambda>outputs. rbind (join_grads outputs) (\<lambda>(g, gp).
                   Inr (g, gp, ctx\<lparr>ac_sequences := map (\<lambda>_. []) (ac_sequences ctx)\<rparr>))), w1))
              (gather_batches (\<lambda>(g, xs, p, spans). sequential_backward sw p [Hidden g] xs spans)
                 (zip grads (zip (ac_intermediate ctx) (zip (ac_prompt_batches ctx) (ac_sequences ctx)))) w))"

end
