(* ===== verification/Autograd_Correct.thy ===== *)
theory Autograd_Correct
  imports Autograd Routing_Correct
begin

text \<open>
  Training through a faulty swarm: whenever the servers that answer answer correctly, a pass that
  returns has the result of the composition of all blocks (forward) and of the chain rule over all
  blocks (backward), whatever failed and was retried on the way; with a bound on the number of
  retries every pass returns.
\<close>

section \<open>Paths\<close>

fun path :: "int \<Rightarrow> int \<Rightarrow> remote_span list \<Rightarrow> bool" where
  "path a b [] \<longleftrightarrow> a = b"
| "path a b (sp # sps) \<longleftrightarrow> rs_start sp = a \<and> a < rs_end sp \<and> path (rs_end sp) b sps"

text \<open>What \<open>make_sequence\<close> gives in mode \<open>max_throughput\<close>: only the last span may reach too far.\<close>

fun route_to :: "int \<Rightarrow> int \<Rightarrow> remote_span list \<Rightarrow> bool" where
  "route_to a b [] \<longleftrightarrow> False"
| "route_to a b (sp # sps) \<longleftrightarrow> rs_start sp = a \<and> a < rs_end sp \<and> a < b
     \<and> (if sps = [] then b \<le> rs_end sp else route_to (rs_end sp) b sps)"

lemma path_le: "path a b sps \<Longrightarrow> a \<le> b"
  by (induction sps arbitrary: a) (auto, fastforce)

lemma path_append: "path a b (xs @ ys) \<longleftrightarrow> (\<exists>c. path a c xs \<and> path c b ys)"
  by (induction xs arbitrary: a) auto

lemma path_single [simp]: "path a b [sp] \<longleftrightarrow> rs_start sp = a \<and> a < rs_end sp \<and> rs_end sp = b"
  by auto

lemma cut_route_path: "route_to a b spans \<Longrightarrow> cut_route b spans = Inr sps \<Longrightarrow> sps \<noteq> [] \<and> path a b sps"
proof (induction spans arbitrary: a sps)
  case Nil
  then show ?case by simp
next
  case (Cons sp rest)
  show ?case
  proof (cases "rest = []")
    case True
    then show ?thesis using Cons.prems by (auto simp: cut_route_def)
  next
    case False
    obtain sps' where c: "cut_route b rest = Inr sps'" using False by (simp add: cut_route_def)
    then have "sps = sp # sps'" using Cons.prems(2) False by (auto simp: cut_route_def)
    then show ?thesis using Cons.IH [OF _ c] Cons.prems(1) False by auto
  qed
qed

section \<open>Correct answers\<close>

definition run_blocks :: "(int \<Rightarrow> 'h rows \<Rightarrow> 'h rows) \<Rightarrow> int \<Rightarrow> int \<Rightarrow> 'h rows \<Rightarrow> 'h rows" where
  "run_blocks f a b x = fold f (py_range a b) x"

fun chain_rule ::
  "(int \<Rightarrow> 'h rows \<Rightarrow> 'h rows) \<Rightarrow> (int \<Rightarrow> 'h rows \<Rightarrow> 'h rows \<Rightarrow> 'h rows \<times> 'h rows) \<Rightarrow> int list \<Rightarrow> 'h rows \<Rightarrow> 'h rows
   \<Rightarrow> 'h rows \<times> 'h rows list" where
  "chain_rule f bk [] x g = (g, [])"
| "chain_rule f bk (i # is) x g =
     (let (g1, ps) = chain_rule f bk is (f i x) g; (g2, p) = bk i x g1 in (g2, p # ps))"

text \<open>Answers and routes of the swarm are right when there are any; failures are free.\<close>

definition routes_ok :: "('h, 'w) train_net \<Rightarrow> bool" where
  "routes_ok sw \<longleftrightarrow> (\<forall>a b w spans. 0 \<le> a \<and> a < b \<and> b \<le> int (sw_num_blocks sw) \<and> fst (sw_route sw a b w) = Inr spans
     \<longrightarrow> route_to a b spans)"

definition honest_forward :: "('h, 'w) train_net \<Rightarrow> 'h prompts \<Rightarrow> (int \<Rightarrow> 'h rows \<Rightarrow> 'h rows) \<Rightarrow> bool" where
  "honest_forward sw prompts f \<longleftrightarrow> (\<forall>sp streamed x w outs ts.
     0 \<le> rs_start sp \<and> rs_start sp < rs_end sp \<and> rs_end sp \<le> int (sw_num_blocks sw)
     \<and> fst (sw_forward sw sp streamed [Hidden x, prompt_slice sp prompts] w) = Inr outs \<and> rpc_pack (sw_schema sw) outs = Inr ts
     \<longrightarrow> ts = [Hidden (run_blocks f (rs_start sp) (rs_end sp) x)])"

definition honest_backward ::
  "('h, 'w) train_net \<Rightarrow> 'h prompts \<Rightarrow> (int \<Rightarrow> 'h rows \<Rightarrow> 'h rows) \<Rightarrow> (int \<Rightarrow> 'h rows \<Rightarrow> 'h rows \<Rightarrow> 'h rows \<times> 'h rows) \<Rightarrow> bool" where
  "honest_backward sw prompts f bk \<longleftrightarrow> (\<forall>sp streamed x g w ts.
     0 \<le> rs_start sp \<and> rs_start sp < rs_end sp \<and> rs_end sp \<le> int (sw_num_blocks sw)
     \<and> fst (sw_backward sw sp streamed [Hidden x, Hidden g, prompt_slice sp prompts] w) = Inr ts
     \<longrightarrow> (let (g', ps) = chain_rule f bk (py_range (rs_start sp) (rs_end sp)) x g in
          ts = Hidden g' # (if dummy_prompts prompts then [] else [Layers ps])))"

lemma run_blocks_same [simp]: "run_blocks f a a x = x"
  by (simp add: run_blocks_def)

lemma py_range_split: "a \<le> b \<Longrightarrow> b \<le> c \<Longrightarrow> py_range a c = py_range a b @ py_range b c"
  using upto_split1 [of a b "c - 1"] by (cases "b = c") (simp_all add: py_range_def)

lemma run_blocks_split: "a \<le> b \<Longrightarrow> b \<le> c \<Longrightarrow> run_blocks f a c x = run_blocks f b c (run_blocks f a b x)"
  by (simp add: run_blocks_def py_range_split [of a b c])

lemma chain_rule_append:
  "chain_rule f bk (is @ js) x g =
     (let (g1, qs) = chain_rule f bk js (fold f is x) g; (g2, ps) = chain_rule f bk is x g1 in (g2, ps @ qs))"
  by (induction "is" arbitrary: x) (auto simp: Let_def split: prod.splits)

text \<open>The inputs of the spans of a path.\<close>

fun span_inputs :: "(int \<Rightarrow> 'h rows \<Rightarrow> 'h rows) \<Rightarrow> remote_span list \<Rightarrow> 'h rows \<Rightarrow> 'h rows list" where
  "span_inputs f [] x = []"
| "span_inputs f (sp # sps) x = x # span_inputs f sps (run_blocks f (rs_start sp) (rs_end sp) x)"

lemma length_span_inputs [simp]: "length (span_inputs f sps x) = length sps"
  by (induction sps arbitrary: x) auto

lemma span_inputs_append:
  "path a c xs \<Longrightarrow> span_inputs f (xs @ ys) x = span_inputs f xs x @ span_inputs f ys (run_blocks f a c x)"
proof (induction xs arbitrary: a x)
  case (Cons sp xs)
  then have "a \<le> rs_end sp" "rs_end sp \<le> c" using path_le by auto
  then show ?case using Cons by (simp add: run_blocks_split [of a "rs_end sp" c])
qed simp

section \<open>Forward\<close>

lemma run_remote_forward_ok:
  assumes "honest_forward sw prompts f" "0 \<le> rs_start sp" "rs_start sp < rs_end sp" "rs_end sp \<le> int (sw_num_blocks sw)"
    and "run_remote_forward sw sp [Hidden x, prompt_slice sp prompts] w = (Inr ts, w')"
  shows "ts = [Hidden (run_blocks f (rs_start sp) (rs_end sp) x)]"
proof -
  let ?in = "[Hidden x, prompt_slice sp prompts]"
  obtain outs where "fst (sw_forward sw sp (use_stream (sw_schema sw) ?in) ?in w) = Inr outs" "rpc_pack (sw_schema sw) outs = Inr ts"
    using assms(5) by (auto simp: run_remote_forward_def Let_def split: if_splits sum.splits prod.splits)
  then show ?thesis using assms(1-4) unfolding honest_forward_def by blast
qed

lemma current_spans_ok:
  assumes "routes_ok sw" "0 \<le> a" "a < b" "b \<le> int (sw_num_blocks sw)"
    and "current_spans sw a b k seqs w = (Inr sps, left, w1)" "k = 0 \<Longrightarrow> seqs = [] \<or> path a b seqs"
  shows "sps \<noteq> [] \<and> path a b sps"
proof (cases "seqs = [] \<or> 1 \<le> k")
  case True
  then obtain raw where "fst (sw_route sw a b w) = Inr raw" "cut_route b raw = Inr sps"
    using assms(5) by (auto simp: current_spans_def fresh_route_def split: prod.splits sum.splits)
  then show ?thesis using assms(1-4) cut_route_path by (metis routes_ok_def)
next
  case False
  then show ?thesis using assms(5,6) by (auto simp: current_spans_def)
qed

lemma try_forward_ok:
  assumes "routes_ok sw" "honest_forward sw prompts f" "0 \<le> a" "a < b" "b \<le> int (sw_num_blocks sw)"
    and t: "try_forward sw prompts b a k x seqs w = (Inr (y, sp), peer, spans, w')"
    and seqs: "k = 0 \<Longrightarrow> seqs = [] \<or> path a b seqs"
  shows "y = run_blocks f a (rs_end sp) x \<and> path a b (sp # spans)"
proof -
  obtain sps left w1 where c: "current_spans sw a b k seqs w = (Inr sps, left, w1)"
    using t by (auto simp: try_forward_def split: sum.splits prod.splits)
  note p = current_spans_ok [OF assms(1,3-5) c seqs]
  then obtain sp' rest where sps: "sps = sp' # rest" by (cases sps) auto
  have e: "rs_start sp' = a" "a < rs_end sp'" "rs_end sp' \<le> b" using p sps path_le by auto
  obtain r w2 where r: "run_remote_forward sw sp' [Hidden x, prompt_slice sp' prompts] w1 = (r, w2)" by fastforce
  have "sp' = sp \<and> spans = rest \<and> r = Inr [Hidden y]"
    using t c sps r by (auto simp: try_forward_def split: sum.splits list.splits flat.splits if_splits)
  then show ?thesis
    using run_remote_forward_ok [OF assms(2), of sp x w1 "[Hidden y]" w2] r e p sps assms(3,5) by auto
qed

lemma forward_attempts_ok:
  fixes sw :: "('h, 'w) train_net" and f :: "int \<Rightarrow> 'h rows \<Rightarrow> 'h rows"
  assumes "forward_attempts sw prompts b a k x seqs w = Some r"
    and "routes_ok sw" "honest_forward sw prompts f" "0 \<le> a" "a < b" "b \<le> int (sw_num_blocks sw)"
    and "k = 0 \<longrightarrow> seqs = [] \<or> path a b seqs" "fst r = Inr (y, sp)"
  shows "y = run_blocks f a (rs_end sp) x \<and> path a b (sp # fst (snd r))"
proof -
  define P where "P = (\<lambda>(sw :: ('h, 'w) train_net) prompts b a k x seqs (w :: 'w) r. routes_ok sw \<and> honest_forward sw prompts f \<and> 0 \<le> a
    \<and> a < b \<and> b \<le> int (sw_num_blocks sw) \<and> (k = (0::nat) \<longrightarrow> seqs = [] \<or> path a b seqs) \<and> fst r = Inr (y, sp)
    \<longrightarrow> y = run_blocks f a (rs_end sp) x \<and> path a b (sp # fst (snd (r :: ('h rows \<times> remote_span) res \<times> remote_span list \<times> 'w))))"
  have "P sw prompts b a k x seqs w r"
  proof (rule forward_attempts.raw_induct [OF _ assms(1), where P = P])
    fix self and sw :: "('h, 'w) train_net" and prompts b a k x seqs w r
    assume IH: "\<And>sw prompts b a k x seqs w r. self sw prompts b a k x seqs w = Some r \<Longrightarrow> P sw prompts b a k x seqs w r"
      and body: "(case try_forward sw prompts b a k x seqs w of
        (Inl e, peer, spans, w1) \<Rightarrow>
          (let w2 = sw_failure sw peer w1 in
           if sw_max_retries sw = Some (Suc k) then Some (Inl e, spans, w2) else self sw prompts b a (Suc k) x spans w2)
      | (Inr (outputs, sp), peer, spans, w1) \<Rightarrow> Some (Inr (outputs, sp), spans, sw_success sw (rs_peer_id sp) w1)) = Some r"
    obtain r1 peer spans w1 where t: "try_forward sw prompts b a k x seqs w = (r1, peer, spans, w1)" by (metis prod_cases4)
    show "P sw prompts b a k x seqs w r"
    proof (cases r1)
      case (Inl e)
      then have "fst r = Inr (y, sp) \<Longrightarrow> self sw prompts b a (Suc k) x spans (sw_failure sw peer w1) = Some r"
        using body t by (auto simp: Let_def split: if_splits)
      with IH [of sw prompts b a "Suc k" x spans "sw_failure sw peer w1" r] show ?thesis by (auto simp: P_def)
    next
      case (Inr z)
      then have "r = (Inr z, spans, sw_success sw (rs_peer_id (snd z)) w1)" using body t by (auto split: prod.splits)
      then show ?thesis using try_forward_ok [of sw prompts f a b k x seqs w y sp peer spans w1] t Inr by (auto simp: P_def)
    qed
  qed
  then show ?thesis using assms(2-) by (simp add: P_def)
qed

text \<open>With a bound on the retries the attempts come to an end.\<close>

lemma forward_attempts_end:
  assumes "sw_max_retries sw = Some (Suc m)" "k \<le> m"
  shows "\<exists>r. forward_attempts sw prompts b a k x seqs w = Some r"
  using assms(2)
proof (induction "m - k" arbitrary: k seqs w)
  case 0
  then show ?case using assms(1) by (subst forward_attempts.simps) (auto simp: Let_def split: prod.splits sum.splits)
next
  case (Suc d)
  then have "d = m - Suc k" "Suc k \<le> m" by auto
  from Suc.hyps(1) [OF this] show ?case using assms(1) Suc.prems
    by (subst forward_attempts.simps) (auto simp: Let_def split: prod.splits sum.splits)
qed

definition forward_result ::
  "(int \<Rightarrow> 'h rows \<Rightarrow> 'h rows) \<Rightarrow> int \<Rightarrow> int \<Rightarrow> 'h rows \<Rightarrow> 'h rows list \<Rightarrow> remote_span list
   \<Rightarrow> ('h rows \<times> 'h rows list \<times> remote_span list) res \<Rightarrow> bool" where
  "forward_result f a b x acc done_spans r \<longleftrightarrow> (case r of
     Inl e \<Rightarrow> True
   | Inr (y, acc', done') \<Rightarrow> y = run_blocks f a b x
       \<and> (\<exists>new. path a b new \<and> done' = done_spans @ new \<and> acc' = acc @ span_inputs f new x))"

lemma forward_result_step:
  assumes "forward_result f c b (run_blocks f a c x) (acc @ [x]) (done_spans @ [sp]) r"
    and "rs_start sp = a" "a < rs_end sp" "rs_end sp = c" "c \<le> b"
  shows "forward_result f a b x acc done_spans r"
proof (cases r)
  case (Inl e)
  then show ?thesis by (simp add: forward_result_def)
next
  case (Inr q)
  obtain y acc' done' where q: "q = (y, acc', done')" by (cases q) auto
  from assms(1) Inr q obtain new where n: "y = run_blocks f c b (run_blocks f a c x)" "path c b new"
      "done' = done_spans @ sp # new" "acc' = acc @ x # span_inputs f new (run_blocks f a c x)"
    by (auto simp: forward_result_def)
  have "path a b (sp # new)" using n(2) assms(2-4) by simp
  moreover have "span_inputs f (sp # new) x = x # span_inputs f new (run_blocks f a c x)" using assms(2,4) by simp
  ultimately show ?thesis
    using n(1,3,4) Inr q assms(3-5) run_blocks_split [of a c b f x] unfolding forward_result_def
    by (auto intro!: exI [of _ "sp # new"])
qed

lemma forward_loop_ok:
  fixes sw :: "('h, 'w) train_net" and f :: "int \<Rightarrow> 'h rows \<Rightarrow> 'h rows"
  assumes "forward_loop sw prompts b a x seqs acc done_spans w = Some r"
    and "routes_ok sw" "honest_forward sw prompts f" "0 \<le> a" "a \<le> b" "b \<le> int (sw_num_blocks sw)" "seqs = [] \<or> path a b seqs"
  shows "forward_result f a b x acc done_spans (fst r)"
proof -
  define P where "P = (\<lambda>(sw :: ('h, 'w) train_net) prompts b a x seqs acc done_spans (w :: 'w) (r :: _ \<times> 'w). routes_ok sw \<and> honest_forward sw prompts f
    \<and> 0 \<le> a \<and> a \<le> b \<and> b \<le> int (sw_num_blocks sw) \<and> (seqs = [] \<or> path a b seqs)
    \<longrightarrow> forward_result f a b x acc done_spans (fst r))"
  have "P sw prompts b a x seqs acc done_spans w r"
  proof (rule forward_loop.raw_induct [OF _ assms(1), where P = P])
    fix self and sw :: "('h, 'w) train_net" and prompts b a x seqs acc done_spans w r
    assume IH: "\<And>sw prompts b a x seqs acc done_spans w r. self sw prompts b a x seqs acc done_spans w = Some r
        \<Longrightarrow> P sw prompts b a x seqs acc done_spans w r"
      and body: "(if b \<le> a then Some (Inr (x, acc, done_spans), w)
      else Option.bind (forward_attempts sw prompts b a 0 x seqs w) (\<lambda>(r, spans, w1).
        case r of
          Inl e \<Rightarrow> Some (Inl e, w1)
        | Inr (outputs, sp) \<Rightarrow> self sw prompts b (rs_end sp) outputs spans (acc @ [x]) (done_spans @ [sp]) w1)) = Some r"
    show "P sw prompts b a x seqs acc done_spans w r"
      unfolding P_def
    proof (intro impI)
      assume h: "routes_ok sw \<and> honest_forward sw prompts f \<and> 0 \<le> a \<and> a \<le> b \<and> b \<le> int (sw_num_blocks sw) \<and> (seqs = [] \<or> path a b seqs)"
      show "forward_result f a b x acc done_spans (fst r)"
      proof (cases "b \<le> a")
        case True
        then show ?thesis using body h by (auto simp: forward_result_def)
      next
        case False
        then obtain r1 spans w1 where t: "forward_attempts sw prompts b a 0 x seqs w = Some (r1, spans, w1)"
          using body by (cases "forward_attempts sw prompts b a 0 x seqs w") auto
        show ?thesis
        proof (cases r1)
          case (Inl e)
          then show ?thesis using body t False by (auto simp: forward_result_def)
        next
          case (Inr q)
          obtain y sp where q: "q = (y, sp)" by (cases q)
          have ok: "y = run_blocks f a (rs_end sp) x" "path a b (sp # spans)"
            using forward_attempts_ok [OF t, of f y sp] h False Inr q by auto
          then have sp: "rs_start sp = a" "a < rs_end sp" "path (rs_end sp) b spans" "rs_end sp \<le> b" using path_le by auto
          have "self sw prompts b (rs_end sp) y spans (acc @ [x]) (done_spans @ [sp]) w1 = Some r"
            using body t False Inr q by auto
          from IH [OF this] have "forward_result f (rs_end sp) b y (acc @ [x]) (done_spans @ [sp]) (fst r)"
            using h sp by (auto simp: P_def)
          then show ?thesis using forward_result_step [OF _ sp(1,2) refl sp(4)] ok(1) by blast
        qed
      qed
    qed
  qed
  then show ?thesis using assms(2-) by (auto simp: P_def)
qed

lemma forward_loop_end:
  assumes "sw_max_retries sw = Some (Suc m)" "routes_ok sw" "honest_forward sw prompts f" "b \<le> int (sw_num_blocks sw)"
    and "0 \<le> a" "seqs = [] \<or> path a b seqs"
  shows "\<exists>r. forward_loop sw prompts b a x seqs acc done_spans w = Some r"
  using assms(5,6)
proof (induction "nat (b - a)" arbitrary: a x seqs acc done_spans w rule: less_induct)
  case less
  show ?case
  proof (cases "b \<le> a")
    case True
    then show ?thesis by (subst forward_loop.simps) simp
  next
    case False
    obtain r1 spans w1 where t: "forward_attempts sw prompts b a 0 x seqs w = Some (r1, spans, w1)"
      using forward_attempts_end [OF assms(1), of 0 prompts b a x seqs w] by auto
    show ?thesis
    proof (cases r1)
      case (Inl e)
      then show ?thesis using t False by (subst forward_loop.simps) simp
    next
      case (Inr q)
      obtain y sp where q: "q = (y, sp)" by (cases q)
      have "path a b (sp # spans)"
        using forward_attempts_ok [OF t assms(2,3) less.prems(1) _ assms(4), of y sp] less.prems False Inr q by auto
      then have "a < rs_end sp" "path (rs_end sp) b spans" by auto
      then show ?thesis using less.hyps [of "rs_end sp" spans y "acc @ [x]" "done_spans @ [sp]" w1] less.prems(1) t False Inr q
        by (subst forward_loop.simps) auto
    qed
  qed
qed

lemma sequential_forward_ok:
  assumes "routes_ok sw" "honest_forward sw prompts f" "a \<le> b" "sequential_forward sw prompts x a (Some b) w = Some r"
  shows "forward_result f a b x [] [] (fst r)"
proof (cases "0 \<le> a \<and> b \<le> int (sw_num_blocks sw) \<and> forward_loop sw prompts b a x [] [] [] w = Some r")
  case True
  then show ?thesis using forward_loop_ok [OF _ assms(1,2) _ assms(3)] by blast
next
  case False
  then have "r = (Inl AssertionError, w)"
    using assms(4) by (auto simp: sequential_forward_def Let_def split: if_splits)
  then show ?thesis by (simp add: forward_result_def)
qed

lemma sequential_forward_end:
  assumes "sw_max_retries sw = Some (Suc m)" "routes_ok sw" "honest_forward sw prompts f"
  shows "\<exists>r. sequential_forward sw prompts x a e w = Some r"
  using forward_loop_end [OF assms] by (simp add: sequential_forward_def Let_def)

section \<open>Backward\<close>

text \<open>The stacks hold the spans from \<open>a\<close> to \<open>c\<close> with their inputs, the top ones in the state.\<close>

definition stack_ok :: "(int \<Rightarrow> 'h rows \<Rightarrow> 'h rows) \<Rightarrow> int \<Rightarrow> 'h rows \<Rightarrow> int \<Rightarrow> 'h backward_state \<Rightarrow> bool" where
  "stack_ok f a x c st \<longleftrightarrow> path a c (bs_sequences st @ [bs_span st])
     \<and> bs_intermediate st @ [bs_inputs st] = span_inputs f (bs_sequences st @ [bs_span st]) x"

lemma stack_ok_top:
  assumes "stack_ok f a x c st"
  shows "a \<le> rs_start (bs_span st)" "rs_start (bs_span st) < rs_end (bs_span st)" "rs_end (bs_span st) = c"
    "path a (rs_start (bs_span st)) (bs_sequences st)" "bs_inputs st = run_blocks f a (rs_start (bs_span st)) x"
    "bs_intermediate st = span_inputs f (bs_sequences st) x"
proof -
  obtain m where m: "path a m (bs_sequences st)" "path m c [bs_span st]"
    using assms by (auto simp: stack_ok_def path_append)
  then have "span_inputs f (bs_sequences st @ [bs_span st]) x = span_inputs f (bs_sequences st) x @ [run_blocks f a m x]"
    by (simp add: span_inputs_append [OF m(1)])
  then show "a \<le> rs_start (bs_span st)" "rs_start (bs_span st) < rs_end (bs_span st)" "rs_end (bs_span st) = c"
    "path a (rs_start (bs_span st)) (bs_sequences st)" "bs_inputs st = run_blocks f a (rs_start (bs_span st)) x"
    "bs_intermediate st = span_inputs f (bs_sequences st) x"
    using m path_le [OF m(1)] assms by (auto simp: stack_ok_def)
qed

lemma stack_of_path:
  assumes "path a c spans" "spans \<noteq> []" "inputs = span_inputs f spans x"
  shows "stack_ok f a x c \<lparr>bs_inputs = last inputs, bs_span = last spans,
           bs_intermediate = butlast inputs, bs_sequences = butlast spans\<rparr>"
proof -
  have "inputs \<noteq> []" using assms(2,3) by (metis length_0_conv length_span_inputs)
  then show ?thesis using assms by (simp add: stack_ok_def)
qed

lemma reforward_ok:
  assumes "routes_ok sw" "honest_forward sw prompts f" "stack_ok f a x c st"
    and "reforward sw prompts st w = Some (Inr st', w')"
  shows "stack_ok f a x c st'"
proof -
  note top = stack_ok_top [OF assms(3)]
  let ?s = "rs_start (bs_span st)"
  obtain r where r: "sequential_forward sw prompts (bs_inputs st) ?s (Some (rs_end (bs_span st))) w = Some (Inr r, w')"
    using assms(4) by (auto simp: reforward_def split: prod.splits sum.splits) (auto simp: rbind_def split: sum.splits)
  obtain y xs spans where q: "r = (y, xs, spans)" by (cases r) auto
  have ok: "path ?s c spans" "xs = span_inputs f spans (bs_inputs st)"
    using sequential_forward_ok [OF assms(1,2) _ r] top(2,3) q by (auto simp: forward_result_def)
  have ne: "spans \<noteq> []" using ok(1) top(2,3) by auto
  have xs: "xs \<noteq> []" using ok(2) ne by (metis length_0_conv length_span_inputs)
  have st': "st' = \<lparr>bs_inputs = last xs, bs_span = last spans, bs_intermediate = bs_intermediate st @ butlast xs,
               bs_sequences = bs_sequences st @ butlast spans\<rparr>"
    using assms(4) r q by (auto simp: reforward_def split: if_splits)
  have "path a c (bs_sequences st @ spans)" using top(4) ok(1) by (auto simp: path_append)
  moreover have "span_inputs f (bs_sequences st @ spans) x = bs_intermediate st @ xs"
    using span_inputs_append [OF top(4), of f spans x] top(5,6) ok(2) by simp
  ultimately show ?thesis using ne xs by (simp add: stack_ok_def st')
qed

definition span_grads :: "bool \<Rightarrow> 'h rows list \<Rightarrow> 'h flat list" where
  "span_grads dummy ps = (if dummy then [] else [Layers ps])"

lemma run_remote_backward_ok:
  assumes "honest_backward sw prompts f bk" "0 \<le> rs_start sp" "rs_start sp < rs_end sp" "rs_end sp \<le> int (sw_num_blocks sw)"
    and "run_remote_backward sw sp [Hidden x, Hidden g, prompt_slice sp prompts] w = (Inr ts, w')"
    and "chain_rule f bk (py_range (rs_start sp) (rs_end sp)) x g = (g', ps)"
  shows "ts = Hidden g' # span_grads (dummy_prompts prompts) ps"
proof -
  let ?in = "[Hidden x, Hidden g, prompt_slice sp prompts]"
  have "fst (sw_backward sw sp (use_stream (sw_schema sw) ?in) ?in w) = Inr ts"
    using assms(5) by (auto simp: run_remote_backward_def Let_def split: if_splits)
  then show ?thesis using assms(1-4,6) unfolding honest_backward_def span_grads_def by fastforce
qed

lemma try_backward_ok:
  assumes "routes_ok sw" "honest_forward sw prompts f" "honest_backward sw prompts f bk"
    and "0 \<le> a" "c \<le> int (sw_num_blocks sw)" "stack_ok f a x c st"
    and "try_backward sw prompts k [Hidden g] st w = Some (r, st', w')"
  shows "stack_ok f a x c st' \<and> (\<forall>t ts. r = Inr (t, ts) \<longrightarrow>
    (let (g', ps) = chain_rule f bk (py_range (rs_start (bs_span st')) c) (bs_inputs st') g in
     t = Hidden g' \<and> ts = span_grads (dummy_prompts prompts) ps))"
proof -
  obtain q w1 where q: "(if 1 \<le> k then reforward sw prompts st w else Some (Inr st, w)) = Some (q, w1)"
    using assms(7) by (auto simp: try_backward_def bind_eq_Some_conv)
  show ?thesis
  proof (cases q)
    case (Inl e)
    then show ?thesis using assms(6,7) q by (auto simp: try_backward_def)
  next
    case (Inr st1)
    have ok: "stack_ok f a x c st1"
      using q Inr reforward_ok [OF assms(1,2,6), of w st1 w1] assms(6) by (auto split: if_splits)
    note top = stack_ok_top [OF ok]
    obtain g' ps where ch: "chain_rule f bk (py_range (rs_start (bs_span st1)) c) (bs_inputs st1) g = (g', ps)" by fastforce
    obtain u w2 where u: "run_remote_backward sw (bs_span st1) [Hidden (bs_inputs st1), Hidden g, prompt_slice (bs_span st1) prompts] w1 = (u, w2)"
      by fastforce
    have r: "st' = st1 \<and> r = (case u of Inl e \<Rightarrow> Inl e | Inr (t # ts) \<Rightarrow> Inr (t, ts) | Inr [] \<Rightarrow> Inl ValueError)"
      using assms(7) q Inr u by (auto simp: try_backward_def call_backward_def Let_def)
    have "u = Inr ts \<Longrightarrow> ts = Hidden g' # span_grads (dummy_prompts prompts) ps" for ts
      using run_remote_backward_ok [OF assms(3), of "bs_span st1" "bs_inputs st1" g w1 ts w2 g' ps] top assms(4,5) u ch by auto
    then show ?thesis using r ok ch by (auto split: sum.splits list.splits)
  qed
qed

definition grads_ok ::
  "('h, 'w) train_net \<Rightarrow> 'h prompts \<Rightarrow> (int \<Rightarrow> 'h rows \<Rightarrow> 'h rows) \<Rightarrow> (int \<Rightarrow> 'h rows \<Rightarrow> 'h rows \<Rightarrow> 'h rows \<times> 'h rows) \<Rightarrow> bool" where
  "grads_ok sw prompts f bk \<longleftrightarrow> routes_ok sw \<and> honest_forward sw prompts f \<and> honest_backward sw prompts f bk"

definition attempt_result ::
  "'h prompts \<Rightarrow> (int \<Rightarrow> 'h rows \<Rightarrow> 'h rows) \<Rightarrow> (int \<Rightarrow> 'h rows \<Rightarrow> 'h rows \<Rightarrow> 'h rows \<times> 'h rows) \<Rightarrow> int \<Rightarrow> 'h rows \<Rightarrow> int \<Rightarrow> 'h rows
   \<Rightarrow> ('h flat \<times> 'h flat list) res \<Rightarrow> 'h backward_state \<Rightarrow> bool" where
  "attempt_result prompts f bk a x c g r st \<longleftrightarrow> stack_ok f a x c st \<and> (\<forall>t ts. r = Inr (t, ts) \<longrightarrow>
     (let (g', ps) = chain_rule f bk (py_range (rs_start (bs_span st)) c) (bs_inputs st) g in
      t = Hidden g' \<and> ts = span_grads (dummy_prompts prompts) ps))"

lemma backward_attempts_ok:
  fixes sw :: "('h, 'w) train_net" and f :: "int \<Rightarrow> 'h rows \<Rightarrow> 'h rows"
  assumes "backward_attempts sw prompts k gs st w = Some y"
    and "grads_ok sw prompts f bk" "0 \<le> a" "c \<le> int (sw_num_blocks sw)" "stack_ok f a x c st" "gs = [Hidden g]"
  shows "attempt_result prompts f bk a x c g (fst y) (fst (snd y))"
proof -
  define P where "P = (\<lambda>(sw :: ('h, 'w) train_net) prompts (k :: nat) gs st (w :: 'w) (y :: ('h flat \<times> 'h flat list) res \<times> 'h backward_state \<times> 'w).
    grads_ok sw prompts f bk \<and> 0 \<le> a \<and> c \<le> int (sw_num_blocks sw) \<and> stack_ok f a x c st \<and> gs = [Hidden g]
    \<longrightarrow> attempt_result prompts f bk a x c g (fst y) (fst (snd y)))"
  have "P sw prompts k gs st w y"
  proof (rule backward_attempts.raw_induct [OF _ assms(1), where P = P])
    fix self and sw :: "('h, 'w) train_net" and prompts k gs st w y
    assume IH: "\<And>sw prompts k gs st w y. self sw prompts k gs st w = Some y \<Longrightarrow> P sw prompts k gs st w y"
      and body: "Option.bind (try_backward sw prompts k gs st w) (\<lambda>(r, st1, w1).
     case r of
       Inl e \<Rightarrow>
         (let w2 = sw_failure sw (Some (rs_peer_id (bs_span st1))) w1 in
          if sw_max_retries sw = Some (Suc k) then Some (Inl e, st1, w2) else self sw prompts (Suc k) gs st1 w2)
     | Inr y \<Rightarrow> Some (Inr y, st1, sw_success sw (rs_peer_id (bs_span st1)) w1)) = Some y"
    obtain r st1 w1 where t: "try_backward sw prompts k gs st w = Some (r, st1, w1)"
      using body by (auto simp: bind_eq_Some_conv)
    have ok: "grads_ok sw prompts f bk \<and> 0 \<le> a \<and> c \<le> int (sw_num_blocks sw) \<and> stack_ok f a x c st \<and> gs = [Hidden g]
        \<Longrightarrow> attempt_result prompts f bk a x c g r st1"
      using try_backward_ok [of sw prompts f bk a c x st k g w r st1 w1] t by (auto simp: attempt_result_def grads_ok_def)
    show "P sw prompts k gs st w y"
    proof (cases "\<exists>e. r = Inl e \<and> sw_max_retries sw \<noteq> Some (Suc k)")
      case True
      then have "self sw prompts (Suc k) gs st1 (sw_failure sw (Some (rs_peer_id (bs_span st1))) w1) = Some y"
        using body t by (auto simp: Let_def)
      from IH [OF this] show ?thesis using ok by (auto simp: P_def attempt_result_def)
    next
      case False
      then have "fst y = r \<and> fst (snd y) = st1" using body t by (cases r) (auto simp: Let_def)
      then show ?thesis using ok by (simp add: P_def)
    qed
  qed
  then show ?thesis using assms(2-) by (auto simp: P_def)
qed

lemma try_backward_end:
  assumes "sw_max_retries sw = Some (Suc m)" "routes_ok sw" "honest_forward sw prompts f"
  shows "\<exists>r st' w'. try_backward sw prompts k gs st w = Some (r, st', w')"
proof -
  have "(if 1 \<le> k then reforward sw prompts st w else Some (Inr st, w)) \<noteq> None"
    using sequential_forward_end [OF assms, of "bs_inputs st" "rs_start (bs_span st)" "Some (rs_end (bs_span st))" w]
    by (auto simp: reforward_def)
  then obtain q w1 where "(if 1 \<le> k then reforward sw prompts st w else Some (Inr st, w)) = Some (q, w1)" by fastforce
  then show ?thesis by (cases q) (auto simp: try_backward_def Let_def split: prod.splits)
qed

lemma backward_attempts_end:
  assumes "sw_max_retries sw = Some (Suc m)" "routes_ok sw" "honest_forward sw prompts f" "k \<le> m"
  shows "\<exists>y. backward_attempts sw prompts k gs st w = Some y"
  using assms(4)
proof (induction "m - k" arbitrary: k st w)
  case (0 k st w)
  obtain r st' w' where "try_backward sw prompts k gs st w = Some (r, st', w')"
    using try_backward_end [OF assms(1-3)] by blast
  then show ?case using 0 assms(1) by (subst backward_attempts.simps) (auto simp: Let_def split: prod.splits sum.splits)
next
  case (Suc d k st w)
  then have d: "d = m - Suc k" "Suc k \<le> m" by auto
  obtain r st' w' where "try_backward sw prompts k gs st w = Some (r, st', w')"
    using try_backward_end [OF assms(1-3)] by blast
  then show ?case using Suc.hyps(1) [OF d] assms(1) Suc.prems
    by (subst backward_attempts.simps) (auto simp: Let_def split: prod.splits sum.splits)
qed

text \<open>What the loop adds to the gradients collected so far.\<close>

definition loop_result ::
  "'h prompts \<Rightarrow> (int \<Rightarrow> 'h rows \<Rightarrow> 'h rows) \<Rightarrow> (int \<Rightarrow> 'h rows \<Rightarrow> 'h rows \<Rightarrow> 'h rows \<times> 'h rows) \<Rightarrow> int \<Rightarrow> 'h rows \<Rightarrow> int \<Rightarrow> 'h rows
   \<Rightarrow> 'h flat list \<Rightarrow> ('h flat list \<times> 'h flat list) res \<Rightarrow> bool" where
  "loop_result prompts f bk a x c g acc r \<longleftrightarrow> (\<forall>gs acc'. r = Inr (gs, acc') \<longrightarrow>
     (\<exists>new. acc' = acc @ new \<and> gs = [Hidden (fst (chain_rule f bk (py_range a c) x g))]
        \<and> list_all (\<lambda>t. \<not> is_hidden t) new
        \<and> (if dummy_prompts prompts then new = []
           else concat (map layer_list (rev new)) = snd (chain_rule f bk (py_range a c) x g) \<and> (new = [] \<longleftrightarrow> a = c))))"

lemma loop_result_step:
  assumes "attempt_result prompts f bk a x c g (Inr (t, ts)) st"
    and "\<And>g'. t = Hidden g' \<Longrightarrow> loop_result prompts f bk a x (rs_start (bs_span st)) g' (acc @ ts) r"
  shows "loop_result prompts f bk a x c g acc r"
proof -
  let ?m = "rs_start (bs_span st)"
  have st: "stack_ok f a x c st" using assms(1) by (simp add: attempt_result_def)
  note top = stack_ok_top [OF st]
  obtain g' ps where ch: "chain_rule f bk (py_range ?m c) (bs_inputs st) g = (g', ps)" by fastforce
  obtain G qs where ch': "chain_rule f bk (py_range a ?m) x g' = (G, qs)" by fastforce
  have t: "t = Hidden g'" "ts = span_grads (dummy_prompts prompts) ps" using assms(1) ch by (auto simp: attempt_result_def)
  have "py_range a c = py_range a ?m @ py_range ?m c" using top(1-3) by (intro py_range_split) auto
  then have all: "chain_rule f bk (py_range a c) x g = (G, qs @ ps)"
    using ch ch' top(5) by (simp add: chain_rule_append run_blocks_def)
  show ?thesis
    using assms(2) [OF t(1)] all ch' t(2) top(1-3) unfolding loop_result_def span_grads_def
    by (fastforce split: if_splits)
qed

lemma chain_rule_empty [simp]: "chain_rule f bk (py_range a a) x g = (g, [])"
  by simp

lemma backward_loop_ok:
  fixes sw :: "('h, 'w) train_net" and f :: "int \<Rightarrow> 'h rows \<Rightarrow> 'h rows"
  assumes "backward_loop sw prompts gs inputs spans acc w = Some y"
    and "grads_ok sw prompts f bk" "0 \<le> a" "c \<le> int (sw_num_blocks sw)"
    and "path a c spans" "inputs = span_inputs f spans x" "gs = [Hidden g]"
  shows "loop_result prompts f bk a x c g acc (fst y)"
proof -
  define P where "P = (\<lambda>(sw :: ('h, 'w) train_net) prompts gs inputs spans acc (w :: 'w) (y :: ('h flat list \<times> 'h flat list) res \<times> 'w).
    \<forall>c g. grads_ok sw prompts f bk \<and> 0 \<le> a \<and> c \<le> int (sw_num_blocks sw) \<and> path a c spans \<and> inputs = span_inputs f spans x \<and> gs = [Hidden g]
    \<longrightarrow> loop_result prompts f bk a x c g acc (fst y))"
  have "P sw prompts gs inputs spans acc w y"
  proof (rule backward_loop.raw_induct [OF _ assms(1), where P = P])
    fix self and sw :: "('h, 'w) train_net" and prompts gs inputs spans acc w y
    assume IH: "\<And>sw prompts gs inputs spans acc w y. self sw prompts gs inputs spans acc w = Some y \<Longrightarrow> P sw prompts gs inputs spans acc w y"
      and body: "(if spans = [] \<or> inputs = [] then Some (Inr (gs, acc), w)
      else
        Option.bind (backward_attempts sw prompts 0 gs
          \<lparr>bs_inputs = last inputs, bs_span = last spans, bs_intermediate = butlast inputs, bs_sequences = butlast spans\<rparr> w) (\<lambda>(r, st, w1).
        case r of
          Inl e \<Rightarrow> Some (Inl e, w1)
        | Inr (g, ts) \<Rightarrow> self sw prompts [g] (bs_intermediate st) (bs_sequences st) (acc @ ts) w1)) = Some y"
    show "P sw prompts gs inputs spans acc w y"
      unfolding P_def
    proof (intro allI impI)
      fix c g
      assume h: "grads_ok sw prompts f bk \<and> 0 \<le> a \<and> c \<le> int (sw_num_blocks sw) \<and> path a c spans \<and> inputs = span_inputs f spans x \<and> gs = [Hidden g]"
      show "loop_result prompts f bk a x c g acc (fst y)"
      proof (cases "spans = []")
        case True
        then show ?thesis using body h by (auto simp: loop_result_def)
      next
        case False
        then have ne: "inputs \<noteq> []" using h by (metis length_0_conv length_span_inputs)
        let ?st = "\<lparr>bs_inputs = last inputs, bs_span = last spans, bs_intermediate = butlast inputs, bs_sequences = butlast spans\<rparr>"
        have ok0: "stack_ok f a x c ?st" using stack_of_path [OF _ False, of a c inputs f x] h by simp
        obtain r st w1 where t: "backward_attempts sw prompts 0 gs ?st w = Some (r, st, w1)"
          using body False ne by (cases "backward_attempts sw prompts 0 gs ?st w") auto
        have ar: "attempt_result prompts f bk a x c g r st"
          using backward_attempts_ok [OF t _ _ _ ok0, of bk g] h by auto
        show ?thesis
        proof (cases r)
          case (Inl e)
          then show ?thesis using body t False ne by (auto simp: loop_result_def)
        next
          case (Inr q)
          obtain u ts where q: "q = (u, ts)" by (cases q)
          have "self sw prompts [u] (bs_intermediate st) (bs_sequences st) (acc @ ts) w1 = Some y"
            using body t False ne Inr q by auto
          note P' = IH [OF this, unfolded P_def]
          note top = stack_ok_top [of f a x c st]
          show ?thesis
          proof (rule loop_result_step)
            show "attempt_result prompts f bk a x c g (Inr (u, ts)) st" using ar Inr q by simp
            fix g' assume "u = Hidden g'"
            then show "loop_result prompts f bk a x (rs_start (bs_span st)) g' (acc @ ts) (fst y)"
              using P' top ar h by (auto simp: attempt_result_def)
          qed
        qed
      qed
    qed
  qed
  then show ?thesis using assms(2-) by (auto simp: P_def)
qed

lemma backward_loop_end:
  assumes "sw_max_retries sw = Some (Suc m)" "grads_ok sw prompts f bk" "0 \<le> a" "c \<le> int (sw_num_blocks sw)"
    and "path a c spans" "inputs = span_inputs f spans x"
  shows "\<exists>y. backward_loop sw prompts [Hidden g] inputs spans acc w = Some y"
  using assms(4-6)
proof (induction "nat (c - a)" arbitrary: c spans inputs g acc w rule: less_induct)
  case less
  show ?case
  proof (cases "spans = []")
    case True
    then show ?thesis by (subst backward_loop.simps) simp
  next
    case False
    have ne: "inputs \<noteq> []" using less.prems(3) False by (metis length_0_conv length_span_inputs)
    let ?st = "\<lparr>bs_inputs = last inputs, bs_span = last spans, bs_intermediate = butlast inputs, bs_sequences = butlast spans\<rparr>"
    have ok0: "stack_ok f a x c ?st" using stack_of_path [OF less.prems(2) False less.prems(3)] .
    obtain r st w1 where t: "backward_attempts sw prompts 0 [Hidden g] ?st w = Some (r, st, w1)"
      using backward_attempts_end [OF assms(1), of prompts f 0 "[Hidden g]" ?st w] assms(2) by (auto simp: grads_ok_def)
    have ar: "attempt_result prompts f bk a x c g r st"
      using backward_attempts_ok [OF t assms(2,3) less.prems(1) ok0] by simp
    show ?thesis
    proof (cases r)
      case (Inl e)
      then show ?thesis using t False ne by (subst backward_loop.simps) simp
    next
      case (Inr q)
      obtain u ts where q: "q = (u, ts)" by (cases q)
      note top = stack_ok_top [of f a x c st]
      have st: "stack_ok f a x c st" using ar by (simp add: attempt_result_def)
      obtain g' where u: "u = Hidden g'" using ar Inr q by (fastforce simp: attempt_result_def split: prod.splits)
      have "\<exists>y. backward_loop sw prompts [Hidden g'] (bs_intermediate st) (bs_sequences st) (acc @ ts) w1 = Some y"
        using top [OF st] less.prems(1) by (intro less.hyps [of "rs_start (bs_span st)"]) auto
      then show ?thesis using t False ne Inr q u by (subst backward_loop.simps) auto
    qed
  qed
qed

section \<open>The routes of the client\<close>

text \<open>Whatever the table of spans, a route \<open>make_sequence\<close> returns is one the training pass can use.\<close>

lemma throughput_route_to:
  "max_throughput_loop pick rtts info a b = Inr route \<Longrightarrow> a < b \<Longrightarrow> route_to a b route"
proof (induction pick rtts info a b arbitrary: route rule: max_throughput_loop.induct)
  case (1 pick rtts info a b)
  obtain sp rest where r: "route = sp\<lparr>rs_start := a\<rparr> # rest" "a < rs_end sp"
      "max_throughput_loop pick rtts info (rs_end sp) b = Inr rest"
    and cs: "\<exists>cs. containing info a = Inr cs \<and> cs \<noteq> [] \<and> py_get cs (int (pick a cs (map (span_weight rtts) cs))) = Inr sp \<and> rs_start sp \<le> a"
    using 1(2,3) by (subst (asm) max_throughput_loop.simps) (auto simp: res_simps split: if_splits)
  show ?case
  proof (cases "rs_end sp < b")
    case True
    then have "route_to (rs_end sp) b rest" using 1(1) [OF 1(3)] cs r by blast
    then show ?thesis using r 1(3) by auto
  next
    case False
    then have "rest = []" using r(3) by (subst (asm) max_throughput_loop.simps) simp
    then show ?thesis using r 1(3) False by simp
  qed
qed

lemma make_sequence_routes_ok:
  assumes "\<And>a b w. fst (sw_route sw a b w) = make_sequence find_path (pick w) rtts (table w) (nat a) (Some (nat b)) Max_Throughput None"
  shows "routes_ok sw"
  unfolding routes_ok_def
proof (intro allI impI)
  fix a b w spans
  assume h: "0 \<le> a \<and> a < b \<and> b \<le> int (sw_num_blocks sw) \<and> fst (sw_route sw a b w) = Inr spans"
  then have "max_throughput_loop (pick w) rtts (table w) a b = Inr spans" using assms [of a b w] by (auto simp: make_sequence_def split: if_splits)
  then show "route_to a b spans" using throughput_route_to h by blast
qed

section \<open>Properties of the training pass\<close>

text \<open>A swarm whose first server always fails the first request, with two blocks.\<close>

definition toy_block :: "int \<Rightarrow> int rows \<Rightarrow> int rows" where
  "toy_block i x = map (map (\<lambda>v. 2 * v + i)) x"

definition toy_grad :: "int \<Rightarrow> int rows \<Rightarrow> int rows \<Rightarrow> int rows \<times> int rows" where
  "toy_grad i x g = (map (map (\<lambda>v. 2 * v)) g, x)"

definition toy_span :: "int \<Rightarrow> int \<Rightarrow> remote_span" where
  "toy_span a b = \<lparr>rs_peer_id = ''P'', rs_start = a, rs_end = b, rs_server_info = sample_info ONLINE 1\<rparr>"

definition toy_prompts :: "int prompts" where
  "toy_prompts = Some [[[7]], [[8]]]"

definition toy_swarm :: "(int, nat) train_net" where
  "toy_swarm = \<lparr>sw_route = (\<lambda>a b w. (Inr [toy_span a (b + 1)], w)),
     sw_forward = (\<lambda>sp streamed ts w. (if w = 0 then Inl TimeoutError else Inr [Hidden (run_blocks toy_block (rs_start sp) (rs_end sp) (hidden_rows (hd ts)))], Suc w)),
     sw_backward = (\<lambda>sp streamed ts w. (if w = 0 then Inl TimeoutError
        else let (g, ps) = chain_rule toy_block toy_grad (py_range (rs_start sp) (rs_end sp)) (hidden_rows (hd ts)) (hidden_rows (ts ! 1))
             in Inr [Hidden g, Layers ps], Suc w)),
     sw_failure = (\<lambda>_ w. w), sw_success = (\<lambda>_ w. w),
     sw_schema = \<lparr>rpc_keyword_names = [], rpc_args = 1, rpc_outputs = 1, rpc_pack = (\<lambda>ts. Inr (take 1 ts)), rpc_position_bytes = 4, rpc_max_unary = 100\<rparr>,
     sw_num_blocks = 2, sw_max_retries = Some 3\<rparr>"

lemma toy_honest: "routes_ok toy_swarm" "honest_forward toy_swarm toy_prompts toy_block" "honest_backward toy_swarm toy_prompts toy_block toy_grad"
proof -
  have d: "\<not> dummy_prompts toy_prompts" by (simp add: dummy_prompts_def toy_prompts_def)
  show "routes_ok toy_swarm" by (auto simp: routes_ok_def toy_swarm_def toy_span_def)
  show "honest_forward toy_swarm toy_prompts toy_block" by (auto simp: honest_forward_def toy_swarm_def split: if_splits)
  show "honest_backward toy_swarm toy_prompts toy_block toy_grad"
    using d by (auto simp: honest_backward_def toy_swarm_def split: if_splits prod.splits)
qed

lemma toy_forward:
  "sequential_forward toy_swarm toy_prompts [[3 :: int]] 0 (Some 2) 0 = Some (Inr ([[13]], [[[3]]], [toy_span 0 2]), 2)"
  by (simp add: sequential_forward_def forward_loop.simps forward_attempts.simps try_forward_def current_spans_def fresh_route_def
      run_remote_forward_def cut_route_def toy_swarm_def toy_span_def toy_prompts_def run_blocks_def toy_block_def py_range_def Let_def upto_rec1 numeral_eq_Suc)

lemma toy_backward:
  "sequential_backward toy_swarm toy_prompts [Hidden [[1]]] [[[3 :: int]]] [toy_span 0 2] 0
     = Some (Inr ([Hidden [[4]]], Some (Layers [[[3]], [[6]]])), 3)"
  by (simp add: sequential_backward_def backward_loop.simps backward_attempts.simps try_backward_def reforward_def call_backward_def
      run_remote_backward_def cat_flat_def sequential_forward_def forward_loop.simps forward_attempts.simps try_forward_def
      current_spans_def fresh_route_def run_remote_forward_def cut_route_def dummy_prompts_def toy_swarm_def toy_span_def toy_prompts_def
      run_blocks_def toy_block_def toy_grad_def py_range_def Let_def upto_rec1 numeral_eq_Suc)

text \<open>C3. Training through a faulty swarm is exact. If the routes are contiguous and the servers that
  answer answer correctly, then whatever fails and is retried, on new routes, in the forward pass
  (from \<open>a\<close> to \<open>b\<close>) and in the backward pass, where failed spans are run forward again: passes that
  return have computed the composition of the blocks, and the chain rule over the blocks with the
  prompt gradients in block order.\<close>

theorem training_pass_exact:
  assumes "routes_ok sw" "honest_forward sw prompts f" "honest_backward sw prompts f bk" "0 \<le> a" "a < b" "b \<le> int (sw_num_blocks sw)"
    and "sequential_forward sw prompts x a (Some b) w = Some (Inr (y, inputs, spans), w1)"
    and "sequential_backward sw prompts [Hidden g] inputs spans w2 = Some (Inr (gs, gp), w3)"
  shows "y = run_blocks f a b x \<and> gs = [Hidden (fst (chain_rule f bk (py_range a b) x g))]
    \<and> gp = (if dummy_prompts prompts then None else Some (Layers (snd (chain_rule f bk (py_range a b) x g))))"
proof -
  have fwd: "y = run_blocks f a b x" "path a b spans" "inputs = span_inputs f spans x"
    using sequential_forward_ok [OF assms(1,2) _ assms(7)] assms(5) by (auto simp: forward_result_def)
  obtain gs' acc where loop: "backward_loop sw prompts [Hidden g] inputs spans [] w2 = Some (Inr (gs', acc), w3)"
    and out: "(if acc = [] then Inr (gs', None) else rbind (cat_flat (rev acc)) (\<lambda>t. Inr (gs', Some t))) = Inr (gs, gp)"
    using assms(8) fwd(3) by (auto simp: sequential_backward_def res_simps)
  have res: "loop_result prompts f bk a x b g [] (Inr (gs', acc))"
    using backward_loop_ok [OF loop _ assms(4,6) fwd(2,3) refl, of bk] assms(1-3) by (simp add: grads_ok_def)
  have gs: "gs = gs'" "gp = (if acc = [] then None else Some (Layers (concat (map layer_list (rev acc)))))"
    using out res by (auto simp: cat_flat_def loop_result_def list_all_iff split: if_splits)
  show ?thesis using fwd(1) res gs assms(5) by (auto simp: loop_result_def split: if_splits)
qed

theorem training_pass_exact_witness:
  "[[13]] = run_blocks toy_block 0 2 [[3 :: int]]
    \<and> [Hidden [[4]]] = [Hidden (fst (chain_rule toy_block toy_grad (py_range 0 2) [[3]] [[1]]))]
    \<and> Some (Layers [[[3]], [[6]]]) = (if dummy_prompts toy_prompts then None else Some (Layers (snd (chain_rule toy_block toy_grad (py_range 0 2) [[3]] [[1]]))))"
  by (rule training_pass_exact [OF toy_honest _ _ _ toy_forward toy_backward]) (simp_all add: toy_swarm_def)

text \<open>C25. With a bound on the number of retries (a positive one; zero is never reached by the counter)
  training always comes to an end: the forward pass returns a result or an error, and so does the
  backward pass on what the forward pass has left, even though each attempt of it may run a nested
  forward pass with retries of its own.\<close>

theorem training_terminates:
  assumes "sw_max_retries sw = Some (Suc m)" "routes_ok sw" "honest_forward sw prompts f" "honest_backward sw prompts f bk"
    and "0 \<le> a" "a \<le> b" "b \<le> int (sw_num_blocks sw)"
  shows "\<exists>r w1. sequential_forward sw prompts x a (Some b) w = Some (r, w1)
    \<and> (case r of Inl e \<Rightarrow> True
       | Inr (y, inputs, spans) \<Rightarrow> \<exists>r' w3. sequential_backward sw prompts [Hidden g] inputs spans w2 = Some (r', w3))"
proof -
  obtain r w1 where r: "sequential_forward sw prompts x a (Some b) w = Some (r, w1)"
    using sequential_forward_end [OF assms(1-3)] by fastforce
  have "\<exists>r' w3. sequential_backward sw prompts [Hidden g] inputs spans w2 = Some (r', w3)"
    if q: "r = Inr (y, inputs, spans)" for y inputs spans
  proof -
    have "path a b spans" "inputs = span_inputs f spans x"
      using sequential_forward_ok [OF assms(2,3,6) r] q by (auto simp: forward_result_def)
    then have "\<exists>y. backward_loop sw prompts [Hidden g] inputs spans [] w2 = Some y"
      using backward_loop_end [OF assms(1) _ assms(5,7), of prompts f bk] assms(2-4) by (auto simp: grads_ok_def)
    then show ?thesis by (auto simp: sequential_backward_def)
  qed
  then show ?thesis using r by (auto split: sum.splits)
qed

theorem training_terminates_witness:
  "\<exists>r w1. sequential_forward toy_swarm toy_prompts [[3]] 0 (Some 2) 0 = Some (r, w1)
    \<and> (case r of Inl e \<Rightarrow> True
       | Inr (y, inputs, spans) \<Rightarrow> \<exists>r' w3. sequential_backward toy_swarm toy_prompts [Hidden [[1]]] inputs spans 0 = Some (r', w3))"
  by (rule training_terminates [OF _ toy_honest, of 2]) (simp_all add: toy_swarm_def)

lemma gather_all_fail:
  "\<forall>e \<in> set L. F e w = Some (Inl err, w) \<Longrightarrow> L \<noteq> [] \<Longrightarrow> gather_batches F L w = Some (Inl err, w)"
proof (induction L)
  case (Cons e L)
  then show ?case by (cases "L = []") auto
qed simp

text \<open>A second backward pass through the same graph fails: the first one has emptied the lists of
  spans in the context but not the lists of inputs, and their lengths are compared.\<close>

theorem second_backward_fails:
  assumes "autograd_backward sw seq ctx g w = Some (Inr (gi, gp, ctx'), w')"
    and "ac_intermediate ctx \<noteq> []" "[] \<notin> set (ac_intermediate ctx)" "length (ac_prompt_batches ctx) = length (ac_intermediate ctx)"
  shows "autograd_backward sw seq ctx' g w2 = Some (Inl AssertionError, w2)"
proof -
  obtain n where n: "rows_per_batch seq = Inr n" using assms(1) by (auto simp: autograd_backward_def split: sum.splits)
  have len: "length (ac_intermediate ctx) = length (split_rows n g)" "length (split_rows n g) = length (ac_sequences ctx)"
    using assms(1) n by (auto simp: autograd_backward_def Let_def split: if_splits)
  have ctx': "ctx' = ctx\<lparr>ac_sequences := map (\<lambda>_. []) (ac_sequences ctx)\<rparr>"
    using assms(1) n len by (auto simp: autograd_backward_def Let_def res_simps split: if_splits)
  define F where "F = (\<lambda>(g, xs, p, spans). sequential_backward sw p [Hidden g] xs spans)"
  define L where "L = zip (split_rows n g) (zip (ac_intermediate ctx) (zip (ac_prompt_batches ctx) (map (\<lambda>_. [] :: remote_span list) (ac_sequences ctx))))"
  have "\<forall>e \<in> set L. F e w2 = Some (Inl AssertionError, w2)"
  proof
    fix e assume "e \<in> set L"
    obtain h xs p spans where e: "e = (h, xs, p, spans)" by (cases e) auto
    have "xs \<in> set (ac_intermediate ctx)" "spans \<in> set (map (\<lambda>_. []) (ac_sequences ctx))"
      using \<open>e \<in> set L\<close> unfolding L_def e by (meson set_zip_leftD set_zip_rightD)+
    then have "e = (h, xs, p, [])" "xs \<in> set (ac_intermediate ctx)" using e by auto
    then show "F e w2 = Some (Inl AssertionError, w2)" using assms(3) by (auto simp: F_def sequential_backward_def)
  qed
  then have "L \<noteq> [] \<Longrightarrow> gather_batches F L w2 = Some (Inl AssertionError, w2)"
    by (rule gather_all_fail)
  moreover have "0 < length L" using assms(2,4) len unfolding L_def by (cases "ac_intermediate ctx") auto
  ultimately have "gather_batches F L w2 = Some (Inl AssertionError, w2)" by (metis length_greater_0_conv)
  then have "gather_batches F (zip (split_rows n g) (zip (ac_intermediate ctx') (zip (ac_prompt_batches ctx') (ac_sequences ctx')))) w2
      = Some (Inl AssertionError, w2)" by (simp add: ctx' L_def)
  then show ?thesis using n len unfolding autograd_backward_def F_def [symmetric] by (simp add: ctx')
qed

definition toy_ctx :: "int autograd_ctx" where
  "toy_ctx = \<lparr>ac_prompt_batches = [toy_prompts], ac_intermediate = [[[[3]]]], ac_sequences = [[toy_span 0 2]]\<rparr>"

theorem second_backward_fails_witness:
  "autograd_backward toy_swarm 1 (toy_ctx\<lparr>ac_sequences := [[]]\<rparr>) [[1]] 0 = Some (Inl AssertionError, 0)"
proof (rule second_backward_fails)
  have s: "split_rows 1024 [[1 :: int]] = [[[1]]]" by (subst split_rows.simps) simp
  show "autograd_backward toy_swarm 1 toy_ctx [[1]] 0
      = Some (Inr (Hidden [[4]], Some (Layers [[[3]], [[6]]]), toy_ctx\<lparr>ac_sequences := [[]]\<rparr>), 3)"
    using toy_backward
    by (simp add: autograd_backward_def rows_per_batch_def MAX_TOKENS_IN_BATCH_def s toy_ctx_def join_grads_def cat_flat_def cat_flat_second_def cat_second_def)
qed (simp_all add: toy_ctx_def)

end
