(* ===== verification/Join_Token.thy ===== *)
theory Join_Token
  imports Py_Strings
begin

text \<open>
  Models \<open>src/drift/utils/join_token.py\<close>: the conversion between multiaddresses and join tokens, the
  \<open>--join\<close> argument and the choice of addresses to advertise, over ASCII strings. The functions of
  the standard library it calls are written out: \<open>str.partition\<close> and \<open>str.rpartition\<close>, and of
  \<open>ipaddress\<close> the recognition of IPv4 and IPv6 literals with \<open>is_global\<close> (IPv4) and \<open>is_loopback\<close>.
\<close>

section \<open>Partitions of strings\<close>

fun partition_on :: "char \<Rightarrow> string \<Rightarrow> string \<times> bool \<times> string" where
  "partition_on c [] = ([], False, [])"
| "partition_on c (x # xs) =
     (if x = c then ([], True, xs) else let (a, found, b) = partition_on c xs in (x # a, found, b))"

text \<open>Without a separator \<open>rpartition\<close> gives the whole string as the last part.\<close>

definition rpartition_on :: "char \<Rightarrow> string \<Rightarrow> string \<times> bool \<times> string" where
  "rpartition_on c s = (let (b, found, a) = partition_on c (rev s) in (rev a, found, rev b))"

lemma partition_on_append: "c \<notin> set xs \<Longrightarrow> partition_on c (xs @ c # ys) = (xs, True, ys)"
  by (induction xs) auto

lemma rpartition_on_append: "c \<notin> set ys \<Longrightarrow> rpartition_on c (xs @ c # ys) = (xs, True, ys)"
  using partition_on_append [of c "rev ys" "rev xs"] by (simp add: rpartition_on_def)

section \<open>Address literals\<close>

definition parse_octet :: "string \<Rightarrow> nat option" where
  "parse_octet s =
     (if isdigit s \<and> length s \<le> 3 \<and> (s = ''0'' \<or> hd s \<noteq> CHR ''0'')
      then case digits_val False 0 s of Some n \<Rightarrow> if n \<le> 255 then Some n else None | None \<Rightarrow> None
      else None)"

definition parse_ipv4 :: "string \<Rightarrow> nat option" where
  "parse_ipv4 s =
     (case map parse_octet (split_on CHR ''.'' s) of
        [Some a, Some b, Some c, Some d] \<Rightarrow> Some (((a * 256 + b) * 256 + c) * 256 + d)
      | _ \<Rightarrow> None)"

definition hex_value :: "char \<Rightarrow> nat option" where
  "hex_value c =
     (let n = (of_char c :: nat) in
      if is_digit c then Some (n - 48) else if 65 \<le> n \<and> n \<le> 70 then Some (n - 55)
      else if 97 \<le> n \<and> n \<le> 102 then Some (n - 87) else None)"

definition parse_hextet :: "string \<Rightarrow> nat option" where
  "parse_hextet s =
     (if s = [] \<or> 4 < length s then None
      else map_option (foldl (\<lambda>acc d. acc * 16 + d) 0) (those (map hex_value s)))"

text \<open>The groups of an IPv6 literal; a trailing IPv4 literal stands for two of them.\<close>

datatype ip_group = Elided | Group nat

definition parse_group :: "string \<Rightarrow> ip_group option" where
  "parse_group p = (if p = [] then Some Elided else map_option Group (parse_hextet p))"

definition ipv6_groups :: "string \<Rightarrow> ip_group option list option" where
  "ipv6_groups s =
     (let parts = split_on CHR '':'' s; l = last parts in
      if length parts < 3 then None
      else if CHR ''.'' \<in> set l
      then map_option (\<lambda>n. map parse_group (butlast parts) @ [Some (Group (n div 65536)), Some (Group (n mod 65536))]) (parse_ipv4 l)
      else Some (map parse_group parts))"

definition group_words :: "ip_group option list \<Rightarrow> nat list option" where
  "group_words gs = those (map (\<lambda>g. case g of Some (Group n) \<Rightarrow> Some n | _ \<Rightarrow> None) gs)"

definition join_groups :: "ip_group option list \<Rightarrow> nat list option" where
  "join_groups gs =
     (let n = length gs in
      if 9 < n then None
      else
        (case filter (\<lambda>i. gs ! i = Some Elided) [1..<n - 1] of
           [] \<Rightarrow> if n = 8 then group_words gs else None
         | [k] \<Rightarrow>
             let first = (gs ! 0 = Some Elided); final = (gs ! (n - 1) = Some Elided);
                 hi = (if first then k - 1 else k); lo = (if final then n - k - 2 else n - k - 1) in
             if first \<and> hi \<noteq> 0 \<or> final \<and> lo \<noteq> 0 \<or> 8 \<le> hi + lo then None
             else group_words (take hi gs @ replicate (8 - (hi + lo)) (Some (Group 0)) @ drop (n - lo) gs)
         | _ \<Rightarrow> None))"

definition parse_ipv6 :: "string \<Rightarrow> nat option" where
  "parse_ipv6 s =
     (let (addr, scoped, scope) = partition_on CHR ''%'' s in
      if CHR ''/'' \<in> set s \<or> scoped \<and> (scope = [] \<or> CHR ''%'' \<in> set scope) then None
      else map_option (foldl (\<lambda>acc w. acc * 65536 + w) 0) (Option.bind (ipv6_groups addr) join_groups))"

datatype ip_address = IPv4 nat | IPv6 nat

definition ip_address :: "string \<Rightarrow> ip_address option" where
  "ip_address s =
     (case parse_ipv4 s of
        Some n \<Rightarrow> Some (IPv4 n)
      | None \<Rightarrow> map_option IPv6 (parse_ipv6 s))"

text \<open>Networks as address and prefix length.\<close>

definition in_network :: "nat \<Rightarrow> nat \<times> nat \<Rightarrow> bool" where
  "in_network n net = (n div 2 ^ (32 - snd net) = fst net div 2 ^ (32 - snd net))"

definition ip4 :: "nat \<Rightarrow> nat \<Rightarrow> nat \<Rightarrow> nat \<Rightarrow> nat" where
  "ip4 a b c d = ((a * 256 + b) * 256 + c) * 256 + d"

definition private_networks :: "(nat \<times> nat) list" where
  "private_networks =
     [(ip4 0 0 0 0, 8), (ip4 10 0 0 0, 8), (ip4 127 0 0 0, 8), (ip4 169 254 0 0, 16), (ip4 172 16 0 0, 12), (ip4 192 0 0 0, 24),
      (ip4 192 0 0 170, 31), (ip4 192 0 2 0, 24), (ip4 192 168 0 0, 16), (ip4 198 18 0 0, 15), (ip4 198 51 100 0, 24),
      (ip4 203 0 113 0, 24), (ip4 240 0 0 0, 4), (ip4 255 255 255 255, 32)]"

definition is_global :: "nat \<Rightarrow> bool" where
  "is_global n \<longleftrightarrow> \<not> in_network n (ip4 100 64 0 0, 10)
     \<and> (\<not> list_ex (in_network n) private_networks \<or> n = ip4 192 0 0 9 \<or> n = ip4 192 0 0 10)"

definition is_loopback :: "ip_address \<Rightarrow> bool" where
  "is_loopback ip = (case ip of IPv4 n \<Rightarrow> in_network n (ip4 127 0 0 0, 8) | IPv6 n \<Rightarrow> n = 1)"

section \<open>Tokens\<close>

definition SCHEME :: string where "SCHEME = ''drift://''"

definition HOST_PROTOCOLS :: "string list" where
  "HOST_PROTOCOLS = [''ip4'', ''ip6'', ''dns'', ''dns4'', ''dns6'']"

definition encode_join_token :: "string \<Rightarrow> string res" where
  "encode_join_token maddr =
     (case split_on CHR ''/'' (strip maddr) of
        [lead, host_proto, host, transport, port, p2p, peer_id] \<Rightarrow>
          if lead \<noteq> [] then Inl ValueError
          else if host_proto \<notin> set HOST_PROTOCOLS then Inl ValueError
          else if transport \<noteq> ''tcp'' then Inl ValueError
          else if p2p \<noteq> ''p2p'' then Inl ValueError
          else if \<not> isdigit port then Inl ValueError
          else
            let host_part = (if host_proto = ''ip6'' then CHR ''['' # host @ '']'' else host) in
            Inr (SCHEME @ peer_id @ CHR ''@'' # host_part @ CHR '':'' # port)
      | _ \<Rightarrow> Inl ValueError)"

definition infer_host_protocol :: "string \<Rightarrow> string" where
  "infer_host_protocol host = (case ip_address host of None \<Rightarrow> ''dns'' | Some (IPv6 _) \<Rightarrow> ''ip6'' | Some (IPv4 _) \<Rightarrow> ''ip4'')"

definition split_address :: "string \<Rightarrow> (string \<times> string \<times> string) res" where
  "split_address address =
     (if take 1 address = ''[''
      then
        let (host, closed, after) = partition_on CHR '']'' (tl address) in
        if \<not> closed \<or> take 1 after \<noteq> '':'' then Inl ValueError else Inr (''ip6'', host, tl after)
      else
        let (host, found, port) = rpartition_on CHR '':'' address in
        if found then Inr (infer_host_protocol host, host, port) else Inl ValueError)"

definition maddr_of :: "string \<Rightarrow> string \<Rightarrow> string \<Rightarrow> string \<Rightarrow> string" where
  "maddr_of host_proto host port peer_id =
     ''/'' @ host_proto @ ''/'' @ host @ ''/tcp/'' @ port @ ''/p2p/'' @ peer_id"

definition has_scheme :: "string \<Rightarrow> bool" where
  "has_scheme s = (take (length SCHEME) (lower s) = SCHEME)"

definition decode_join_token :: "string \<Rightarrow> string res" where
  "decode_join_token raw =
     (let token = strip raw in
      if \<not> has_scheme token then Inl ValueError
      else
        let (peer_id, found, address) = partition_on CHR ''@'' (drop (length SCHEME) token) in
        if \<not> found \<or> peer_id = [] \<or> address = [] then Inl ValueError
        else rbind (split_address address) (\<lambda>(host_proto, host, port).
          if isdigit port then Inr (maddr_of host_proto host port peer_id) else Inl ValueError))"

definition parse_item :: "string \<Rightarrow> string list res" where
  "parse_item raw =
     (let item = strip raw in
      if item = [] then Inr []
      else if has_scheme item then rbind (decode_join_token item) (\<lambda>m. Inr [m])
      else if hd item = CHR ''/'' then Inr [item]
      else Inl ValueError)"

definition parse_join :: "string \<Rightarrow> string list res" where
  "parse_join s =
     rbind (rmap parse_item (split_on CHR '','' s)) (\<lambda>ms. if concat ms = [] then Inl ValueError else Inr (concat ms))"

section \<open>Addresses to advertise\<close>

text \<open>The regular expression \<open>/(proto)/(host)/tcp/(port)/p2p/(peer)\<close>: protocol and host of a match.\<close>

definition match_maddr :: "string \<Rightarrow> (string \<times> string) option" where
  "match_maddr m =
     (case split_on CHR ''/'' m of
        [lead, proto, host, t, port, p, peer] \<Rightarrow>
          if lead = [] \<and> proto \<in> set HOST_PROTOCOLS \<and> host \<noteq> [] \<and> t = ''tcp'' \<and> isdigit port \<and> p = ''p2p'' \<and> peer \<noteq> []
          then Some (proto, host) else None
      | _ \<Rightarrow> None)"

definition LOOPBACK_HOSTS :: "string list" where
  "LOOPBACK_HOSTS = [''127.0.0.1'', ''::1'', ''localhost'']"

definition address_rank :: "string \<Rightarrow> nat" where
  "address_rank host =
     (case ip_address host of
        None \<Rightarrow> 4
      | Some (IPv4 n) \<Rightarrow> if is_global n then 1 else 2
      | Some (IPv6 _) \<Rightarrow> 3)"

definition advertisable :: "bool \<Rightarrow> string \<Rightarrow> bool" where
  "advertisable include_loopback m =
     (case match_maddr m of
        None \<Rightarrow> False
      | Some (_, host) \<Rightarrow>
          include_loopback \<or> host \<notin> set LOOPBACK_HOSTS \<and> (case ip_address host of None \<Rightarrow> True | Some ip \<Rightarrow> \<not> is_loopback ip))"

definition select_advertisable_maddrs :: "bool \<Rightarrow> string list \<Rightarrow> string list" where
  "select_advertisable_maddrs include_loopback maddrs =
     sort_key (\<lambda>m. case match_maddr m of Some (_, host) \<Rightarrow> address_rank host | None \<Rightarrow> 0)
       (filter (advertisable include_loopback) maddrs)"

section \<open>Round trip\<close>

text \<open>The family of a host name is not kept by a token.\<close>

definition plain_protocol :: "string \<Rightarrow> string" where
  "plain_protocol proto = (if proto = ''dns4'' \<or> proto = ''dns6'' then ''dns'' else proto)"

text \<open>The host is of the kind its protocol says.\<close>

definition host_matches :: "string \<Rightarrow> string \<Rightarrow> bool" where
  "host_matches proto host \<longleftrightarrow>
     (if proto = ''ip6'' then CHR '']'' \<notin> set host
      else take 1 host \<noteq> ''['' \<and> infer_host_protocol host = plain_protocol proto)"

definition token_of :: "string \<Rightarrow> string \<Rightarrow> string \<Rightarrow> string \<Rightarrow> string" where
  "token_of proto host port peer_id =
     SCHEME @ peer_id @ CHR ''@'' # (if proto = ''ip6'' then CHR ''['' # host @ '']'' else host) @ CHR '':'' # port"

lemma isdigit_no_punct: "isdigit port \<Longrightarrow> CHR '':'' \<notin> set port \<and> CHR ''/'' \<notin> set port"
  using digit_not_punct by (auto simp: isdigit_def list_all_iff)

lemma split_maddr:
  assumes "CHR ''/'' \<notin> set proto" "CHR ''/'' \<notin> set host" "CHR ''/'' \<notin> set port" "CHR ''/'' \<notin> set peer_id"
  shows "split_on CHR ''/'' (maddr_of proto host port peer_id) = [[], proto, host, ''tcp'', port, ''p2p'', peer_id]"
proof -
  have "maddr_of proto host port peer_id = join_on CHR ''/'' [[], proto, host, ''tcp'', port, ''p2p'', peer_id]"
    by (simp add: maddr_of_def)
  then show ?thesis using assms by (simp only:) (rule split_join, auto)
qed

lemma encode_maddr:
  assumes "proto \<in> set HOST_PROTOCOLS" "isdigit port" "CHR ''/'' \<notin> set host" "CHR ''/'' \<notin> set peer_id"
    and "peer_id \<noteq> []" "\<not> is_space (last peer_id)"
  shows "encode_join_token (maddr_of proto host port peer_id) = Inr (token_of proto host port peer_id)"
proof -
  have "strip (maddr_of proto host port peer_id) = maddr_of proto host port peer_id"
    using assms(5,6) by (intro strip_id) (simp add: maddr_of_def is_space_def)
  moreover have "CHR ''/'' \<notin> set proto" using assms(1) by (auto simp: HOST_PROTOCOLS_def)
  ultimately show ?thesis
    using split_maddr [of proto host port peer_id] isdigit_no_punct [OF assms(2)] assms(1-4)
    by (simp add: encode_join_token_def token_of_def Let_def)
qed

lemma split_token_address:
  assumes "host_matches proto host" "isdigit port"
  shows "split_address ((if proto = ''ip6'' then CHR ''['' # host @ '']'' else host) @ CHR '':'' # port)
    = Inr (plain_protocol proto, host, port)"
proof (cases "proto = ''ip6''")
  case True
  then show ?thesis using assms(1) partition_on_append [of "CHR '']''" host "CHR '':'' # port"]
    by (simp add: split_address_def host_matches_def plain_protocol_def Let_def)
next
  case False
  then have "split_address (host @ CHR '':'' # port) = Inr (infer_host_protocol host, host, port)"
    using assms isdigit_no_punct [OF assms(2)] rpartition_on_append [of "CHR '':''" port host]
    by (cases host) (auto simp: split_address_def host_matches_def Let_def)
  then show ?thesis using False assms(1) by (simp add: host_matches_def)
qed

lemma decode_token:
  assumes "host_matches proto host" "isdigit port" "peer_id \<noteq> []" "CHR ''@'' \<notin> set peer_id"
  shows "decode_join_token (token_of proto host port peer_id) = Inr (maddr_of (plain_protocol proto) host port peer_id)"
proof -
  define address where "address = (if proto = ''ip6'' then CHR ''['' # host @ '']'' else host) @ CHR '':'' # port"
  have t: "token_of proto host port peer_id = SCHEME @ peer_id @ CHR ''@'' # address" by (simp add: token_of_def address_def)
  have "port \<noteq> []" "\<not> is_space (last port)"
    using assms(2) by (auto simp: isdigit_def list_all_iff intro!: digit_no_space)
  then have "strip (token_of proto host port peer_id) = token_of proto host port peer_id"
    by (intro strip_id) (simp add: token_of_def SCHEME_def is_space_def)
  moreover have "has_scheme (SCHEME @ rest)" for rest
    by (simp add: has_scheme_def SCHEME_def lower_def lower_char_def Let_def)
  moreover have "split_address address = Inr (plain_protocol proto, host, port)"
    unfolding address_def by (rule split_token_address [OF assms(1,2)])
  moreover have "address \<noteq> []" by (simp add: address_def)
  ultimately show ?thesis
    using partition_on_append [OF assms(4), of address] assms(2,3)
    by (simp add: decode_join_token_def Let_def t)
qed

text \<open>C21. Join tokens round-trip: a plain TCP multiaddress whose host is of the kind its protocol says
  (and is not confused by the separators of the token) is encoded, and the token decodes to the same
  multiaddress, where \<open>dns4\<close> and \<open>dns6\<close> have become \<open>dns\<close>; encoding the result gives the token
  again.\<close>

theorem join_token_roundtrip:
  assumes "proto \<in> set HOST_PROTOCOLS" "host_matches proto host" "isdigit port"
    and "peer_id \<noteq> []" "CHR ''@'' \<notin> set peer_id" "\<not> is_space (last peer_id)"
    and "CHR ''/'' \<notin> set host" "CHR ''/'' \<notin> set peer_id"
  shows "\<exists>t. encode_join_token (maddr_of proto host port peer_id) = Inr t
    \<and> decode_join_token t = Inr (maddr_of (plain_protocol proto) host port peer_id)
    \<and> encode_join_token (maddr_of (plain_protocol proto) host port peer_id) = Inr t"
proof -
  have "plain_protocol proto \<in> set HOST_PROTOCOLS" using assms(1) by (auto simp: plain_protocol_def HOST_PROTOCOLS_def)
  moreover have "token_of (plain_protocol proto) host port peer_id = token_of proto host port peer_id"
    by (simp add: token_of_def plain_protocol_def)
  ultimately show ?thesis using encode_maddr decode_token assms by simp
qed

theorem join_token_roundtrip_witness:
  "\<exists>t. encode_join_token (maddr_of ''ip4'' ''203.0.113.10'' ''31337'' ''12D3Koo'') = Inr t
    \<and> decode_join_token t = Inr (maddr_of (plain_protocol ''ip4'') ''203.0.113.10'' ''31337'' ''12D3Koo'')
    \<and> encode_join_token (maddr_of (plain_protocol ''ip4'') ''203.0.113.10'' ''31337'' ''12D3Koo'') = Inr t"
proof (rule join_token_roundtrip)
  show "host_matches ''ip4'' ''203.0.113.10''"
    by (simp add: host_matches_def infer_host_protocol_def ip_address_def parse_ipv4_def parse_octet_def isdigit_def is_digit_def
        digit_value_def plain_protocol_def Let_def)
qed (simp_all add: HOST_PROTOCOLS_def isdigit_def is_digit_def is_space_def)

end
