(* ===== verification/Announcer.thy ===== *)
theory Announcer
  imports Block_Selection
begin

text \<open>
  Models the announcer thread of a server, \<open>ModuleAnnouncerThread\<close> in
  \<open>src/drift/server/server.py\<close>, as a step relation: the thread and the thread that calls \<open>announce\<close>
  share the announcement and an event, and may be interleaved at every access. The memory that is
  left, the measured pings and the end of a wait are chosen freely; storing the announcement in the
  DHT is the step that takes a snapshot of it. The DHT itself and the model index (\<open>_drift.models\<close>)
  are not represented.
\<close>

section \<open>Construction\<close>

text \<open>
  The announcement with the hints of the blocks, and the uids of the blocks after each of them. The
  index of an existing block has been formatted by the caller.
\<close>

definition init_announcer :: "module_uid list \<Rightarrow> server_info \<Rightarrow> (server_info \<times> module_uid list) res" where
  "init_announcer uids info =
     (if uids = [] then Inl IndexError
      else
        rbind (parse_uid (hd uids)) (\<lambda>(prefix', _).
        rbind (rmap (\<lambda>u. rbind (parse_uid u) (\<lambda>(_, i). Inr i)) uids) (\<lambda>indices.
        let a = Min (set indices); b = Max (set indices) + 1 in
        Inr (info\<lparr>si_start_block := Some a, si_end_block := Some b\<rparr>,
             map (\<lambda>i. block_uid prefix' (nat i)) (py_range (a + 1) (b + 1))))))"

text \<open>The cost of a token in the attention cache, rounded down, as announced.\<close>

definition announced_tokens :: "int \<Rightarrow> int \<Rightarrow> int res" where
  "announced_tokens bytes_per_token bytes_left = (if bytes_per_token = 0 then Inl ZeroDivisionError else Inr (bytes_left div bytes_per_token))"

text \<open>The peers to ping: \<open>sample\<close> is the random sampling of at most \<open>max_pinged\<close> of them.\<close>

definition next_servers_to_ping ::
  "(nat \<Rightarrow> peer_id list \<Rightarrow> peer_id list) \<Rightarrow> nat \<Rightarrow> peer_id \<Rightarrow> remote_module_info list \<Rightarrow> peer_id set res" where
  "next_servers_to_ping sample max_pinged self_id infos =
     (if infos = [] then Inl IndexError
      else
        let middle = remdups (concat (map (\<lambda>m. map fst (rm_servers m)) (butlast infos))) in
        Inr ((set (sample max_pinged middle) - {self_id}) \<union> set (sample max_pinged (map fst (rm_servers (last infos))))))"

section \<open>The threads\<close>

datatype announcer_pc =
    Reading_Cache
  | Checking_State
  | Pinging
  | Declaring
  | Checking_Stop
  | Waiting
  | Clearing
  | Ended

text \<open>
  \<open>an_setting\<close>: \<open>announce\<close> has written the state but not yet set the event; \<open>an_leaving\<close>: it waits for
  the thread to end. \<open>an_declared\<close> is what the directory holds.
\<close>

record announcer =
  an_pc :: announcer_pc
  an_info :: server_info
  an_trigger :: bool
  an_setting :: bool
  an_leaving :: bool
  an_declared :: "server_info option"

definition start_announcer :: "server_info \<Rightarrow> announcer" where
  "start_announcer info =
     \<lparr>an_pc = Reading_Cache, an_info = info, an_trigger = False, an_setting = False, an_leaving = False, an_declared = None\<rparr>"

inductive announcer_step :: "int \<Rightarrow> announcer \<Rightarrow> announcer \<Rightarrow> bool" for bytes_per_token where
  read_cache: "an_pc s = Reading_Cache \<Longrightarrow> announced_tokens bytes_per_token bytes_left = Inr n \<Longrightarrow>
     announcer_step bytes_per_token s (s\<lparr>an_info := (an_info s)\<lparr>si_cache_tokens_left := Some n\<rparr>, an_pc := Checking_State\<rparr>)"
| start_ping: "an_pc s = Checking_State \<Longrightarrow> si_state (an_info s) \<noteq> OFFLINE \<Longrightarrow>
     announcer_step bytes_per_token s (s\<lparr>an_pc := Pinging\<rparr>)"
| end_ping: "an_pc s = Pinging \<Longrightarrow>
     announcer_step bytes_per_token s (s\<lparr>an_info := (an_info s)\<lparr>si_next_pings := Some pings\<rparr>, an_pc := Declaring\<rparr>)"
| skip_ping: "an_pc s = Checking_State \<Longrightarrow> si_state (an_info s) = OFFLINE \<Longrightarrow>
     announcer_step bytes_per_token s (s\<lparr>an_info := (an_info s)\<lparr>si_next_pings := None\<rparr>, an_pc := Declaring\<rparr>)"
| declare_blocks: "an_pc s = Declaring \<Longrightarrow>
     announcer_step bytes_per_token s (s\<lparr>an_declared := Some (an_info s), an_pc := Checking_Stop\<rparr>)"
| finish: "an_pc s = Checking_Stop \<Longrightarrow> si_state (an_info s) = OFFLINE \<Longrightarrow>
     announcer_step bytes_per_token s (s\<lparr>an_pc := Ended\<rparr>)"
| go_on: "an_pc s = Checking_Stop \<Longrightarrow> si_state (an_info s) \<noteq> OFFLINE \<Longrightarrow>
     announcer_step bytes_per_token s (s\<lparr>an_pc := Waiting\<rparr>)"
| wake: "an_pc s = Waiting \<Longrightarrow> announcer_step bytes_per_token s (s\<lparr>an_pc := Clearing\<rparr>)"
| clear: "an_pc s = Clearing \<Longrightarrow> announcer_step bytes_per_token s (s\<lparr>an_trigger := False, an_pc := Reading_Cache\<rparr>)"
| set_state: "\<not> an_setting s \<Longrightarrow> \<not> an_leaving s \<Longrightarrow>
     announcer_step bytes_per_token s (s\<lparr>an_info := (an_info s)\<lparr>si_state := st\<rparr>, an_setting := True\<rparr>)"
| set_trigger: "an_setting s \<Longrightarrow>
     announcer_step bytes_per_token s (s\<lparr>an_trigger := True, an_setting := False, an_leaving := (si_state (an_info s) = OFFLINE)\<rparr>)"

inductive_cases announcer_stepE: "announcer_step bytes_per_token s s'"

definition announced :: "announcer \<Rightarrow> server_state option" where
  "announced s = map_option si_state (an_declared s)"

inductive reachable_announcer :: "int \<Rightarrow> server_info \<Rightarrow> announcer \<Rightarrow> bool" for bytes_per_token info where
  start: "reachable_announcer bytes_per_token info (start_announcer info)"
| step: "reachable_announcer bytes_per_token info s \<Longrightarrow> announcer_step bytes_per_token s s'
     \<Longrightarrow> reachable_announcer bytes_per_token info s'"

section \<open>Properties\<close>

text \<open>The state in the directory is the current one, or an update of it is still to come.\<close>

definition fresh :: "announcer \<Rightarrow> bool" where
  "fresh s \<longleftrightarrow> (an_pc s \<in> {Checking_Stop, Waiting} \<longrightarrow> announced s = Some (si_state (an_info s)) \<or> an_setting s \<or> an_trigger s)"

lemma announcer_step_fresh: "announcer_step bpt s s' \<Longrightarrow> fresh s \<Longrightarrow> fresh s'"
  by (erule announcer_stepE) (auto simp: fresh_def announced_def)

text \<open>C13. An announcement is never lost while the server lives: whenever the announcer goes to sleep
  (or is about to) and no \<open>announce\<close> is under way and the event is not set, the directory holds the
  current state, in every interleaving of the two threads.\<close>

theorem sleeping_announcer_is_fresh:
  assumes "reachable_announcer bytes_per_token info s" "an_pc s = Waiting" "\<not> an_setting s" "\<not> an_trigger s"
  shows "announced s = Some (si_state (an_info s))"
proof -
  have "fresh s"
    using assms(1) by induction (auto simp: fresh_def start_announcer_def dest: announcer_step_fresh)
  then show ?thesis using assms(2-4) by (simp add: fresh_def)
qed

text \<open>A run that announces \<open>ONLINE\<close>, and \<open>OFFLINE\<close> right after a declaration.\<close>

definition online_announcer :: "int \<Rightarrow> server_info \<Rightarrow> announcer" where
  "online_announcer n info =
     (let i = info\<lparr>si_state := ONLINE, si_cache_tokens_left := Some n, si_next_pings := Some []\<rparr> in
      \<lparr>an_pc = Checking_Stop, an_info = i, an_trigger = True, an_setting = False, an_leaving = False, an_declared = Some i\<rparr>)"

lemma announced_tokens_some: "bytes_per_token \<noteq> 0 \<Longrightarrow> announced_tokens bytes_per_token (n * bytes_per_token) = Inr n"
  by (simp add: announced_tokens_def)

lemma reachable_online:
  assumes "bytes_per_token \<noteq> 0"
  shows "reachable_announcer bytes_per_token info (online_announcer n info)"
proof -
  let ?R = "reachable_announcer bytes_per_token info"
  let ?s = "start_announcer info"
  let ?s1 = "?s\<lparr>an_info := (an_info ?s)\<lparr>si_state := ONLINE\<rparr>, an_setting := True\<rparr>"
  let ?s2 = "?s1\<lparr>an_trigger := True, an_setting := False, an_leaving := (si_state (an_info ?s1) = OFFLINE)\<rparr>"
  let ?s3 = "?s2\<lparr>an_info := (an_info ?s2)\<lparr>si_cache_tokens_left := Some n\<rparr>, an_pc := Checking_State\<rparr>"
  let ?s4 = "?s3\<lparr>an_pc := Pinging\<rparr>"
  let ?s5 = "?s4\<lparr>an_info := (an_info ?s4)\<lparr>si_next_pings := Some []\<rparr>, an_pc := Declaring\<rparr>"
  let ?s6 = "?s5\<lparr>an_declared := Some (an_info ?s5), an_pc := Checking_Stop\<rparr>"
  have "?R ?s" by (rule start)
  from step [OF this set_state [of ?s, where st = ONLINE]] have "?R ?s1" by (simp add: start_announcer_def)
  from step [OF this set_trigger [of ?s1]] have "?R ?s2" by simp
  from step [OF this read_cache [OF _ announced_tokens_some [OF assms, of n]]] have "?R ?s3" by (simp add: start_announcer_def)
  from step [OF this start_ping [of ?s3]] have "?R ?s4" by simp
  from step [OF this end_ping [of ?s4, where pings = "[]"]] have "?R ?s5" by simp
  from step [OF this declare_blocks [of ?s5]] have "?R ?s6" by simp
  moreover have "?s6 = online_announcer n info" by (simp add: start_announcer_def online_announcer_def Let_def)
  ultimately show ?thesis by simp
qed

text \<open>The last announcement can be lost: \<open>announce(OFFLINE)\<close> may come after the announcer has
  stored \<open>ONLINE\<close> and before it checks whether to stop. Then the thread ends, \<open>announce\<close> returns from
  its join, and the directory keeps the server \<open>ONLINE\<close> until the entry expires.\<close>

theorem offline_announcement_lost:
  assumes "bytes_per_token \<noteq> 0"
  shows "\<exists>s. reachable_announcer bytes_per_token info s \<and> an_pc s = Ended \<and> an_leaving s
    \<and> si_state (an_info s) = OFFLINE \<and> announced s = Some ONLINE"
proof -
  let ?R = "reachable_announcer bytes_per_token info"
  let ?s = "online_announcer 0 info"
  let ?s1 = "?s\<lparr>an_info := (an_info ?s)\<lparr>si_state := OFFLINE\<rparr>, an_setting := True\<rparr>"
  let ?s2 = "?s1\<lparr>an_trigger := True, an_setting := False, an_leaving := (si_state (an_info ?s1) = OFFLINE)\<rparr>"
  let ?s3 = "?s2\<lparr>an_pc := Ended\<rparr>"
  from step [OF reachable_online [OF assms] set_state [of ?s, where st = OFFLINE]] have "?R ?s1" by (simp add: online_announcer_def Let_def)
  from step [OF this set_trigger [of ?s1]] have "?R ?s2" by simp
  from step [OF this finish [of ?s2]] have "?R ?s3" by (simp add: online_announcer_def Let_def)
  then show ?thesis by (intro exI [of _ ?s3]) (simp add: online_announcer_def announced_def Let_def)
qed

theorem offline_announcement_lost_witness:
  "\<exists>s. reachable_announcer 8192 (sample_info JOINING 1) s \<and> an_pc s = Ended \<and> an_leaving s
    \<and> si_state (an_info s) = OFFLINE \<and> announced s = Some ONLINE"
  by (rule offline_announcement_lost) simp

text \<open>The thread is leaving and will store its last state.\<close>

definition saying_goodbye :: "announcer \<Rightarrow> bool" where
  "saying_goodbye s \<longleftrightarrow> si_state (an_info s) = OFFLINE \<and> (an_setting s \<or> an_leaving s)
     \<and> (an_pc s \<in> {Checking_Stop, Ended} \<longrightarrow> announced s = Some OFFLINE)"

lemma saying_goodbye_step: "announcer_step bpt s s' \<Longrightarrow> saying_goodbye s \<Longrightarrow> saying_goodbye s'"
  by (erule announcer_stepE) (auto simp: saying_goodbye_def announced_def)

lemma saying_goodbye_run:
  assumes "saying_goodbye s" "(announcer_step bpt)\<^sup>*\<^sup>* s s'"
  shows "saying_goodbye s'"
  using assms(2,1) by induction (auto dest: saying_goodbye_step)

text \<open>Otherwise it is not: when \<open>OFFLINE\<close> is set at any other moment, then in every interleaving
  the thread only ends after it has stored \<open>OFFLINE\<close>.\<close>

theorem offline_announced_elsewhere:
  assumes "si_state (an_info s) = OFFLINE" "an_setting s \<or> an_leaving s" "an_pc s \<notin> {Checking_Stop, Ended}"
    and "(announcer_step bytes_per_token)\<^sup>*\<^sup>* s s'" "an_pc s' = Ended"
  shows "announced s' = Some OFFLINE"
  using saying_goodbye_run [OF _ assms(4)] assms(1-3,5) by (simp add: saying_goodbye_def)

definition leaving_announcer :: announcer where
  "leaving_announcer =
     \<lparr>an_pc = Declaring, an_info = sample_info OFFLINE 1, an_trigger = True, an_setting = False, an_leaving = True, an_declared = None\<rparr>"

definition gone_announcer :: announcer where
  "gone_announcer = leaving_announcer\<lparr>an_pc := Ended, an_declared := Some (sample_info OFFLINE 1)\<rparr>"

lemma leaving_to_gone: "(announcer_step 8192)\<^sup>*\<^sup>* leaving_announcer gone_announcer"
proof -
  let ?s = "leaving_announcer\<lparr>an_declared := Some (an_info leaving_announcer), an_pc := Checking_Stop\<rparr>"
  have "announcer_step 8192 leaving_announcer ?s" by (rule declare_blocks) (simp add: leaving_announcer_def)
  moreover have "announcer_step 8192 ?s gone_announcer"
    using finish [of ?s 8192] by (simp add: leaving_announcer_def gone_announcer_def)
  ultimately show ?thesis by (meson rtranclp.rtrancl_refl rtranclp.rtrancl_into_rtrancl)
qed

theorem offline_announced_elsewhere_witness:
  "announced gone_announcer = Some OFFLINE"
  by (rule offline_announced_elsewhere [OF _ _ _ leaving_to_gone]) (simp_all add: leaving_announcer_def gone_announcer_def)

text \<open>The announcer asleep after it has cleared the event and declared once more.\<close>

definition asleep_announcer :: "int \<Rightarrow> server_info \<Rightarrow> announcer" where
  "asleep_announcer n info = (online_announcer n info)\<lparr>an_pc := Waiting, an_trigger := False\<rparr>"

lemma reachable_asleep:
  assumes "bytes_per_token \<noteq> 0"
  shows "reachable_announcer bytes_per_token info (asleep_announcer n info)"
proof -
  let ?R = "reachable_announcer bytes_per_token info"
  define i where "i = info\<lparr>si_state := ONLINE, si_cache_tokens_left := Some n, si_next_pings := Some []\<rparr>"
  have i: "i\<lparr>si_cache_tokens_left := Some n\<rparr> = i" "i\<lparr>si_next_pings := Some []\<rparr> = i" "si_state i = ONLINE"
    by (cases info, simp add: i_def)+
  define s where "s = (\<lambda>pc trig. \<lparr>an_pc = pc, an_info = i, an_trigger = trig, an_setting = False, an_leaving = False, an_declared = Some i\<rparr>)"
  have s [simp]: "an_pc (s pc t) = pc" "an_info (s pc t) = i" "(s pc t)\<lparr>an_pc := pc'\<rparr> = s pc' t" "(s pc t)\<lparr>an_trigger := t'\<rparr> = s pc t'"
    "(s pc t)\<lparr>an_info := i\<rparr> = s pc t" "(s pc t)\<lparr>an_declared := Some i\<rparr> = s pc t" for pc pc' t t'
    by (simp_all add: s_def)
  have "?R (s Checking_Stop True)"
    using reachable_online [OF assms, of info n] by (simp add: online_announcer_def s_def i_def Let_def)
  from step [OF this go_on] have "?R (s Waiting True)" by (simp add: i)
  from step [OF this wake] have "?R (s Clearing True)" by simp
  from step [OF this clear] have "?R (s Reading_Cache False)" by simp
  from step [OF this read_cache [OF _ announced_tokens_some [OF assms, of n]]] have "?R (s Checking_State False)" by (simp add: i)
  from step [OF this start_ping] have "?R (s Pinging False)" by (simp add: i)
  from step [OF this end_ping [where pings = "[]"]] have "?R (s Declaring False)" by (simp add: i)
  from step [OF this declare_blocks] have "?R (s Checking_Stop False)" by simp
  from step [OF this go_on] have "?R (s Waiting False)" by (simp add: i)
  then show ?thesis by (simp add: asleep_announcer_def online_announcer_def s_def i_def Let_def)
qed

theorem sleeping_announcer_is_fresh_witness:
  "announced (asleep_announcer 3 (sample_info JOINING 1)) = Some (si_state (an_info (asleep_announcer 3 (sample_info JOINING 1))))"
  by (rule sleeping_announcer_is_fresh [OF reachable_asleep [of 8192]]) (simp_all add: asleep_announcer_def online_announcer_def Let_def)

section \<open>Announcements of an overcommitted cache\<close>

text \<open>A server whose cache is overcommitted disappears from the swarm: the negative number of bytes
  left becomes a negative number of tokens in the announcement, which every reader rejects, so that
  the server is skipped although everything else it announces is valid.\<close>

theorem overcommitted_server_hidden:
  assumes "coercions_ok C" "info_valid (info\<lparr>si_cache_tokens_left := None\<rparr>)" "bytes_left < 0" "0 < bytes_per_token"
    and "announced_tokens bytes_per_token bytes_left = Inr n"
  shows "read_entry C from_base58 adapter (p, to_tuple (info\<lparr>si_cache_tokens_left := Some n\<rparr>))
     = (case from_base58 p of Inl e \<Rightarrow> if e = TypeError \<or> e = ValueError then Inr None else Inl e | Inr _ \<Rightarrow> Inr None)"
proof -
  have n: "n < 0" using assms(3-5) by (auto simp: announced_tokens_def intro: div_neg_pos_less0 split: if_splits)
  have c: "\<And>x. co_str C (VStr x) = Some x" "\<And>x. co_bool C (VBool x) = Some x" "\<And>x. co_strs C (VList (map VStr x)) = Some x"
    using assms(1) by (auto simp: coercions_ok_def)
  have "val_optional val_conint (opt_val VInt (Some n)) = Inl ValueError" using n by (simp add: opt_val_def val_optional_def)
  then have "from_tuple C (to_tuple (info\<lparr>si_cache_tokens_left := Some n\<rparr>)) = Inl ValueError"
    using assms(2) by (simp add: to_tuple_def from_fields_def info_of_fields_def vget_def dict_has_def val_optional_round val_coerce_def c info_valid_def Let_def)
  then show ?thesis by (auto simp: read_entry_def split: sum.splits)
qed

theorem overcommitted_server_hidden_witness:
  "read_entry sample_coercions Inr None (''P'', to_tuple ((sample_info ONLINE 1)\<lparr>si_cache_tokens_left := Some (-1)\<rparr>))
     = (case Inr ''P'' of Inl e \<Rightarrow> if e = TypeError \<or> e = ValueError then Inr None else Inl e | Inr (_ :: peer_id) \<Rightarrow> Inr None)"
  by (rule overcommitted_server_hidden [OF sample_coercions_ok, where bytes_left = "-6" and bytes_per_token = 8192])
    (simp_all add: info_valid_def announced_tokens_def sample_info_def)

end
