(* ===== verification/Throughput.thy ===== *)
theory Throughput
  imports Block_Functions
begin

text \<open>
  Models \<open>src/drift/server/throughput.py\<close>, \<open>src/drift/utils/hardware.py\<close> and
  \<open>src/drift/server/block_utils.py\<close>: the devices of a server, the size of a block, and the measured
  and cached throughput of a host. What \<open>torch\<close>, \<open>bitsandbytes\<close> and the speed test answer are
  parameters; the measurements are rational numbers.
\<close>

section \<open>Devices and types\<close>

datatype device_type = CPU | CUDA | XPU | MPS

record device =
  dev_type :: device_type
  dev_index :: "nat option"

datatype torch_dtype = Bfloat16 | Float16 | Float32 | Float64

text \<open>What is asked of \<open>torch\<close> and the operating system.\<close>

record hardware =
  hw_available :: "device_type \<Rightarrow> bool"
  hw_total_memory :: "device \<Rightarrow> nat"
  hw_system_memory :: nat
  hw_name :: "device \<Rightarrow> string"
  hw_mps_bfloat16 :: bool
  hw_can_quantize :: "quant_type \<Rightarrow> device \<Rightarrow> bool"

definition ACCELERATOR_TYPES :: "device_type list" where
  "ACCELERATOR_TYPES = [CUDA, XPU, MPS]"

definition auto_detect_device :: "hardware \<Rightarrow> device_type" where
  "auto_detect_device hw = (case filter (hw_available hw) ACCELERATOR_TYPES of [] \<Rightarrow> CPU | t # _ \<Rightarrow> t)"

definition is_accelerator :: "device \<Rightarrow> bool" where
  "is_accelerator d = (dev_type d \<in> set ACCELERATOR_TYPES)"

definition has_properties :: "device \<Rightarrow> bool" where
  "has_properties d = (dev_type d = CUDA \<or> dev_type d = XPU)"

definition normalize_device :: "device \<Rightarrow> device" where
  "normalize_device d = (if has_properties d \<and> dev_index d = None then d\<lparr>dev_index := Some 0\<rparr> else d)"

definition dtype_supported :: "hardware \<Rightarrow> device \<Rightarrow> torch_dtype \<Rightarrow> bool" where
  "dtype_supported hw d t =
     (if dev_type d = CPU \<and> t = Float16 then False
      else if dev_type d = MPS \<and> t = Bfloat16 \<and> \<not> hw_mps_bfloat16 hw then False
      else True)"

definition get_device_total_memory :: "hardware \<Rightarrow> device \<Rightarrow> nat" where
  "get_device_total_memory hw d = (if has_properties d then hw_total_memory hw d else hw_system_memory hw)"

definition device_type_name :: "device_type \<Rightarrow> string" where
  "device_type_name t = (case t of CPU \<Rightarrow> ''CPU'' | CUDA \<Rightarrow> ''CUDA'' | XPU \<Rightarrow> ''XPU'' | MPS \<Rightarrow> ''MPS'')"

definition get_device_name :: "hardware \<Rightarrow> device \<Rightarrow> string" where
  "get_device_name hw d = (if has_properties d then hw_name hw d @ '' GPU'' else device_type_name (dev_type d))"

section \<open>Block sizes\<close>

text \<open>The type asked for, \<open>None\<close> for \<open>auto\<close>.\<close>

definition resolve_block_dtype :: "torch_dtype option \<Rightarrow> torch_dtype option \<Rightarrow> torch_dtype" where
  "resolve_block_dtype config_dtype dtype =
     (case dtype of
        Some t \<Rightarrow> t
      | None \<Rightarrow> (case config_dtype of Some t \<Rightarrow> if t \<noteq> Float32 then t else Bfloat16 | None \<Rightarrow> Bfloat16))"

definition torch_dtype_size :: "torch_dtype \<Rightarrow> nat" where
  "torch_dtype_size t = (case t of Bfloat16 \<Rightarrow> 2 | Float16 \<Rightarrow> 2 | Float32 \<Rightarrow> 4 | Float64 \<Rightarrow> 8)"

text \<open>\<open>round\<close>: ties go to the even neighbour.\<close>

definition py_round :: "rat \<Rightarrow> int" where
  "py_round x =
     (let f = \<lfloor>x\<rfloor>; d = x - rat_of_int f in
      if d < 1 / 2 then f else if 1 / 2 < d then f + 1 else if even f then f else f + 1)"

datatype location = Memory | Disk

definition bytes_per_value :: "torch_dtype option \<Rightarrow> location \<Rightarrow> torch_dtype option \<Rightarrow> quant_type \<Rightarrow> rat" where
  "bytes_per_value config_dtype loc dtype quant =
     (case loc of
        Memory \<Rightarrow>
          (case quant of
             QNone \<Rightarrow> of_nat (torch_dtype_size (resolve_block_dtype config_dtype dtype))
           | INT8 \<Rightarrow> 1
           | NF4 \<Rightarrow> 425 / 800)
      | Disk \<Rightarrow> of_nat (torch_dtype_size (resolve_block_dtype config_dtype None)))"

definition get_block_size :: "nat \<Rightarrow> torch_dtype option \<Rightarrow> location \<Rightarrow> torch_dtype option \<Rightarrow> quant_type \<Rightarrow> int" where
  "get_block_size n_params config_dtype loc dtype quant =
     py_round (of_nat n_params * bytes_per_value config_dtype loc dtype quant * (1 + 1 / 100))"

section \<open>Throughput\<close>

record throughput_info =
  ti_inference_rps :: rat
  ti_forward_rps :: rat
  ti_network_rps :: rat
  ti_throughput :: "rat option"

text \<open>The speed test: no answer in time, an exception, or the download and upload speeds.\<close>

datatype speed_test = NoAnswer | TestFailed | Speeds rat rat

definition measure_network_rps :: "nat \<Rightarrow> rat \<Rightarrow> speed_test \<Rightarrow> rat res" where
  "measure_network_rps hidden default_speed test =
     (let bits_per_request = of_nat (hidden * 16); fallback = default_speed / bits_per_request in
      case test of
        Speeds down up \<Rightarrow>
          if bits_per_request = 0 then Inl ZeroDivisionError
          else let rps = min down up / bits_per_request in if rps = 0 then Inr fallback else Inr rps
      | _ \<Rightarrow> if bits_per_request = 0 then Inl ZeroDivisionError else Inr fallback)"

definition measure_compute_rps :: "(nat \<Rightarrow> nat \<Rightarrow> bool \<Rightarrow> rat) \<Rightarrow> nat \<Rightarrow> nat \<Rightarrow> bool \<Rightarrow> rat res" where
  "measure_compute_rps elapsed n_tokens n_steps inference =
     (let t = elapsed n_tokens n_steps inference in
      if t = 0 then Inl ZeroDivisionError else Inr (of_nat (n_steps * n_tokens) / t))"

definition measure_throughput_info :: "(nat \<Rightarrow> nat \<Rightarrow> bool \<Rightarrow> rat) \<Rightarrow> nat \<Rightarrow> speed_test \<Rightarrow> throughput_info res" where
  "measure_throughput_info elapsed hidden test =
     rbind (measure_compute_rps elapsed 1 100 True) (\<lambda>inference.
     rbind (measure_compute_rps elapsed 1024 10 False) (\<lambda>fwd.
     rbind (measure_network_rps hidden 100000000 test) (\<lambda>network.
       Inr \<lparr>ti_inference_rps = inference, ti_forward_rps = fwd, ti_network_rps = network, ti_throughput = None\<rparr>)))"

definition torch_dtype_name :: "torch_dtype \<Rightarrow> string" where
  "torch_dtype_name t = (case t of Bfloat16 \<Rightarrow> ''bfloat16'' | Float16 \<Rightarrow> ''float16'' | Float32 \<Rightarrow> ''float32'' | Float64 \<Rightarrow> ''float64'')"

definition quant_name :: "quant_type \<Rightarrow> string" where
  "quant_name q = (case q of QNone \<Rightarrow> ''none'' | INT8 \<Rightarrow> ''int8'' | NF4 \<Rightarrow> ''nf4'')"

definition get_dtype_name :: "torch_dtype \<Rightarrow> quant_type \<Rightarrow> string" where
  "get_dtype_name t q = torch_dtype_name t @ (if q = QNone then [] else '', quantized to '' @ quant_name q)"

definition underscores :: "string \<Rightarrow> string" where
  "underscores s = map (\<lambda>c. if c = CHR '' '' then CHR ''_'' else c) s"

definition throughput_key :: "hardware \<Rightarrow> string \<Rightarrow> device \<Rightarrow> torch_dtype \<Rightarrow> quant_type \<Rightarrow> device list \<Rightarrow> string" where
  "throughput_key hw model_name d t q tp_devices =
     ''model_'' @ model_name @ ''_device_'' @ underscores (get_device_name hw d) @ ''_dtype_'' @ get_dtype_name t q
     @ (if 1 < length tp_devices
        then concat (map (\<lambda>(i, di). ''_tp'' @ show_nat i @ ''_'' @ underscores (get_device_name hw di)) (zip [0..<length tp_devices] tp_devices))
        else [])"

text \<open>The file of measurements: absent, unreadable (or not a dictionary), or a dictionary.\<close>

datatype cache_file = NoFile | Unreadable | Saved "(string, throughput_info) dict"

definition load_throughputs :: "bool \<Rightarrow> cache_file \<Rightarrow> (string, throughput_info) dict" where
  "load_throughputs force_eval file = (case file of Saved d \<Rightarrow> if force_eval then [] else d | _ \<Rightarrow> [])"

definition reported_throughput :: "int \<Rightarrow> bool \<Rightarrow> rat \<Rightarrow> throughput_info \<Rightarrow> throughput_info res" where
  "reported_throughput num_blocks via_relay relay_penalty info =
     (let average_blocks_used = (of_int num_blocks + 1) / 2 in
      if average_blocks_used = 0 then Inl ZeroDivisionError
      else
        let throughput = ti_forward_rps info / average_blocks_used;
            network_rps = ti_network_rps info * (if via_relay then relay_penalty else 1) in
        Inr (info\<lparr>ti_throughput := Some (min throughput network_rps)\<rparr>))"

text \<open>The result with the file left behind; \<open>can_save\<close> says whether it can be written.\<close>

definition get_server_throughput ::
  "hardware \<Rightarrow> string \<Rightarrow> device \<Rightarrow> torch_dtype \<Rightarrow> quant_type \<Rightarrow> device list \<Rightarrow> int \<Rightarrow> bool \<Rightarrow> rat \<Rightarrow> bool \<Rightarrow> bool
   \<Rightarrow> throughput_info res \<Rightarrow> cache_file \<Rightarrow> throughput_info res \<times> cache_file" where
  "get_server_throughput hw model_name d t q tp_devices num_blocks via_relay relay_penalty force_eval can_save measured file =
     (let key = throughput_key hw model_name d t q tp_devices; cache = load_throughputs force_eval file in
      case map_of cache key of
        Some info \<Rightarrow> (reported_throughput num_blocks via_relay relay_penalty info, file)
      | None \<Rightarrow>
          (case measured of
             Inl e \<Rightarrow> (Inl e, file)
           | Inr info \<Rightarrow> (reported_throughput num_blocks via_relay relay_penalty info,
                          if can_save then Saved (AList.update key info cache) else file)))"

end
