(* ===== verification/Server_Setup.thy ===== *)
theory Server_Setup
  imports Throughput Block_Selection
begin

text \<open>
  Models the configuration of a server in \<open>src/drift/server/server.py\<close> (\<open>Server.__init__\<close>,
  \<open>Server._choose_num_blocks\<close>, the swarm profile check): how arguments, model and hardware determine
  the blocks, the cache and the announcement. Creating the DHT and downloading the configuration are
  not represented; the reachability of the host, the number of parameters of a block and the memory
  of its adapters are parameters. \<open>sys.exit\<close> after a dry run is the result \<open>DryRun\<close>.
\<close>

section \<open>Arguments\<close>

record served_model =
  sm_name :: string
  sm_is_dir :: bool
  sm_dht_prefix :: string
  sm_num_layers :: int
  sm_hidden_size :: nat
  sm_kv_groups :: nat
  sm_dtype :: "torch_dtype option"
  sm_block_params :: nat
  sm_adapter_bytes :: int

datatype throughput_arg = Rate rat | Mode string

record server_args =
  av_dht_prefix :: "string option"
  av_public_name :: "string option"
  av_throughput :: throughput_arg
  av_num_blocks :: "int option"
  av_block_indices :: "string option"
  av_inference_max_length :: "int option"
  av_max_batch_size :: "int option"
  av_attn_cache_tokens :: "nat option"
  av_cache :: string
  av_torch_dtype :: string
  av_device :: "device option"
  av_update_period :: rat
  av_expiration :: "rat option"
  av_quant :: "quant_type option"
  av_tp_devices :: "device list option"
  av_via_relay :: "bool option"
  av_adapters :: "string list"

definition MAX_DHT_TIME_DISCREPANCY_SECONDS :: rat where
  "MAX_DHT_TIME_DISCREPANCY_SECONDS = 3"

definition DTYPE_MAP :: "(string, torch_dtype option) dict" where
  "DTYPE_MAP = [(''bfloat16'', Some Bfloat16), (''float16'', Some Float16), (''float32'', Some Float32), (''auto'', None)]"

section \<open>Single settings\<close>

definition resolve_dht_prefix :: "string option \<Rightarrow> string \<Rightarrow> string res" where
  "resolve_dht_prefix arg config_prefix =
     (let p = (case arg of None \<Rightarrow> config_prefix | Some p \<Rightarrow> p) in
      if UID_DELIMITER \<in> set p \<or> CHAIN_DELIMITER \<in> set p then Inl AssertionError else Inr p)"

definition resolve_expiration :: "rat option \<Rightarrow> rat \<Rightarrow> rat" where
  "resolve_expiration arg update_period =
     (case arg of None \<Rightarrow> max (2 * update_period) MAX_DHT_TIME_DISCREPANCY_SECONDS | Some e \<Rightarrow> e)"

text \<open>An unknown reachability runs a full peer.\<close>

definition resolve_relay :: "bool option \<Rightarrow> bool option \<Rightarrow> bool" where
  "resolve_relay arg is_reachable = (case arg of None \<Rightarrow> is_reachable = Some False | Some r \<Rightarrow> r)"

definition resolve_device :: "hardware \<Rightarrow> device option \<Rightarrow> device" where
  "resolve_device hw arg =
     normalize_device (case arg of None \<Rightarrow> \<lparr>dev_type = auto_detect_device hw, dev_index = None\<rparr> | Some d \<Rightarrow> d)"

definition resolve_dtype :: "hardware \<Rightarrow> device \<Rightarrow> torch_dtype option \<Rightarrow> string \<Rightarrow> torch_dtype res" where
  "resolve_dtype hw d config_dtype arg =
     rbind (dict_get DTYPE_MAP arg) (\<lambda>wanted.
       let t = resolve_block_dtype config_dtype wanted in
       if dtype_supported hw d t then Inr t
       else if dev_type d = MPS \<and> t = Bfloat16 then Inr Float16
       else Inl ValueError)"

definition quant_usable :: "hardware \<Rightarrow> quant_type \<Rightarrow> device \<Rightarrow> bool" where
  "quant_usable hw q d = (q = QNone \<or> hw_can_quantize hw q d)"

definition resolve_quant :: "hardware \<Rightarrow> device \<Rightarrow> quant_type option \<Rightarrow> quant_type res" where
  "resolve_quant hw d arg =
     (let q = (case arg of None \<Rightarrow> if dev_type d = CUDA then NF4 else QNone | Some q \<Rightarrow> q) in
      if quant_usable hw q d then Inr q
      else if arg \<noteq> None then Inl RuntimeError
      else Inr QNone)"

definition default_length :: "nat \<Rightarrow> int" where
  "default_length kv_groups = (if 1 < kv_groups then 8192 else 2048)"

definition cache_bytes_per_block :: "served_model \<Rightarrow> torch_dtype \<Rightarrow> nat option \<Rightarrow> nat res" where
  "cache_bytes_per_block m t tokens =
     (let n = (case tokens of None \<Rightarrow> if 1 < sm_kv_groups m then 16384 else 4096 | Some n \<Rightarrow> n) in
      if sm_kv_groups m = 0 then Inl ZeroDivisionError
      else Inr (2 * sm_hidden_size m * n div sm_kv_groups m * torch_dtype_size t))"

section \<open>Blocks\<close>

definition GiB :: nat where "GiB = 1024 ^ 3"

definition total_device_memory :: "hardware \<Rightarrow> device \<Rightarrow> device list \<Rightarrow> nat res" where
  "total_device_memory hw d tp_devices =
     (let n = (if tp_devices = [] then 1 else length tp_devices) in
      if 1 < n
      then
        if dev_type d \<noteq> CUDA then Inl AssertionError
        else
          let mems = map (get_device_total_memory hw) tp_devices; lo = Min (set mems); hi = Max (set mems) in
          if lo = 0 then Inl ZeroDivisionError
          else if 3 * lo < 2 * hi then Inl ValueError
          else Inr (lo * n)
      else Inr (get_device_total_memory hw d))"

definition autograd_memory :: "served_model \<Rightarrow> device list \<Rightarrow> rat" where
  "autograd_memory m tp_devices =
     of_nat (2 * GiB * (if tp_devices = [] then 1 else length tp_devices)) / 14336 * of_nat (sm_hidden_size m)"

definition memory_per_block :: "served_model \<Rightarrow> torch_dtype \<Rightarrow> quant_type \<Rightarrow> nat \<Rightarrow> string list \<Rightarrow> int" where
  "memory_per_block m t q cache_bytes adapters =
     get_block_size (sm_block_params m) (sm_dtype m) Memory (Some t) q + int cache_bytes
     + (if adapters \<noteq> [] then sm_adapter_bytes m else 0)"

definition choose_num_blocks ::
  "hardware \<Rightarrow> served_model \<Rightarrow> device \<Rightarrow> device list \<Rightarrow> torch_dtype \<Rightarrow> quant_type \<Rightarrow> nat \<Rightarrow> string list \<Rightarrow> int res" where
  "choose_num_blocks hw m d tp_devices t q cache_bytes adapters =
     (if \<not> is_accelerator d then Inl AssertionError
      else
        rbind (total_device_memory hw d tp_devices) (\<lambda>total.
        let per_block = memory_per_block m t q cache_bytes adapters in
        if per_block = 0 then Inl ZeroDivisionError
        else
          let n = \<lfloor>(of_nat total - autograd_memory m tp_devices) / of_int per_block\<rfloor> in
          if n < 1 then Inl AssertionError else Inr (min n (sm_num_layers m))))"

definition parse_block_indices :: "string \<Rightarrow> (int \<times> int) res" where
  "parse_block_indices s =
     (case rmap (\<lambda>x. py_int (strip x)) (split_on CHR '':'' s) of
        Inr [a, b] \<Rightarrow> Inr (a, b)
      | _ \<Rightarrow> Inl ValueError)"

text \<open>The strict block indices, if any, with the number of blocks.\<close>

definition resolve_blocks :: "int \<Rightarrow> int option \<Rightarrow> string option \<Rightarrow> int res \<Rightarrow> (int list option \<times> int) res" where
  "resolve_blocks num_layers num_blocks block_indices chosen =
     (if num_blocks \<noteq> None \<and> block_indices \<noteq> None then Inl AssertionError
      else
        (case block_indices of
           Some s \<Rightarrow> rbind (parse_block_indices s) (\<lambda>(a, b). Inr (Some (py_range a b), int (length (py_range a b))))
         | None \<Rightarrow>
             rbind (case num_blocks of None \<Rightarrow> chosen | Some n \<Rightarrow> Inr n) (\<lambda>n. Inr (None, min n num_layers))))"

section \<open>The server\<close>

record server_config =
  sc_dht_prefix :: string
  sc_expiration :: rat
  sc_module_uids :: "module_uid list"
  sc_device :: device
  sc_dtype :: torch_dtype
  sc_tp_devices :: "device list"
  sc_quant :: quant_type
  sc_max_batch_size :: int
  sc_inference_max_length :: int
  sc_paged :: bool
  sc_strict_indices :: "int list option"
  sc_num_blocks :: int
  sc_attn_cache_bytes :: int
  sc_info :: server_info
  sc_model_info :: model_info

text \<open>The rates a server announces: overall, and measured if they were measured.\<close>

record rates =
  ra_throughput :: rat
  ra_inference :: "rat option"
  ra_forward :: "rat option"
  ra_network :: "rat option"

definition measured_rates :: "throughput_info \<Rightarrow> rates" where
  "measured_rates ti =
     \<lparr>ra_throughput = (case ti_throughput ti of None \<Rightarrow> 0 | Some r \<Rightarrow> r), ra_inference = Some (ti_inference_rps ti),
      ra_forward = Some (ti_forward_rps ti), ra_network = Some (ti_network_rps ti)\<rparr>"

datatype 'a init_outcome = Ready 'a | DryRun

definition resolve_throughput :: "throughput_arg \<Rightarrow> (bool \<Rightarrow> throughput_info res) \<Rightarrow> rates init_outcome res" where
  "resolve_throughput arg benchmark =
     (case arg of
        Rate r \<Rightarrow> Inr (Ready \<lparr>ra_throughput = r, ra_inference = None, ra_forward = None, ra_network = None\<rparr>)
      | Mode mode \<Rightarrow>
          if mode \<notin> {''auto'', ''eval'', ''dry_run''} then Inl AssertionError
          else rbind (benchmark (mode \<noteq> ''auto'')) (\<lambda>ti. Inr (if mode = ''dry_run'' then DryRun else Ready (measured_rates ti))))"

definition drift_version :: string where
  "drift_version = ''2.3.0.dev2''"

text \<open>The first announcement: pydantic rejects rates that are not non-negative.\<close>

definition rates_valid :: "rates \<Rightarrow> bool" where
  "rates_valid r \<longleftrightarrow> 0 \<le> ra_throughput r \<and> (\<forall>x \<in> set_option (ra_inference r). 0 \<le> x)
     \<and> (\<forall>x \<in> set_option (ra_forward r). 0 \<le> x) \<and> (\<forall>x \<in> set_option (ra_network r). 0 \<le> x)"

definition initial_info ::
  "string option \<Rightarrow> string list \<Rightarrow> torch_dtype \<Rightarrow> quant_type \<Rightarrow> bool \<Rightarrow> rates \<Rightarrow> server_info res" where
  "initial_info public_name adapters t q via_relay r =
     (if rates_valid r
      then Inr \<lparr>si_state = JOINING, si_throughput = ra_throughput r, si_start_block = None, si_end_block = None,
        si_public_name = public_name, si_version = Some drift_version, si_network_rps = ra_network r,
        si_forward_rps = ra_forward r, si_inference_rps = ra_inference r, si_adapters = adapters,
        si_torch_dtype = Some (torch_dtype_name t), si_quant_type = Some (quant_name q), si_using_relay = Some via_relay,
        si_cache_tokens_left = None, si_next_pings = None\<rparr>
      else Inl ValueError)"

definition initial_model_info :: "served_model \<Rightarrow> model_info res" where
  "initial_model_info m =
     (if sm_num_layers m < 1 then Inl ValueError
      else Inr \<lparr>mi_num_blocks = sm_num_layers m,
                mi_repository = (if sm_is_dir m then None else Some (''https://huggingface.co/'' @ sm_name m))\<rparr>)"

text \<open>
  \<open>Server.__init__\<close> in the order of the code; \<open>benchmark\<close> stands for \<open>get_server_throughput\<close> and gets
  what was resolved before it.
\<close>

definition init_server ::
  "hardware \<Rightarrow> served_model \<Rightarrow> (device \<Rightarrow> torch_dtype \<Rightarrow> quant_type \<Rightarrow> device list \<Rightarrow> int \<Rightarrow> bool \<Rightarrow> bool \<Rightarrow> throughput_info res)
   \<Rightarrow> bool option \<Rightarrow> server_args \<Rightarrow> server_config init_outcome res" where
  "init_server hw m benchmark is_reachable av =
     rbind (resolve_dht_prefix (av_dht_prefix av) (sm_dht_prefix m)) (\<lambda>prefix'.
     let relay = resolve_relay (av_via_relay av) is_reachable; d = resolve_device hw (av_device av) in
     rbind (resolve_dtype hw d (sm_dtype m) (av_torch_dtype av)) (\<lambda>t.
     let tp = (case av_tp_devices av of None \<Rightarrow> [d] | Some ds \<Rightarrow> ds) in
     rbind (resolve_quant hw d (av_quant av)) (\<lambda>q.
     rbind (rassert (av_cache av = ''contiguous'' \<or> av_cache av = ''paged'') AssertionError) (\<lambda>_.
     rbind (cache_bytes_per_block m t (av_attn_cache_tokens av)) (\<lambda>cache_bytes.
     rbind (resolve_blocks (sm_num_layers m) (av_num_blocks av) (av_block_indices av)
              (choose_num_blocks hw m d tp t q cache_bytes (av_adapters av))) (\<lambda>(strict, num_blocks).
     rbind (resolve_throughput (av_throughput av) (benchmark d t q tp num_blocks relay)) (\<lambda>out.
     case out of
       DryRun \<Rightarrow> Inr DryRun
     | Ready r \<Rightarrow>
         rbind (initial_info (av_public_name av) (av_adapters av) t q relay r) (\<lambda>info.
         rbind (initial_model_info m) (\<lambda>mi.
         Inr (Ready
           \<lparr>sc_dht_prefix = prefix', sc_expiration = resolve_expiration (av_expiration av) (av_update_period av),
            sc_module_uids = map (\<lambda>i. block_uid prefix' (nat i)) (py_range 0 (sm_num_layers m)), sc_device = d, sc_dtype = t,
            sc_tp_devices = tp, sc_quant = q,
            sc_max_batch_size = (case av_max_batch_size av of None \<Rightarrow> default_length (sm_kv_groups m) | Some n \<Rightarrow> n),
            sc_inference_max_length = (case av_inference_max_length av of None \<Rightarrow> default_length (sm_kv_groups m) | Some n \<Rightarrow> n),
            sc_paged = (av_cache av = ''paged''), sc_strict_indices = strict, sc_num_blocks = num_blocks,
            sc_attn_cache_bytes = int cache_bytes * num_blocks, sc_info = info, sc_model_info = mi\<rparr>))))))))))"

section \<open>Consistency of the swarm\<close>

text \<open>The profiles of other servers; servers that do not announce a quantization are skipped.\<close>

definition other_profiles :: "peer_id \<Rightarrow> remote_module_info list \<Rightarrow> (string option \<times> string option) set" where
  "other_profiles self_id infos =
     set (map (\<lambda>(p, si). (si_torch_dtype si, si_quant_type si))
       (filter (\<lambda>(p, si). p \<noteq> self_id \<and> si_quant_type si \<noteq> None) (concat (map rm_servers infos))))"

definition profile_mismatch :: "peer_id \<Rightarrow> server_info \<Rightarrow> remote_module_info list res \<Rightarrow> bool" where
  "profile_mismatch self_id info fetched =
     (case fetched of
        Inl _ \<Rightarrow> False
      | Inr infos \<Rightarrow> \<exists>profile \<in> other_profiles self_id infos. profile \<noteq> (si_torch_dtype info, si_quant_type info))"

section \<open>The number of blocks\<close>

text \<open>C23. The number of blocks chosen for the hardware is right: the blocks with their caches and
  adapters, and the memory reserved for backward passes, fit the memory of the devices, at least one
  block and at most the layers of the model are served, and one more block would not fit unless
  there is none left.\<close>

theorem chosen_blocks_fit:
  assumes "choose_num_blocks hw m d tp_devices t q cache_bytes adapters = Inr n"
    and "0 < memory_per_block m t q cache_bytes adapters" "1 \<le> sm_num_layers m"
  shows "\<exists>total. total_device_memory hw d tp_devices = Inr total \<and> 1 \<le> n \<and> n \<le> sm_num_layers m
    \<and> of_int (n * memory_per_block m t q cache_bytes adapters) + autograd_memory m tp_devices \<le> of_nat total
    \<and> (n = sm_num_layers m \<or>
        of_nat total < of_int ((n + 1) * memory_per_block m t q cache_bytes adapters) + autograd_memory m tp_devices)"
proof -
  let ?b = "memory_per_block m t q cache_bytes adapters" and ?a = "autograd_memory m tp_devices"
  obtain total where t: "total_device_memory hw d tp_devices = Inr total"
    and n: "1 \<le> \<lfloor>(of_nat total - ?a) / of_int ?b\<rfloor>" "n = min \<lfloor>(of_nat total - ?a) / of_int ?b\<rfloor> (sm_num_layers m)"
    using assms(1,2) by (auto simp: choose_num_blocks_def Let_def res_simps split: if_splits)
  let ?k = "\<lfloor>(of_nat total - ?a) / of_int ?b\<rfloor>"
  have pos: "(0 :: rat) < of_int ?b" using assms(2) by simp
  have k: "of_int ?k * of_int ?b \<le> (of_nat total - ?a :: rat)" "(of_nat total - ?a :: rat) < (of_int ?k + 1) * of_int ?b"
    using floor_divide_lower [OF pos, of "of_nat total - ?a"] floor_divide_upper [OF pos, of "of_nat total - ?a"] by simp_all
  have "(of_int n :: rat) \<le> of_int ?k" using n(2) by simp
  then have "of_int n * of_int ?b \<le> (of_nat total - ?a :: rat)" using k(1) pos by (meson mult_right_mono less_imp_le order_trans)
  moreover have "n = sm_num_layers m \<or> n = ?k" using n(2) by (simp add: min_def)
  ultimately show ?thesis using t n k(2) assms(3) by (auto simp: algebra_simps)
qed

text \<open>A host with one 24 GiB device and a small model.\<close>

definition sample_hw :: hardware where
  "sample_hw = \<lparr>hw_available = (\<lambda>t. t = CUDA), hw_total_memory = (\<lambda>_. 24 * 1024 ^ 3), hw_system_memory = 64 * 1024 ^ 3,
     hw_name = (\<lambda>_. ''GPU''), hw_mps_bfloat16 = False, hw_can_quantize = (\<lambda>_ _. True)\<rparr>"

definition sample_model :: served_model where
  "sample_model = \<lparr>sm_name = ''m'', sm_is_dir = False, sm_dht_prefix = ''m'', sm_num_layers = 32, sm_hidden_size = 4096,
     sm_kv_groups = 4, sm_dtype = Some Bfloat16, sm_block_params = 200000000, sm_adapter_bytes = 0\<rparr>"

definition sample_gpu :: device where
  "sample_gpu = \<lparr>dev_type = CUDA, dev_index = Some 0\<rparr>"

lemma sample_per_block: "memory_per_block sample_model Float32 QNone 1000000 [] = 809000000"
proof -
  have "\<lfloor>808000000 :: rat\<rfloor> = 808000000" by simp
  then show ?thesis
    by (simp add: memory_per_block_def get_block_size_def bytes_per_value_def resolve_block_dtype_def torch_dtype_size_def sample_model_def py_round_def Let_def)
qed

theorem chosen_blocks_fit_witness:
  "\<exists>total. total_device_memory sample_hw sample_gpu [sample_gpu] = Inr total \<and> 1 \<le> (31 :: int) \<and> 31 \<le> sm_num_layers sample_model
    \<and> of_int (31 * memory_per_block sample_model Float32 QNone 1000000 []) + autograd_memory sample_model [sample_gpu] \<le> of_nat total
    \<and> (31 = sm_num_layers sample_model \<or>
        of_nat total < of_int ((31 + 1) * memory_per_block sample_model Float32 QNone 1000000 []) + autograd_memory sample_model [sample_gpu])"
proof (rule chosen_blocks_fit)
  have a: "autograd_memory sample_model [sample_gpu] = 2147483648 / 14336 * 4096"
    by (simp add: autograd_memory_def GiB_def sample_model_def)
  have "\<lfloor>(25769803776 - 2147483648 / 14336 * 4096 :: rat) / 809000000\<rfloor> = 31"
    by (rule floor_unique) simp_all
  then show "choose_num_blocks sample_hw sample_model sample_gpu [sample_gpu] Float32 QNone 1000000 [] = Inr 31"
    unfolding choose_num_blocks_def sample_per_block Let_def a
    by (simp add: is_accelerator_def ACCELERATOR_TYPES_def sample_gpu_def total_device_memory_def get_device_total_memory_def has_properties_def
        sample_hw_def sample_model_def)
qed (simp_all add: sample_per_block, simp add: sample_model_def)

end
