(* ===== verification/Server_Lifecycle.thy ===== *)
theory Server_Lifecycle
  imports Announcer Server_Setup
begin

text \<open>
  Models the life of a server in \<open>src/drift/server/server.py\<close>: \<open>ModuleContainer\<close> (creation, readiness,
  health, shutdown) and the loop of \<open>Server.run\<close>, which serves one choice of blocks after the other.
  The visible actions are a log. What the environment answers is a script: which blocks can be loaded,
  how long each handler and the runtime take, the outcome of every check, and the state in which the
  announcer thread of \<open>Announcer\<close> is found once it has been told to leave; a script that ends is a
  server that is still running. Loading and converting weights and the handler processes are not
  represented.
\<close>

section \<open>Containers\<close>

text \<open>
  \<open>Announce\<close> is a call of \<open>announce\<close>, which only changes what the announcer is to store; \<open>Announcer_Left\<close> is the
  end of the announcer thread, with the state it has stored last.
\<close>

datatype server_action =
    Announcer_Started
  | Announce server_state
  | Announcer_Left "server_state option"
  | Loaded module_uid
  | Backend_Shutdown module_uid
  | Handler_Started nat
  | Ready_Cleared
  | Handler_Shutdown nat
  | Pool_Shutdown nat
  | Runtime_Shutdown
  | Cleaned

record container =
  ct_uids :: "module_uid list"
  ct_info :: server_info
  ct_next_uids :: "module_uid list"
  ct_handlers :: nat

text \<open>The blocks loaded in order, up to the first failure.\<close>

fun load_blocks :: "(int \<Rightarrow> unit res) \<Rightarrow> (module_uid \<times> int) list \<Rightarrow> module_uid list \<times> exn option" where
  "load_blocks load [] = ([], None)"
| "load_blocks load ((uid, i) # rest) =
     (case load i of
        Inl e \<Rightarrow> ([], Some e)
      | Inr _ \<Rightarrow> let (uids, e) = load_blocks load rest in (uid # uids, e))"

text \<open>The uid of any block index, as formatted by an f-string.\<close>

definition module_uids_of :: "string \<Rightarrow> int list \<Rightarrow> module_uid list" where
  "module_uids_of dht_prefix indices = map (\<lambda>i. dht_prefix @ UID_DELIMITER # show_int i) indices"

text \<open>
  Handlers are started one by one; \<open>left\<close> is what is left of \<open>ready_timeout\<close>, which starts with the first
  one. A delay is \<open>None\<close> for a handler that never gets ready. The timeout of a single handler is not
  shorter than what is left, so the wait for all of them ends first or at the same time.
\<close>

fun start_handlers :: "rat \<Rightarrow> nat \<Rightarrow> rat option list \<Rightarrow> server_action list \<times> rat option" where
  "start_handlers left k [] = ([], Some left)"
| "start_handlers left k (delay # rest) =
     (case delay of
        None \<Rightarrow> ([], None)
      | Some d \<Rightarrow>
          if d \<le> left then let (acts, r) = start_handlers (left - d) (Suc k) rest in (Handler_Started k # acts, r) else ([], None))"

definition runtime_ready :: "rat option \<Rightarrow> rat option \<Rightarrow> bool" where
  "runtime_ready left delay = (case (left, delay) of (Some l, Some d) \<Rightarrow> d \<le> l | _ \<Rightarrow> False)"

text \<open>\<open>announce(OFFLINE)\<close> returns when the announcer has ended; \<open>False\<close>: it never returns.\<close>

definition say_goodbye :: "announcer \<Rightarrow> server_action list \<times> bool" where
  "say_goodbye an =
     (if an_pc an = Ended then ([Announce OFFLINE, Announcer_Left (announced an)], True) else ([Announce OFFLINE], False))"

text \<open>What the start of a container meets: the types of its devices, the blocks, the pools, the rest of
  the constructor, the delays of the handlers and of the runtime, and the end of the announcer.\<close>

record container_start =
  cs_devices :: "bool list"
  cs_load :: "int \<Rightarrow> unit res"
  cs_merge :: "unit res"
  cs_construct :: "unit res"
  cs_handlers :: "rat option list"
  cs_runtime :: "rat option"
  cs_left :: announcer

definition all_true :: "bool list \<Rightarrow> bool" where
  "all_true bs \<longleftrightarrow> False \<notin> set bs"

text \<open>
  \<open>ModuleContainer.create\<close> and the constructor. Only a failure to load or to merge the pools takes the
  announcement back; \<open>None\<close>: it waits forever for the announcer to end.
\<close>

definition create_container ::
  "rat \<Rightarrow> container_start \<Rightarrow> string \<Rightarrow> int list \<Rightarrow> server_info \<Rightarrow> container res option \<times> server_action list" where
  "create_container ready_timeout cs dht_prefix indices info =
     (let uids = module_uids_of dht_prefix indices in
      case init_announcer uids (info\<lparr>si_state := JOINING\<rparr>) of
        Inl e \<Rightarrow> (Some (Inl e), [])
      | Inr (info1, next_uids) \<Rightarrow>
          if cs_devices cs = [] \<or> \<not> all_true (cs_devices cs) then (Some (Inl AssertionError), [Announcer_Started])
          else
            let (loaded, failure) = load_blocks (cs_load cs) (zip uids indices);
                loading = Announcer_Started # map Loaded loaded in
            (case (case failure of Some e \<Rightarrow> Inl e | None \<Rightarrow> cs_merge cs) of
               Inl e \<Rightarrow>
                 let (bye, returns) = say_goodbye (cs_left cs) in
                 (if returns then Some (Inl e) else None, loading @ map Backend_Shutdown loaded @ bye)
             | Inr _ \<Rightarrow>
                 (case cs_construct cs of
                    Inl e \<Rightarrow> (Some (Inl e), loading)
                  | Inr _ \<Rightarrow>
                      let (started, left) = start_handlers ready_timeout 0 (cs_handlers cs);
                          acts = loading @ Announce ONLINE # started in
                      if runtime_ready left (cs_runtime cs)
                      then (Some (Inr \<lparr>ct_uids = uids, ct_info = info1\<lparr>si_state := ONLINE\<rparr>, ct_next_uids = next_uids,
                              ct_handlers = length (cs_handlers cs)\<rparr>), acts)
                      else (Some (Inl TimeoutError), acts))))"

text \<open>The backends share one merged pool, which is kept once.\<close>

definition deduplicated_pools :: "nat list \<Rightarrow> nat list" where
  "deduplicated_pools pools = remdups pools"

definition is_healthy :: "bool list \<Rightarrow> bool list \<Rightarrow> bool" where
  "is_healthy handlers_alive pools_alive \<longleftrightarrow> all_true handlers_alive \<and> all_true pools_alive"

definition shutdown_container :: "announcer \<Rightarrow> bool list \<Rightarrow> container \<Rightarrow> server_action list \<times> bool" where
  "shutdown_container an pools_alive c =
     (let (bye, returns) = say_goodbye an in
      if \<not> returns then (bye, False)
      else
        (bye @ Ready_Cleared # map Handler_Shutdown [0..<ct_handlers c]
           @ map Pool_Shutdown (filter ((!) pools_alive) [0..<length pools_alive])
           @ Runtime_Shutdown # map Backend_Shutdown (ct_uids c), True))"

text \<open>The cost of a token of one block in the units of the announcement.\<close>

definition token_bytes :: "served_model \<Rightarrow> torch_dtype \<Rightarrow> nat res" where
  "token_bytes m t = (if sm_kv_groups m = 0 then Inl ZeroDivisionError else Inr (sm_hidden_size m * torch_dtype_size t div sm_kv_groups m))"

section \<open>The loop\<close>

definition choose_blocks :: "int list option \<Rightarrow> int \<Rightarrow> remote_module_info list res \<Rightarrow> int list res" where
  "choose_blocks strict num_blocks fetched =
     (case strict of
        Some indices \<Rightarrow> Inr indices
      | None \<Rightarrow> rbind fetched (choose_best_blocks num_blocks))"

text \<open>\<open>None\<close>: the loop of the check does not end.\<close>

definition should_move :: "int list option \<Rightarrow> peer_id list list \<Rightarrow> peer_id \<Rightarrow> rat \<Rightarrow> remote_module_info list res \<Rightarrow> bool option res" where
  "should_move strict orders self_id quality fetched =
     (case strict of
        Some _ \<Rightarrow> Inr (Some False)
      | None \<Rightarrow> rbind fetched (\<lambda>infos. should_choose_other_blocks orders self_id infos quality))"

record health_check =
  hc_stop :: bool
  hc_handlers :: "bool list"
  hc_pools :: "bool list"
  hc_orders :: "peer_id list list"
  hc_infos :: "remote_module_info list res"

datatype verdict = Stopped | Restarting | Crashed exn | Running

fun serve_container :: "int list option \<Rightarrow> peer_id \<Rightarrow> rat \<Rightarrow> health_check list \<Rightarrow> verdict \<times> bool list" where
  "serve_container strict self_id quality [] = (Running, [])"
| "serve_container strict self_id quality (hc # rest) =
     (if hc_stop hc then (Stopped, hc_pools hc)
      else if \<not> is_healthy (hc_handlers hc) (hc_pools hc) then (Restarting, hc_pools hc)
      else
        (case should_move strict (hc_orders hc) self_id quality (hc_infos hc) of
           Inl e \<Rightarrow> (Crashed e, hc_pools hc)
         | Inr None \<Rightarrow> (Running, hc_pools hc)
         | Inr (Some True) \<Rightarrow> (Restarting, hc_pools hc)
         | Inr (Some False) \<Rightarrow> serve_container strict self_id quality rest))"

record server_round =
  rd_infos :: "remote_module_info list res"
  rd_start :: container_start
  rd_checks :: "health_check list"

definition serve_round ::
  "rat \<Rightarrow> string \<Rightarrow> int list option \<Rightarrow> int \<Rightarrow> peer_id \<Rightarrow> rat \<Rightarrow> server_info \<Rightarrow> server_round \<Rightarrow> verdict \<times> server_action list" where
  "serve_round ready_timeout dht_prefix strict num_blocks self_id quality info rd =
     (case choose_blocks strict num_blocks (rd_infos rd) of
        Inl e \<Rightarrow> (Crashed e, [])
      | Inr indices \<Rightarrow>
          (case create_container ready_timeout (rd_start rd) dht_prefix indices info of
             (None, acts) \<Rightarrow> (Running, acts)
           | (Some (Inl e), acts) \<Rightarrow> (Crashed e, acts)
           | (Some (Inr c), acts) \<Rightarrow>
               (case serve_container strict self_id quality (rd_checks rd) of
                  (Running, _) \<Rightarrow> (Running, acts)
                | (v, pools) \<Rightarrow>
                    let (end_acts, returns) = shutdown_container (cs_left (rd_start rd)) pools c in
                    (if returns then v else Running, acts @ end_acts))))"

fun run_server ::
  "rat \<Rightarrow> string \<Rightarrow> int list option \<Rightarrow> int \<Rightarrow> peer_id \<Rightarrow> rat \<Rightarrow> server_info \<Rightarrow> server_round list \<Rightarrow> verdict \<times> server_action list" where
  "run_server ready_timeout dht_prefix strict num_blocks self_id quality info [] = (Running, [])"
| "run_server ready_timeout dht_prefix strict num_blocks self_id quality info (rd # rest) =
     (case serve_round ready_timeout dht_prefix strict num_blocks self_id quality info rd of
        (Restarting, acts) \<Rightarrow>
          let (v, acts') = run_server ready_timeout dht_prefix strict num_blocks self_id quality info rest in (v, acts @ Cleaned # acts')
      | (v, acts) \<Rightarrow> (v, acts))"

definition run_configured :: "rat \<Rightarrow> server_config \<Rightarrow> peer_id \<Rightarrow> rat \<Rightarrow> server_round list \<Rightarrow> verdict \<times> server_action list" where
  "run_configured ready_timeout sc self_id quality rounds =
     run_server ready_timeout (sc_dht_prefix sc) (sc_strict_indices sc) (sc_num_blocks sc) self_id quality (sc_info sc) rounds"

section \<open>What the swarm sees last\<close>

text \<open>
  The state of the server in the directory: while the announcer lives it stores the current state
  (\<open>JOINING\<close> from the start, \<open>ONLINE\<close> once announced) over and over, and what it has stored last stays when
  it has ended. Telling it to leave changes nothing yet.
\<close>

fun directory_after :: "server_action \<Rightarrow> server_state option \<Rightarrow> server_state option" where
  "directory_after Announcer_Started st = Some JOINING"
| "directory_after (Announce s) st = (if s = OFFLINE then st else Some s)"
| "directory_after (Announcer_Left s) st = s"
| "directory_after _ st = st"

definition directory :: "server_action list \<Rightarrow> server_state option" where
  "directory acts = fold directory_after acts None"

definition joined :: "server_action list \<Rightarrow> bool" where
  "joined acts \<longleftrightarrow> Announcer_Started \<in> set acts"

definition quiet :: "server_action \<Rightarrow> bool" where
  "quiet a \<longleftrightarrow> a \<noteq> Announcer_Started \<and> (\<forall>st. directory_after a st = st)"

lemma quiet_simps [simp]:
  "quiet (Loaded u)" "quiet (Backend_Shutdown u)" "quiet (Handler_Started k)" "quiet Ready_Cleared"
  "quiet (Handler_Shutdown k)" "quiet (Pool_Shutdown k)" "quiet Runtime_Shutdown" "quiet Cleaned" "quiet (Announce OFFLINE)"
  by (simp_all add: quiet_def)

lemma fold_quiet: "\<forall>a \<in> set acts. quiet a \<Longrightarrow> fold directory_after acts st = st"
  by (induction acts arbitrary: st) (auto simp: quiet_def)

text \<open>What is left behind: nothing by a server that never joined, \<open>OFFLINE\<close> by any other.\<close>

definition farewell :: "server_action list \<Rightarrow> bool" where
  "farewell acts \<longleftrightarrow> (if joined acts then directory acts = Some OFFLINE else list_all quiet acts)"

lemma farewell_directory: "farewell acts \<Longrightarrow> directory acts = (if joined acts then Some OFFLINE else None)"
  by (auto simp: farewell_def directory_def list_all_iff fold_quiet split: if_splits)

lemma farewell_two:
  assumes "farewell xs" "farewell ys"
  shows "farewell (xs @ Cleaned # ys)"
proof (cases "joined ys")
  case True
  then obtain us vs where ys: "ys = us @ Announcer_Started # vs" by (auto simp: joined_def in_set_conv_decomp)
  then have "directory (xs @ Cleaned # ys) = directory ys" by (simp add: directory_def)
  then show ?thesis using assms(2) True by (simp add: farewell_def joined_def)
next
  case False
  then have "list_all quiet ys" using assms(2) by (simp add: farewell_def)
  then have "fold directory_after ys st = st" for st by (simp add: list_all_iff fold_quiet)
  then show ?thesis using assms(1) False \<open>list_all quiet ys\<close> by (simp add: farewell_def joined_def directory_def split: if_splits)
qed

lemma start_handlers_quiet: "\<forall>a \<in> set (fst (start_handlers left k ds)). quiet a"
  by (induction left k ds rule: start_handlers.induct) (auto split: prod.splits option.splits)

lemma started_fold: "start_handlers left k ds = (acts, r) \<Longrightarrow> fold directory_after acts st = st"
  using fold_quiet [OF start_handlers_quiet [of left k ds]] by simp

text \<open>Everything is ready in time: the delays are known and their sum is within the timeout.\<close>

definition delays_ok :: "rat option list \<Rightarrow> bool" where
  "delays_ok ds \<longleftrightarrow> list_all (\<lambda>d. case d of None \<Rightarrow> True | Some t \<Rightarrow> 0 \<le> t) ds"

definition gets_ready :: "rat \<Rightarrow> rat option list \<Rightarrow> bool" where
  "gets_ready ready_timeout ds \<longleftrightarrow> None \<notin> set ds \<and> sum_list (map the ds) \<le> ready_timeout"

lemma delays_sum: "delays_ok ds \<Longrightarrow> None \<notin> set ds \<Longrightarrow> 0 \<le> sum_list (map the ds)"
  by (induction ds) (auto simp: delays_ok_def split: option.splits)

lemma runtime_ready_iff:
  assumes "delays_ok (hs @ [rt])" "start_handlers left k hs = (acts, r)"
  shows "runtime_ready r rt \<longleftrightarrow> gets_ready left (hs @ [rt])"
  using assms
proof (induction left k hs arbitrary: acts r rule: start_handlers.induct)
  case (1 left k)
  then show ?case by (auto simp: runtime_ready_def gets_ready_def split: option.splits)
next
  case (2 left k delay rest)
  show ?case
  proof (cases delay)
    case None
    then show ?thesis using 2(3) by (auto simp: runtime_ready_def gets_ready_def)
  next
    case d: (Some d)
    obtain acts' r' where s: "start_handlers (left - d) (Suc k) rest = (acts', r')" by fastforce
    have ok: "delays_ok (rest @ [rt])" using 2(2) by (simp add: delays_ok_def)
    show ?thesis
    proof (cases "d \<le> left")
      case True
      then show ?thesis using 2(1) [OF d True ok s] 2(3) d s by (auto simp: gets_ready_def algebra_simps)
    next
      case False
      then show ?thesis using 2(3) d delays_sum [OF ok] by (fastforce simp: runtime_ready_def gets_ready_def)
    qed
  qed
qed

text \<open>An announcer that leaves properly: \<open>OFFLINE\<close> was set at some moment other than between its last
  declaration and its check whether to stop, and it has run to its end.\<close>

definition left_properly :: "int \<Rightarrow> announcer \<Rightarrow> bool" where
  "left_properly bytes_per_token an \<longleftrightarrow> an_pc an = Ended
     \<and> (\<exists>s. si_state (an_info s) = OFFLINE \<and> (an_setting s \<or> an_leaving s) \<and> an_pc s \<notin> {Checking_Stop, Ended}
          \<and> (announcer_step bytes_per_token)\<^sup>*\<^sup>* s an)"

lemma left_properly_bye:
  assumes "left_properly bpt an"
  shows "say_goodbye an = ([Announce OFFLINE, Announcer_Left (Some OFFLINE)], True)"
proof -
  obtain s where s: "saying_goodbye s" "(announcer_step bpt)\<^sup>*\<^sup>* s an"
    using assms unfolding left_properly_def saying_goodbye_def by blast
  then have "announced an = Some OFFLINE"
    using saying_goodbye_run [OF s] assms by (simp add: left_properly_def saying_goodbye_def)
  then show ?thesis using assms by (simp add: say_goodbye_def left_properly_def)
qed

text \<open>A round whose environment lets it start or fail inside its clean-up, with an announcer that leaves properly.\<close>

definition well_behaved :: "rat \<Rightarrow> int \<Rightarrow> container_start \<Rightarrow> bool" where
  "well_behaved ready_timeout bytes_per_token cs \<longleftrightarrow>
     cs_devices cs \<noteq> [] \<and> all_true (cs_devices cs) \<and> is_ok (cs_construct cs)
     \<and> delays_ok (cs_handlers cs @ [cs_runtime cs]) \<and> gets_ready ready_timeout (cs_handlers cs @ [cs_runtime cs])
     \<and> left_properly bytes_per_token (cs_left cs)"

lemma create_container_last:
  assumes "create_container t cs p ix info = (r, acts)" "well_behaved t bpt cs"
  shows "case r of None \<Rightarrow> False | Some (Inl e) \<Rightarrow> farewell acts | Some (Inr c) \<Rightarrow> joined acts"
proof (cases "init_announcer (module_uids_of p ix) (info\<lparr>si_state := JOINING\<rparr>)")
  case (Inl e)
  then show ?thesis using assms(1) by (auto simp: create_container_def Let_def farewell_def directory_def joined_def)
next
  case (Inr q)
  note w = assms(2) [unfolded well_behaved_def]
  have dv: "cs_devices cs \<noteq> []" "all_true (cs_devices cs)" and bye: "left_properly bpt (cs_left cs)" using w by auto
  obtain u where ct: "cs_construct cs = Inr u" using w by (cases "cs_construct cs") (auto simp: is_ok_def)
  obtain loaded failure where l: "load_blocks (cs_load cs) (zip (module_uids_of p ix) ix) = (loaded, failure)" by fastforce
  obtain started left where h: "start_handlers t 0 (cs_handlers cs) = (started, left)" by fastforce
  have rt: "runtime_ready left (cs_runtime cs)" using runtime_ready_iff [OF _ h] w by blast
  have f: "farewell (Announcer_Started # map Loaded loaded @ map Backend_Shutdown loaded @ [Announce OFFLINE, Announcer_Left (Some OFFLINE)])"
    by (simp add: farewell_def directory_def joined_def)
  show ?thesis
  proof (cases "case failure of Some e \<Rightarrow> Inl e | None \<Rightarrow> cs_merge cs")
    case (Inl e)
    then have "(r, acts) = (Some (Inl e), Announcer_Started # map Loaded loaded @ map Backend_Shutdown loaded
        @ [Announce OFFLINE, Announcer_Left (Some OFFLINE)])"
      using assms(1) Inr dv l left_properly_bye [OF bye] by (simp add: create_container_def Let_def split: prod.splits)
    then show ?thesis using f by simp
  next
    case (Inr y)
    then have "r \<noteq> None" "\<forall>e. r \<noteq> Some (Inl e)" "acts = Announcer_Started # map Loaded loaded @ Announce ONLINE # started"
      using assms(1) \<open>init_announcer _ _ = Inr q\<close> dv l ct h rt by (auto simp: create_container_def Let_def split: prod.splits)
    then show ?thesis by (auto simp: joined_def split: option.splits sum.splits)
  qed
qed

lemma shutdown_last:
  assumes "joined acts" "left_properly bpt an"
  shows "snd (shutdown_container an pools c) \<and> farewell (acts @ fst (shutdown_container an pools c))"
proof -
  have "fold directory_after (map Handler_Shutdown ns) st = st" "fold directory_after (map Pool_Shutdown ns) st = st"
    "fold directory_after (map Backend_Shutdown us) st = st" for ns us st
    by (rule fold_quiet, simp)+
  then show ?thesis using assms left_properly_bye [OF assms(2)]
    by (simp add: shutdown_container_def farewell_def directory_def joined_def)
qed

lemma serve_round_last:
  assumes "serve_round t p strict n self_id quality info rd = (v, acts)" "well_behaved t bpt (rd_start rd)" "v \<noteq> Running"
  shows "farewell acts"
proof (cases "choose_blocks strict n (rd_infos rd)")
  case (Inl e)
  then show ?thesis using assms(1) by (auto simp: serve_round_def farewell_def directory_def joined_def)
next
  case (Inr ix)
  obtain r acts1 where c: "create_container t (rd_start rd) p ix info = (r, acts1)" by fastforce
  note last = create_container_last [OF c assms(2)]
  show ?thesis
  proof (cases "\<exists>ct. r = Some (Inr ct)")
    case False
    then show ?thesis using last assms(1) Inr c by (auto simp: serve_round_def split: option.splits sum.splits)
  next
    case True
    then obtain ct where ct: "r = Some (Inr ct)" by blast
    obtain v1 pools where sc: "serve_container strict self_id quality (rd_checks rd) = (v1, pools)" by fastforce
    have j: "joined acts1" using last ct by simp
    have bye: "left_properly bpt (cs_left (rd_start rd))" using assms(2) by (simp add: well_behaved_def)
    have "v1 \<noteq> Running" using assms(1,3) Inr c ct sc by (auto simp: serve_round_def)
    then have "acts = acts1 @ fst (shutdown_container (cs_left (rd_start rd)) pools ct)"
      using assms(1) Inr c ct sc by (cases v1) (auto simp: serve_round_def Let_def split: prod.splits)
    then show ?thesis using shutdown_last [OF j bye] by simp
  qed
qed

text \<open>C12. A server leaves the swarm properly: however many times it moves to other blocks, restarts after a
  crash or fails to load or to merge its pools, once it no longer runs, by a stop, an error in a
  balance check or a failure to load, the directory holds \<open>OFFLINE\<close> for it, or nothing if it never
  joined, whatever else it has declared. This is under the condition that each round gets all its
  handlers and the runtime ready within \<open>ready_timeout\<close> in total, that its devices and the rest of its
  constructor are fine, and that its announcer, told to leave, was not just between its last
  declaration and its check whether to stop. Without them it fails (\<open>ready_timeout_stays_online\<close>,
  \<open>failed_constructor_stays_joining\<close>, \<open>goodbye_lost\<close>).\<close>

theorem server_says_goodbye:
  assumes "run_server ready_timeout p strict n self_id quality info rounds = (v, acts)" "v \<noteq> Running"
    and "list_all (\<lambda>rd. well_behaved ready_timeout bytes_per_token (rd_start rd)) rounds"
  shows "directory acts = (if joined acts then Some OFFLINE else None)"
proof -
  have "farewell acts" using assms
  proof (induction rounds arbitrary: v acts)
    case Nil
    then show ?case by simp
  next
    case (Cons rd rest)
    obtain v1 acts1 where r: "serve_round ready_timeout p strict n self_id quality info rd = (v1, acts1)" by fastforce
    show ?case
    proof (cases "v1 = Restarting")
      case True
      obtain v2 acts2 where r2: "run_server ready_timeout p strict n self_id quality info rest = (v2, acts2)" by fastforce
      have "v = v2" "acts = acts1 @ Cleaned # acts2" using Cons.prems(1) r True r2 by auto
      moreover have "farewell acts1" using serve_round_last [OF r, of bytes_per_token] Cons.prems(3) True by simp
      ultimately show ?thesis using farewell_two Cons.IH [OF r2] Cons.prems(2,3) by simp
    next
      case False
      then have "v = v1" "acts = acts1" using Cons.prems(1) r by (auto split: verdict.splits)
      then show ?thesis using serve_round_last [OF r, of bytes_per_token] Cons.prems(2,3) by simp
    qed
  qed
  then show ?thesis by (rule farewell_directory)
qed

text \<open>A server of fixed blocks that restarts once after a crashed handler and is then stopped.\<close>

definition sample_start :: "rat option list \<Rightarrow> unit res \<Rightarrow> announcer \<Rightarrow> container_start" where
  "sample_start handlers built an =
     \<lparr>cs_devices = [True], cs_load = (\<lambda>_. Inr ()), cs_merge = Inr (), cs_construct = built, cs_handlers = handlers,
      cs_runtime = Some 1, cs_left = an\<rparr>"

definition sample_round :: "container_start \<Rightarrow> bool \<Rightarrow> server_round" where
  "sample_round start stop =
     \<lparr>rd_infos = Inr [], rd_start = start,
      rd_checks = [\<lparr>hc_stop = stop, hc_handlers = [False], hc_pools = [True], hc_orders = [], hc_infos = Inr []\<rparr>]\<rparr>"

lemma gone_left_properly: "left_properly 8192 gone_announcer"
  unfolding left_properly_def using leaving_to_gone
  by (intro conjI exI [of _ leaving_announcer]) (simp_all add: gone_announcer_def leaving_announcer_def sample_info_def)

lemma sample_well_behaved: "well_behaved 120 8192 (sample_start [Some 2, Some 3] (Inr ()) gone_announcer)"
  by (simp add: well_behaved_def sample_start_def all_true_def is_ok_def delays_ok_def gets_ready_def gone_left_properly)

lemma digit_chars: "char_of (48 :: nat) = CHR ''0''" "char_of (49 :: nat) = CHR ''1''" "char_of (50 :: nat) = CHR ''2''"
  by code_simp+

lemma sample_uids: "module_uids_of ''m'' [0, 1] = [''m.0'', ''m.1'']"
  by (simp add: module_uids_of_def show_int_def show_nat.simps UID_DELIMITER_def digit_chars)

lemma sample_init:
  "init_announcer [''m.0'', ''m.1''] (sample_info JOINING 1)
     = Inr ((sample_info JOINING 1)\<lparr>si_start_block := Some 0, si_end_block := Some 2\<rparr>, [''m.1'', ''m.2''])"
  by (simp add: init_announcer_def parse_uid_def UID_DELIMITER_def CHAIN_DELIMITER_def py_int_def strip_def is_space_def is_digit_def
      digit_value_def py_range_def block_uid_def show_nat.simps upto_rec1 digit_chars)

lemma sample_same: "(sample_info JOINING 1)\<lparr>si_state := JOINING\<rparr> = sample_info JOINING 1"
  by (simp add: sample_info_def)

theorem server_says_goodbye_witness:
  "\<exists>acts. run_server 120 ''m'' (Some [0, 1]) 2 ''P'' 0 (sample_info JOINING 1)
        [sample_round (sample_start [Some 2, Some 3] (Inr ()) gone_announcer) False,
         sample_round (sample_start [Some 2, Some 3] (Inr ()) gone_announcer) True] = (Stopped, acts)
     \<and> joined acts \<and> directory acts = (if joined acts then Some OFFLINE else None)"
proof -
  let ?r = "\<lambda>b. sample_round (sample_start [Some 2, Some 3] (Inr ()) gone_announcer) b"
  obtain acts where r: "run_server 120 ''m'' (Some [0, 1]) 2 ''P'' 0 (sample_info JOINING 1) [?r False, ?r True] = (Stopped, acts)"
    and j: "joined acts"
    by (simp add: serve_round_def choose_blocks_def create_container_def sample_round_def sample_start_def sample_uids sample_same
        sample_init is_healthy_def all_true_def runtime_ready_def shutdown_container_def say_goodbye_def gone_announcer_def joined_def)
  show ?thesis using server_says_goodbye [OF r, of 8192] r j sample_well_behaved by (simp add: sample_round_def)
qed

section \<open>When it does not\<close>

lemma start_failing:
  assumes "choose_blocks strict n (rd_infos rd) = Inr indices"
    and "is_ok (init_announcer (module_uids_of p indices) (info\<lparr>si_state := JOINING\<rparr>))"
    and "cs_devices (rd_start rd) \<noteq> []" "all_true (cs_devices (rd_start rd))" "is_ok (cs_merge (rd_start rd))"
    and "snd (load_blocks (cs_load (rd_start rd)) (zip (module_uids_of p indices) indices)) = None"
    and "create_container t (rd_start rd) p indices info = (Some (Inl e), acts)"
  shows "run_server t p strict n self_id quality info (rd # rest) = (Crashed e, acts)"
  using assms by (simp add: serve_round_def)

text \<open>A server that is not ready in time stays in the swarm: \<open>ONLINE\<close> is announced before the handlers are
  started, and the timeout raised by the constructor is outside every clean-up, so that nothing takes
  the announcement back. The time is that of all handlers together: each may be ready within the
  timeout.\<close>

theorem ready_timeout_stays_online:
  assumes "choose_blocks strict n (rd_infos rd) = Inr indices"
    and "is_ok (init_announcer (module_uids_of p indices) (info\<lparr>si_state := JOINING\<rparr>))"
    and "cs_devices (rd_start rd) \<noteq> []" "all_true (cs_devices (rd_start rd))" "is_ok (cs_merge (rd_start rd))"
    and "snd (load_blocks (cs_load (rd_start rd)) (zip (module_uids_of p indices) indices)) = None"
    and "is_ok (cs_construct (rd_start rd))" "delays_ok (cs_handlers (rd_start rd) @ [cs_runtime (rd_start rd)])"
    and "\<not> gets_ready ready_timeout (cs_handlers (rd_start rd) @ [cs_runtime (rd_start rd)])"
  shows "\<exists>acts. run_server ready_timeout p strict n self_id quality info (rd # rest) = (Crashed TimeoutError, acts)
    \<and> directory acts = Some ONLINE"
proof -
  let ?cs = "rd_start rd"
  obtain started left where h: "start_handlers ready_timeout 0 (cs_handlers ?cs) = (started, left)" by fastforce
  obtain loaded where l: "load_blocks (cs_load ?cs) (zip (module_uids_of p indices) indices) = (loaded, None)"
    using assms(6) by (metis prod.collapse)
  let ?acts = "Announcer_Started # map Loaded loaded @ Announce ONLINE # started"
  have rt: "\<not> runtime_ready left (cs_runtime ?cs)" using runtime_ready_iff [OF assms(8) h] assms(9) by simp
  have "create_container ready_timeout ?cs p indices info = (Some (Inl TimeoutError), ?acts)"
    using assms(2-5,7) h l rt by (auto simp: create_container_def Let_def is_ok_def split: sum.splits)
  from start_failing [OF assms(1-6) this] started_fold [OF h]
  show ?thesis by (auto simp: directory_def)
qed

theorem ready_timeout_stays_online_witness:
  "\<exists>acts. run_server 120 ''m'' (Some [0, 1]) 2 ''P'' 0 (sample_info JOINING 1)
        [sample_round (sample_start [Some 70, Some 60] (Inr ()) gone_announcer) True] = (Crashed TimeoutError, acts)
     \<and> directory acts = Some ONLINE"
  by (rule ready_timeout_stays_online [where indices = "[0, 1]"])
    (simp_all add: choose_blocks_def sample_round_def sample_start_def sample_uids sample_same sample_init all_true_def
      is_ok_def delays_ok_def gets_ready_def)

text \<open>The same holds of any other failure of the constructor: the blocks stay \<open>JOINING\<close> in the directory.\<close>

theorem failed_constructor_stays_joining:
  assumes "choose_blocks strict n (rd_infos rd) = Inr indices"
    and "is_ok (init_announcer (module_uids_of p indices) (info\<lparr>si_state := JOINING\<rparr>))"
    and "cs_devices (rd_start rd) \<noteq> []" "all_true (cs_devices (rd_start rd))" "is_ok (cs_merge (rd_start rd))"
    and "snd (load_blocks (cs_load (rd_start rd)) (zip (module_uids_of p indices) indices)) = None"
    and "cs_construct (rd_start rd) = Inl e"
  shows "\<exists>acts. run_server ready_timeout p strict n self_id quality info (rd # rest) = (Crashed e, acts)
    \<and> directory acts = Some JOINING"
proof -
  let ?cs = "rd_start rd"
  obtain loaded where l: "load_blocks (cs_load ?cs) (zip (module_uids_of p indices) indices) = (loaded, None)"
    using assms(6) by (metis prod.collapse)
  have "create_container ready_timeout ?cs p indices info = (Some (Inl e), Announcer_Started # map Loaded loaded)"
    using assms(2-5,7) l by (auto simp: create_container_def Let_def is_ok_def split: sum.splits)
  from start_failing [OF assms(1-6) this] fold_quiet [of "map Loaded loaded"]
  show ?thesis by (auto simp: directory_def)
qed

theorem failed_constructor_stays_joining_witness:
  "\<exists>acts. run_server 120 ''m'' (Some [0, 1]) 2 ''P'' 0 (sample_info JOINING 1)
        [sample_round (sample_start [Some 2] (Inl KeyError) gone_announcer) True] = (Crashed KeyError, acts)
     \<and> directory acts = Some JOINING"
  by (rule failed_constructor_stays_joining [where indices = "[0, 1]"])
    (simp_all add: choose_blocks_def sample_round_def sample_start_def sample_uids sample_same sample_init all_true_def is_ok_def)

text \<open>And a server stopped at the wrong moment stays \<open>ONLINE\<close>: an announcer that has ended after storing
  \<open>ONLINE\<close> (\<open>offline_announcement_lost\<close>) takes nothing back, although everything else is as it should be.\<close>

theorem goodbye_lost:
  assumes "an_pc an = Ended" "announced an = Some ONLINE"
  shows "\<exists>acts. run_server 120 ''m'' (Some [0, 1]) 2 ''P'' 0 (sample_info JOINING 1)
        [sample_round (sample_start [Some 2, Some 3] (Inr ()) an) True] = (Stopped, acts)
     \<and> directory acts = Some ONLINE"
  using assms fold_quiet
  by (simp add: serve_round_def choose_blocks_def create_container_def sample_round_def sample_start_def sample_uids sample_same
      sample_init is_healthy_def all_true_def runtime_ready_def shutdown_container_def say_goodbye_def directory_def)

theorem goodbye_lost_witness:
  "\<exists>acts. run_server 120 ''m'' (Some [0, 1]) 2 ''P'' 0 (sample_info JOINING 1)
        [sample_round (sample_start [Some 2, Some 3] (Inr ()) ((online_announcer 0 (sample_info JOINING 1))\<lparr>an_pc := Ended\<rparr>)) True]
      = (Stopped, acts) \<and> directory acts = Some ONLINE"
  by (rule goodbye_lost) (simp_all add: online_announcer_def announced_def Let_def)

end
