(* ===== verification/Speculative.thy ===== *)
theory Speculative
  imports Swarm_Session
begin

text \<open>
  Models \<open>src/drift/models/llama/speculative_model.py\<close> with the forward pass of
  \<open>src/drift/models/llama/model.py\<close> inside an inference session: a small local model drafts tokens, one
  pass over the swarm checks them. The batch is one sequence, as \<open>.item()\<close> requires; tokens are
  integers. The embeddings, the final norm, the output projection, the small model, the logits processor
  and the stopping criteria are parameters; the servers are those of the client's session. What is
  passed to the streamer is collected in a list. The loop ends only if some round stops it, and is a
  partial function.
\<close>

section \<open>The model over a session\<close>

text \<open>\<open>lm_prompts\<close> are the trained prompts of \<open>get_prompt\<close>, if there is prompt tuning.\<close>

record ('h, 'v) causal_lm =
  lm_embed :: "int \<Rightarrow> 'h"
  lm_prompts :: "('h list \<times> 'h list list option) option"
  lm_norm :: "'h \<Rightarrow> 'h"
  lm_head :: "'h \<Rightarrow> 'v list"

definition model_forward ::
  "('h, 'v) causal_lm \<Rightarrow> ('h, 'p, 't, 'w) net \<Rightarrow> nat option \<Rightarrow> int list \<Rightarrow> 'h client \<Rightarrow> 'w
   \<Rightarrow> ('v list list res \<times> 'h client \<times> 'w) option" where
  "model_forward lm net max_retries ids c w =
     (let (pre, layers) = (case lm_prompts lm of Some ps \<Rightarrow> if cl_position c = 0 then ps else ([], None) | None \<Rightarrow> ([], None));
          args = \<lparr>sa_prompts = layers, sa_hypo_ids = [], sa_per_layer = None\<rparr> in
      Option.bind (client_step net max_retries 1 args (pre @ map (lm_embed lm) ids) c w) (\<lambda>(r, c1, w1).
      Some (rbind r (\<lambda>outs.
        let hidden = map (lm_norm lm) (drop (length pre) outs) in
        if length hidden = length ids then Inr (map (lm_head lm) hidden) else Inl RuntimeError), c1, w1)))"

section \<open>A round of drafting and checking\<close>

definition best_index :: "'v::linorder list \<Rightarrow> int" where
  "best_index xs = int (length (takeWhile (\<lambda>x. x \<noteq> Max (set xs)) xs))"

definition torch_argmax :: "'v::linorder list \<Rightarrow> int res" where
  "torch_argmax xs = (if xs = [] then Inl IndexError else Inr (best_index xs))"

text \<open>The drafted tokens the precise model confirms, with the first token it gives.\<close>

fun validate :: "(nat \<Rightarrow> int res) \<Rightarrow> int list \<Rightarrow> nat \<Rightarrow> (int list \<times> int option) res" where
  "validate best [] i = Inr ([], None)"
| "validate best (s # ss) i =
     rbind (best i) (\<lambda>v.
       if v = s then rbind (validate best ss (Suc i)) (\<lambda>(vs, _). Inr (v # vs, Some v)) else Inr ([], Some v))"

definition spec_round ::
  "('h, 'v::linorder) causal_lm \<Rightarrow> ('h, 'p, 't, 'w) net \<Rightarrow> nat option \<Rightarrow> (int list \<Rightarrow> int \<Rightarrow> int list res)
   \<Rightarrow> (int list \<Rightarrow> 'v list \<Rightarrow> 'v list) \<Rightarrow> int \<Rightarrow> bool \<Rightarrow> int list \<Rightarrow> 'h client \<Rightarrow> 'w \<Rightarrow> (int list res \<times> 'h client \<times> 'w) option" where
  "spec_round lm net max_retries small processor k firsts ids c w =
     (case small ids k of
        Inl e \<Rightarrow> Some (Inl e, c, w)
      | Inr outputs \<Rightarrow>
          let drafted = py_slice outputs (- k) (int (length outputs));
              full = ids @ drafted in
          if int (length ids) + k \<noteq> int (length full) then Some (Inl AssertionError, c, w)
          else
            let (r, c1) = (if firsts then (Inr (), c) else set_position (length ids - 1) c);
                tail = (if firsts then full else py_slice full (- k - 1) (int (length full)));
                checked = butlast tail in
            (case r of
               Inl e \<Rightarrow> Some (Inl e, c1, w)
             | Inr _ \<Rightarrow>
                 Option.bind (model_forward lm net max_retries checked c1 w) (\<lambda>(r, c2, w2).
                 Some (rbind r (\<lambda>logits.
                   let last_logits = py_slice logits (- k) (int (length logits));
                       best = (\<lambda>i. rbind (py_get last_logits (int i)) (\<lambda>l.
                                torch_argmax (processor (py_slice checked 0 (1 - k + int i)) l))) in
                   rbind (validate best drafted 0) (\<lambda>(valid, first).
                     if valid \<noteq> [] then Inr valid
                     else (case first of None \<Rightarrow> Inl RuntimeError | Some t \<Rightarrow> Inr [t]))), c2, w2))))"

section \<open>The generation loop\<close>

record generation_config =
  gc_do_sample :: bool
  gc_return_dict :: bool
  gc_pad_token :: int

partial_function (option) spec_loop ::
  "('h, 'v::linorder) causal_lm \<Rightarrow> ('h, 'p, 't, 'w) net \<Rightarrow> nat option \<Rightarrow> (int list \<Rightarrow> int \<Rightarrow> int list res)
   \<Rightarrow> (int list \<Rightarrow> 'v list \<Rightarrow> 'v list) \<Rightarrow> (int list \<Rightarrow> bool) \<Rightarrow> int option \<Rightarrow> int \<Rightarrow> bool \<Rightarrow> int list \<Rightarrow> int \<Rightarrow> int list list
   \<Rightarrow> 'h client \<Rightarrow> 'w \<Rightarrow> (int list res \<times> int list list \<times> 'h client \<times> 'w) option" where
  "spec_loop lm net max_retries small processor stop pad k firsts ids unfinished streamed c w =
     (let k' = min k (int (cl_max_length c) - int (length ids)) in
      Option.bind (spec_round lm net max_retries small processor k' firsts ids c w) (\<lambda>(r, c1, w1).
      case r of
        Inl e \<Rightarrow> Some (Inl e, streamed, c1, w1)
      | Inr valid \<Rightarrow>
          (let new = (case pad of None \<Rightarrow> valid | Some p \<Rightarrow> map (\<lambda>t. t * unfinished + p * (1 - unfinished)) valid);
               ids' = ids @ new;
               unfinished' = (if stop ids' then 0 else unfinished) in
           if unfinished' = 0 then Some (Inr ids', streamed @ [new], c1, w1)
           else spec_loop lm net max_retries small processor stop pad k' False ids' unfinished' (streamed @ [new]) c1 w1)))"

definition speculative_sample ::
  "('h, 'v::linorder) causal_lm \<Rightarrow> ('h, 'p, 't, 'w) net \<Rightarrow> nat option \<Rightarrow> (int list \<Rightarrow> int \<Rightarrow> int list res)
   \<Rightarrow> (int list \<Rightarrow> 'v list \<Rightarrow> 'v list) \<Rightarrow> (int list \<Rightarrow> bool) \<Rightarrow> bool \<Rightarrow> generation_config \<Rightarrow> bool \<Rightarrow> int \<Rightarrow> int list
   \<Rightarrow> 'h client \<Rightarrow> 'w \<Rightarrow> (int list res \<times> int list list \<times> 'h client \<times> 'w) option" where
  "speculative_sample lm net max_retries small processor stop has_eos cfg synced_gpus k ids c w =
     (if gc_do_sample cfg \<or> synced_gpus \<or> gc_return_dict cfg then Some (Inl AssertionError, [], c, w)
      else spec_loop lm net max_retries small processor stop (if has_eos then Some (gc_pad_token cfg) else None)
             k True ids 1 [] c w)"

end
