(* ===== verification/Speculative_Correct.thy ===== *)
theory Speculative_Correct
  imports Speculative
begin

text \<open>
  Speculative generation over a swarm of exact servers that do not fail is greedy generation with the
  full model, whatever tokens the small model drafts, as long as it drafts as many as it is asked for.
\<close>

section \<open>Greedy generation with the full model\<close>

text \<open>\<open>F\<close> stands for all blocks of the model; \<open>process\<close> for a logits processor that does not look at the tokens.\<close>

definition model_logits :: "('h, 'v) causal_lm \<Rightarrow> ('h list \<Rightarrow> 'h list) \<Rightarrow> int list \<Rightarrow> 'v list list" where
  "model_logits lm F ids = map (\<lambda>h. lm_head lm (lm_norm lm h)) (F (map (lm_embed lm) ids))"

definition next_token :: "('h, 'v::linorder) causal_lm \<Rightarrow> ('h list \<Rightarrow> 'h list) \<Rightarrow> ('v list \<Rightarrow> 'v list) \<Rightarrow> int list \<Rightarrow> int" where
  "next_token lm F process ids = best_index (process (last (model_logits lm F ids)))"

fun greedy :: "(int list \<Rightarrow> int) \<Rightarrow> nat \<Rightarrow> int list \<Rightarrow> int list" where
  "greedy nxt 0 ids = ids"
| "greedy nxt (Suc n) ids = greedy nxt n (ids @ [nxt ids])"

lemma length_greedy [simp]: "length (greedy nxt n ids) = length ids + n"
  by (induction n arbitrary: ids) simp_all

lemma greedy_add: "greedy nxt (m + n) ids = greedy nxt n (greedy nxt m ids)"
  by (induction m arbitrary: ids) simp_all

lemma greedy_extends: "\<exists>new. greedy nxt n ids = ids @ new"
proof (induction n arbitrary: ids)
  case (Suc n)
  then show ?case using Suc.IH [of "ids @ [nxt ids]"] by auto
qed simp

section \<open>Checking a draft\<close>

lemma validate_greedy:
  assumes "\<And>i. i < length ss \<Longrightarrow> best (j + i) = Inr (nxt (ids @ take i ss))"
  shows "\<exists>vs. validate best ss j = Inr (vs, if ss = [] then None else Some (nxt ids)) \<and> length vs \<le> length ss
    \<and> vs = take (length vs) ss \<and> ids @ vs = greedy nxt (length vs) ids
    \<and> (ids @ ss = greedy nxt (length ss) ids \<longrightarrow> vs = ss)"
  using assms
proof (induction ss arbitrary: ids j)
  case (Cons s ss)
  have now: "best j = Inr (nxt ids)" using Cons.prems [of 0] by simp
  show ?case
  proof (cases "nxt ids = s")
    case True
    have "best (Suc j + i) = Inr (nxt ((ids @ [s]) @ take i ss))" if "i < length ss" for i
      using Cons.prems [of "Suc i"] that by simp
    from Cons.IH [OF this] obtain vs where "validate best ss (Suc j) = Inr (vs, if ss = [] then None else Some (nxt (ids @ [s])))"
      "length vs \<le> length ss" "vs = take (length vs) ss" "(ids @ [s]) @ vs = greedy nxt (length vs) (ids @ [s])"
      "(ids @ [s]) @ ss = greedy nxt (length ss) (ids @ [s]) \<longrightarrow> vs = ss" by blast
    then show ?thesis using now True by (intro exI [of _ "s # vs"]) simp
  next
    case False
    have "ids @ s # ss \<noteq> greedy nxt (length (s # ss)) ids"
      using False greedy_extends [of nxt "length ss" "ids @ [nxt ids]"] by auto
    then show ?thesis using now False by (intro exI [of _ "[]"]) simp
  qed
qed simp

lemma model_forward_exact:
  fixes net :: "('h, 'p, 't, 'w) net"
  assumes net: "exact_net net (cl_max_length c) F fed_to" and con: "connected F fed_to sids xs c w"
    and ids: "ids \<noteq> []" "length xs + length ids \<le> cl_max_length c" and plain: "lm_prompts lm = None"
  shows "\<exists>c' w'. model_forward lm net mr ids c w
      = Some (Inr (map (\<lambda>h. lm_head lm (lm_norm lm h)) (drop (length xs) (fold F sids (xs @ map (lm_embed lm) ids)))), c', w')
    \<and> connected F fed_to sids (xs @ map (lm_embed lm) ids) c' w' \<and> cl_max_length c' = cl_max_length c"
proof -
  define args :: "('h, 'p) step_args" where "args = \<lparr>sa_prompts = None, sa_hypo_ids = [], sa_per_layer = None\<rparr>"
  have "map (lm_embed lm) ids \<noteq> []" "length xs + length (map (lm_embed lm) ids) \<le> cl_max_length c" using ids by simp_all
  from client_step_exact [OF net con this, of args mr 1]
  obtain c' w' where "client_step net mr 1 args (map (lm_embed lm) ids) c w
      = Some (Inr (drop (length xs) (fold F sids (xs @ map (lm_embed lm) ids))), c', w')"
    and "connected F fed_to sids (xs @ map (lm_embed lm) ids) c' w'" "cl_max_length c' = cl_max_length c"
    by (auto simp: args_def dummy_slices_def)
  then show ?thesis using connected_causal(1) [OF net con]
    by (simp add: model_forward_def plain args_def)
qed

lemma spec_round_exact:
  fixes net :: "('h, 'p, 't, 'w) net"
  assumes net: "exact_net net (cl_max_length c) F fed_to" and con: "connected F fed_to sids xs c w" and plain: "lm_prompts lm = None"
    and processor: "\<And>p l. processor p l = process l" and scores: "\<And>h. process (lm_head lm (lm_norm lm h)) \<noteq> []"
    and small: "small ids k = Inr outputs" "k \<le> int (length outputs)"
    and room: "0 < k" "int (length ids) + k \<le> int (cl_max_length c)" and ids: "ids \<noteq> []"
    and fed: "if firsts then xs = [] else length ids - 1 \<le> length xs \<and> take (length ids - 1) xs = map (lm_embed lm) (butlast ids)"
  shows "\<exists>valid c' w' xs'. spec_round lm net mr small processor k firsts ids c w = Some (Inr valid, c', w')
    \<and> connected F fed_to sids xs' c' w' \<and> cl_max_length c' = cl_max_length c
    \<and> valid \<noteq> [] \<and> int (length valid) \<le> k \<and> ids @ valid = greedy (next_token lm (fold F sids) process) (length valid) ids
    \<and> length ids - 1 + length valid \<le> length xs' \<and> take (length ids - 1 + length valid) xs' = map (lm_embed lm) (butlast (ids @ valid))
    \<and> (outputs = greedy (next_token lm (fold F sids) process) (nat k) ids \<longrightarrow> int (length valid) = k)"
proof -
  define m where "m = nat k"
  define drafted where "drafted = drop (length outputs - m) outputs"
  define checked where "checked = (if firsts then butlast (ids @ drafted) else last ids # butlast drafted)"
  define start where "start = (if firsts then 0 else length ids - 1)"
  define fed' where "fed' = map (lm_embed lm) (butlast (ids @ drafted))"
  let ?head = "\<lambda>h. lm_head lm (lm_norm lm h)" and ?nxt = "next_token lm (fold F sids) process"
  have k: "k = int m" "0 < m" using room by (simp_all add: m_def)
  have drafted: "py_slice outputs (- k) (int (length outputs)) = drafted" "length drafted = m" "drafted \<noteq> []"
    using small(2) k py_slice_last [of m outputs] by (auto simp: drafted_def)
  have split: "ids @ drafted = butlast ids @ last ids # drafted" "butlast (ids @ drafted) = butlast ids @ last ids # butlast drafted"
    using ids drafted by (simp_all add: butlast_append)
  have tail: "butlast (if firsts then ids @ drafted else py_slice (ids @ drafted) (- k - 1) (int (length (ids @ drafted)))) = checked"
  proof -
    have eq: "- k - 1 = - int (Suc m)" using k by simp
    have "py_slice (ids @ drafted) (- k - 1) (int (length (ids @ drafted))) = last ids # drafted"
      unfolding eq using drafted ids by (subst py_slice_last) (simp_all add: split(1) Suc_le_eq)
    then show ?thesis using drafted(3) by (cases firsts) (simp_all only: checked_def if_True if_False butlast.simps)
  qed
  have "\<exists>c1. (if firsts then (Inr (), c) else set_position (length ids - 1) c) = (Inr (), c1)
    \<and> connected F fed_to sids (map (lm_embed lm) (take start ids)) c1 w \<and> cl_max_length c1 = cl_max_length c"
  proof (cases firsts)
    case False
    then have "length ids - 1 \<le> length xs" "take (length ids - 1) xs = map (lm_embed lm) (take start ids)"
      using fed by (simp_all add: start_def butlast_conv_take)
    then show ?thesis using set_position_exact [OF net con, of "length ids - 1"] False by auto
  qed (use con fed in \<open>simp add: start_def\<close>)
  then obtain c1 where c1: "(if firsts then (Inr (), c) else set_position (length ids - 1) c) = (Inr (), c1)"
    "connected F fed_to sids (map (lm_embed lm) (take start ids)) c1 w" "cl_max_length c1 = cl_max_length c" by blast
  have joined: "take start ids @ checked = butlast (ids @ drafted)"
    by (cases firsts) (simp_all only: start_def checked_def split(2) if_True if_False butlast_conv_take [of ids, symmetric] take_0 append_Nil)
  have len: "length checked = length ids + m - 1 - start"
    using arg_cong [OF joined, of length] drafted(2) ids by (auto simp: start_def checked_def)
  have net1: "exact_net net (cl_max_length c1) F fed_to" using net c1(3) by simp
  have ne: "checked \<noteq> []" "length (map (lm_embed lm) (take start ids)) + length checked \<le> cl_max_length c1"
    using len ids k room c1(3) by (cases ids; auto simp: start_def split: if_splits)+
  obtain c' w' where forward: "model_forward lm net mr checked c1 w
      = Some (Inr (map ?head (drop start (fold F sids fed'))), c', w')"
    and con': "connected F fed_to sids fed' c' w'" "cl_max_length c' = cl_max_length c"
    using model_forward_exact [OF net1 c1(2) ne plain, of mr] joined c1(3)
    by (auto simp: fed'_def start_def simp flip: map_append)
  let ?L = "map ?head (drop start (fold F sids fed'))"
  have lenF: "length (fold F sids fed') = length ids + m - 1"
    using connected_causal(1) [OF net con] drafted(2) by (simp add: fed'_def)
  have last: "py_slice ?L (- k) (int (length ?L)) = map ?head (drop (length ids - 1) (fold F sids fed'))"
  proof -
    have "length ?L - m + start = length ids - 1" "m \<le> length ?L" using lenF ids k by (cases ids; simp add: start_def)+
    then show ?thesis unfolding k(1) using k(2) by (simp only: py_slice_last drop_map drop_drop)
  qed
  have nxt: "?nxt (ids @ take i drafted) = best_index (process (?head (fold F sids fed' ! (length ids - 1 + i))))" if i: "i < m" for i
  proof -
    let ?u = "map (lm_embed lm) (ids @ take i drafted)"
    have "take (length ids + i) fed' = ?u"
      using i drafted(2) by (simp add: fed'_def take_map take_butlast)
    then obtain rest where u: "fed' = ?u @ rest" by (metis append_take_drop_id)
    have Fu: "length (fold F sids ?u) = length ids + i" using connected_causal(1) [OF net con] i drafted(2) by simp
    have "take (length ?u) (fold F sids fed') = fold F sids ?u"
      unfolding u using connected_causal(1) [OF net con, of ?u] connected_causal(2) [OF net con, of "length ?u" ?u rest]
      by (simp del: map_append length_append length_map)
    then have "fold F sids ?u ! (length ids - 1 + i) = fold F sids fed' ! (length ids - 1 + i)"
      using nth_take [of "length ids - 1 + i" "length ?u" "fold F sids fed'"] ids i drafted(2) by (cases ids) simp_all
    moreover have "fold F sids ?u \<noteq> []" using Fu ids by auto
    ultimately show ?thesis
      using Fu ids by (cases ids) (simp_all add: next_token_def model_logits_def last_conv_nth last_map)
  qed
  define best where "best = (\<lambda>i. rbind (py_get (py_slice ?L (- k) (int (length ?L))) (int i)) (\<lambda>l.
    torch_argmax (processor (py_slice checked 0 (1 - k + int i)) l)))"
  have "best (0 + i) = Inr (?nxt (ids @ take i drafted))" if "i < length drafted" for i
    using that lenF ids scores drafted(2) nxt [of i] unfolding best_def last processor
    by (simp add: py_get_def torch_argmax_def)
  from validate_greedy [of drafted best 0 ?nxt ids, OF this] obtain vs where
    vs: "validate best drafted 0 = Inr (vs, Some (?nxt ids))" "length vs \<le> m" "vs = take (length vs) drafted"
      "ids @ vs = greedy ?nxt (length vs) ids" "ids @ drafted = greedy ?nxt m ids \<longrightarrow> vs = drafted" using drafted by auto
  define valid where "valid = (if vs \<noteq> [] then vs else [?nxt ids])"
  have round: "spec_round lm net mr small processor k firsts ids c w = Some (Inr valid, c', w')"
    using drafted(2) k(1) forward vs(1)
    unfolding spec_round_def small(1) sum.case Let_def drafted(1) c1(1) prod.case tail best_def
    by (simp add: valid_def)
  have valid: "valid \<noteq> []" "length valid \<le> m" "ids @ valid = greedy ?nxt (length valid) ids" using vs k by (auto simp: valid_def)
  have "take (length ids - 1 + length valid) fed' = map (lm_embed lm) (butlast (ids @ valid))"
  proof -
    have "butlast (ids @ drafted) = ids @ butlast drafted" "butlast (ids @ valid) = ids @ butlast valid"
      using drafted(3) valid(1) by (simp_all add: butlast_append)
    moreover have "butlast vs = take (length vs - 1) drafted"
      using arg_cong [OF vs(3), of butlast] vs(2) drafted(2) by (simp add: butlast_take)
    then have "butlast valid = take (length valid - 1) (butlast drafted)"
      using vs(2) drafted(2) by (simp add: valid_def butlast_conv_take [of drafted] min_def)
    moreover have "length ids - 1 + length valid - length ids = length valid - 1" "length ids \<le> length ids - 1 + length valid"
      using ids valid(1) by (cases ids; cases valid; simp)+
    ultimately show ?thesis using ids valid(1) by (simp add: fed'_def take_map)
  qed
  moreover have "length ids - 1 + length valid \<le> length fed'"
    using valid(2) drafted(2) k(2) ids by (cases ids) (auto simp: fed'_def)
  moreover have "int (length valid) \<le> k" using valid(2) k(1) by simp
  moreover have "outputs = greedy ?nxt (nat k) ids \<longrightarrow> int (length valid) = k"
  proof
    assume draft: "outputs = greedy ?nxt (nat k) ids"
    obtain new where "greedy ?nxt m ids = ids @ new" using greedy_extends by blast
    moreover have "length outputs = length ids + m" using draft k(1) by simp
    ultimately have "vs = drafted" using vs(5) draft k(1) by (simp add: drafted_def)
    then show "int (length valid) = k" using drafted(2,3) k(1) by (simp add: valid_def)
  qed
  ultimately show ?thesis using round con' valid(1,3) by blast
qed

section \<open>The loop\<close>

lemma spec_loop_exact:
  fixes net :: "('h, 'p, 't, 'w) net" and lm :: "('h, 'v::linorder) causal_lm"
  assumes net: "exact_net net room F fed_to" and plain: "lm_prompts lm = None"
    and processor: "\<And>p l. processor p l = process l" and scores: "\<And>h. process (lm_head lm (lm_norm lm h)) \<noteq> []"
    and small: "\<And>ids k. 0 < k \<Longrightarrow> \<exists>outputs. small ids k = Inr outputs \<and> k \<le> int (length outputs)"
    and stop: "\<And>ids. room \<le> length ids \<Longrightarrow> stop ids"
    and "connected F fed_to sids xs c w" "cl_max_length c = room" "0 < k" "ids \<noteq> []" "length ids < room"
    and "if firsts then xs = [] else length ids - 1 \<le> length xs \<and> take (length ids - 1) xs = map (lm_embed lm) (butlast ids)"
  shows "\<exists>n streamed' c' w'. spec_loop lm net mr small processor stop pad k firsts ids 1 streamed c w
      = Some (Inr (greedy (next_token lm (fold F sids) process) n ids), streamed', c', w')
    \<and> stop (greedy (next_token lm (fold F sids) process) n ids) \<and> length ids + n \<le> room
    \<and> (\<exists>new. greedy (next_token lm (fold F sids) process) n ids = ids @ new \<and> concat streamed' = concat streamed @ new)
    \<and> (small ids (min k (int (room - length ids))) = Inr (greedy (next_token lm (fold F sids) process) (nat (min k (int (room - length ids)))) ids)
         \<longrightarrow> min k (int (room - length ids)) \<le> int n)"
  using assms(7-)
proof (induction "room - length ids" arbitrary: ids xs c w k firsts streamed rule: less_induct)
  case less
  let ?nxt = "next_token lm (fold F sids) process"
  define k' where "k' = min k (int (cl_max_length c) - int (length ids))"
  have k': "0 < k'" "int (length ids) + k' \<le> int (cl_max_length c)" using less.prems(2,3,5) by (simp_all add: k'_def)
  obtain outputs where small': "small ids k' = Inr outputs" "k' \<le> int (length outputs)" using small [OF k'(1)] by blast
  have net': "exact_net net (cl_max_length c) F fed_to" using net less.prems(2) by simp
  obtain valid c1 w1 xs1 where round: "spec_round lm net mr small processor k' firsts ids c w = Some (Inr valid, c1, w1)"
    and con1: "connected F fed_to sids xs1 c1 w1" "cl_max_length c1 = cl_max_length c"
    and valid: "valid \<noteq> []" "int (length valid) \<le> k'" "ids @ valid = greedy ?nxt (length valid) ids"
    and fed1: "length ids - 1 + length valid \<le> length xs1"
      "take (length ids - 1 + length valid) xs1 = map (lm_embed lm) (butlast (ids @ valid))"
    and draft: "outputs = greedy ?nxt (nat k') ids \<longrightarrow> int (length valid) = k'"
    using spec_round_exact [where process = process and processor = processor and lm = lm and small = small, OF net' less.prems(1) plain processor scores small' k' less.prems(4,6)] by blast
  have same_k: "k' = min k (int (room - length ids))" using less.prems(2,5) by (simp add: k'_def of_nat_diff)
  have draft': "small ids k' = Inr (greedy ?nxt (nat k') ids) \<longrightarrow> k' \<le> int (length valid)" using draft small'(1) by auto
  let ?ids = "ids @ valid"
  have same: "(case pad of None \<Rightarrow> valid | Some p \<Rightarrow> map (\<lambda>t. t * 1 + p * (1 - 1)) valid) = valid"
    by (simp split: option.splits)
  have bound: "length ?ids \<le> room" using valid(2) k'(2) less.prems(2) by simp
  show ?case
  proof (cases "stop ?ids")
    case True
    then have "spec_loop lm net mr small processor stop pad k firsts ids 1 streamed c w = Some (Inr ?ids, streamed @ [valid], c1, w1)"
      by (subst spec_loop.simps) (simp add: k'_def [symmetric] round same Let_def)
    then show ?thesis using True valid(3) bound draft' unfolding same_k by (intro exI [of _ "length valid"]) auto
  next
    case False
    then have room: "length ?ids < room" using stop [of ?ids] bound by linarith
    have loop: "spec_loop lm net mr small processor stop pad k firsts ids 1 streamed c w
        = spec_loop lm net mr small processor stop pad k' False ?ids 1 (streamed @ [valid]) c1 w1"
      using False by (subst spec_loop.simps) (simp add: k'_def [symmetric] round same Let_def)
    have "length ?ids - 1 = length ids - 1 + length valid" using less.prems(4) by (cases ids) simp_all
    then have fed: "if False then xs1 = [] else length ?ids - 1 \<le> length xs1 \<and> take (length ?ids - 1) xs1 = map (lm_embed lm) (butlast ?ids)"
      using fed1 by simp
    have "room - length ?ids < room - length ids" using valid(1) room by (cases valid) simp_all
    from less.hyps [OF this con1(1) _ k'(1) _ room fed, of "streamed @ [valid]"] con1(2) less.prems(2,4)
    obtain n streamed' c' w' new where
      "spec_loop lm net mr small processor stop pad k' False ?ids 1 (streamed @ [valid]) c1 w1 = Some (Inr (greedy ?nxt n ?ids), streamed', c', w')"
      "stop (greedy ?nxt n ?ids)" "length ?ids + n \<le> room" and "greedy ?nxt n ?ids = ?ids @ new" "concat streamed' = concat (streamed @ [valid]) @ new"
      by auto
    moreover have "greedy ?nxt n ?ids = greedy ?nxt (length valid + n) ids" using valid(3) by (simp add: greedy_add)
    ultimately show ?thesis using loop draft' unfolding same_k by (intro exI [of _ "length valid + n"]) auto
  qed
qed

section \<open>Properties\<close>

text \<open>All blocks of the servers of a session, one after the other.\<close>

abbreviation whole_model ::
  "(string \<Rightarrow> ('h, 'a) block_meaning) \<Rightarrow> (string \<Rightarrow> 'a tensor list) \<Rightarrow> (nat \<Rightarrow> ('h, 'p, 't, 'a cache) span_server)
   \<Rightarrow> nat list \<Rightarrow> 'h list \<Rightarrow> 'h list" where
  "whole_model blk start servers sids \<equiv> chain_sem (block_sem blk start) (concat (map (\<lambda>sid. sv_blocks (servers sid)) sids))"

lemma speculative_runs:
  fixes servers :: "nat \<Rightarrow> ('h, 'p, 't, 'a cache) span_server" and lm :: "('h, 'v::linorder) causal_lm"
  assumes "connected (server_sem blk start servers) (fed_by zero rows (cl_max_length c) served blk start servers) sids [] c w"
    and "lm_prompts lm = None" and "\<And>p l. processor p l = process l" and "\<And>h. process (lm_head lm (lm_norm lm h)) \<noteq> []"
    and "\<And>ids k. 0 < k \<Longrightarrow> \<exists>outputs. small ids k = Inr outputs \<and> k \<le> int (length outputs)"
    and "\<And>ids. cl_max_length c \<le> length ids \<Longrightarrow> stop ids"
    and "0 < k" "ids \<noteq> []" "length ids < cl_max_length c" "\<not> gc_do_sample cfg" "\<not> gc_return_dict cfg"
  shows "\<exists>n streamed c' w'. speculative_sample lm (server_net addf rows servers base) max_retries small processor stop has_eos cfg False k ids c w
      = Some (Inr (greedy (next_token lm (whole_model blk start servers sids) process) n ids), streamed, c', w')
    \<and> stop (greedy (next_token lm (whole_model blk start servers sids) process) n ids) \<and> length ids + n \<le> cl_max_length c
    \<and> ids @ concat streamed = greedy (next_token lm (whole_model blk start servers sids) process) n ids
    \<and> (small ids (min k (int (cl_max_length c - length ids)))
          = Inr (greedy (next_token lm (whole_model blk start servers sids) process) (nat (min k (int (cl_max_length c - length ids)))) ids)
         \<longrightarrow> min k (int (cl_max_length c - length ids)) \<le> int n)"
proof -
  let ?pad = "if has_eos then Some (gc_pad_token cfg) else None" and ?nxt = "next_token lm (whole_model blk start servers sids) process"
  have F: "next_token lm (fold (server_sem blk start servers) sids) process = ?nxt"
    by (simp add: fold_server_sem [abs_def])
  obtain n streamed c' w' where run: "spec_loop lm (server_net addf rows servers base) max_retries small processor stop ?pad k True ids 1 [] c w
      = Some (Inr (greedy ?nxt n ids), streamed, c', w')"
    "stop (greedy ?nxt n ids)" "length ids + n \<le> cl_max_length c"
    "\<exists>new. greedy ?nxt n ids = ids @ new \<and> concat streamed = concat [] @ new"
    "small ids (min k (int (cl_max_length c - length ids)))
          = Inr (greedy ?nxt (nat (min k (int (cl_max_length c - length ids)))) ids)
         \<longrightarrow> min k (int (cl_max_length c - length ids)) \<le> int n"
    using spec_loop_exact [where process = process and processor = processor and lm = lm and small = small and stop = stop and firsts = True,
      OF server_net_exact assms(2-6,1) refl assms(7-9), of addf base max_retries ?pad "[]"]
    unfolding F by auto
  have "speculative_sample lm (server_net addf rows servers base) max_retries small processor stop has_eos cfg False k ids c w
      = Some (Inr (greedy ?nxt n ids), streamed, c', w')"
    using run(1) assms(10,11) by (simp add: speculative_sample_def)
  then show ?thesis using run(2-) by (intro exI [of _ n] exI [of _ streamed] exI [of _ c'] exI [of _ w']) auto
qed

text \<open>C2. Speculative generation is exact: over a connected swarm whose servers do not fail, for every small model
  that drafts at least the number of tokens asked for, a logits processor that does not look at the tokens and stopping
  criteria that hold at the reserved length, generation ends, and returns and streams exactly what greedy
  decoding with all blocks of the model gives, for a number of tokens at which the criteria hold.\<close>

theorem speculative_exact:
  fixes servers :: "nat \<Rightarrow> ('h, 'p, 't, 'a cache) span_server" and lm :: "('h, 'v::linorder) causal_lm"
  assumes "connected (server_sem blk start servers) (fed_by zero rows (cl_max_length c) served blk start servers) sids [] c w"
    and "lm_prompts lm = None" and "\<And>p l. processor p l = process l" and "\<And>h. process (lm_head lm (lm_norm lm h)) \<noteq> []"
    and "\<And>ids k. 0 < k \<Longrightarrow> \<exists>outputs. small ids k = Inr outputs \<and> k \<le> int (length outputs)"
    and "\<And>ids. cl_max_length c \<le> length ids \<Longrightarrow> stop ids"
    and "0 < k" "ids \<noteq> []" "length ids < cl_max_length c" "\<not> gc_do_sample cfg" "\<not> gc_return_dict cfg"
  shows "\<exists>n streamed c' w'. speculative_sample lm (server_net addf rows servers base) max_retries small processor stop has_eos cfg False k ids c w
      = Some (Inr (greedy (next_token lm (whole_model blk start servers sids) process) n ids), streamed, c', w')
    \<and> stop (greedy (next_token lm (whole_model blk start servers sids) process) n ids)
    \<and> length ids + n \<le> cl_max_length c
    \<and> ids @ concat streamed = greedy (next_token lm (whole_model blk start servers sids) process) n ids"
  using speculative_runs [where processor = processor and process = process and small = small and stop = stop and k = k and ids = ids and cfg = cfg
    and lm = lm and c = c and w = w, OF assms, of addf base max_retries has_eos] by blast

text \<open>The stopping criteria are only asked after a whole accepted draft: although they hold after the first
  token, a small model that drafts well makes the generation return more.\<close>

theorem speculative_overshoots:
  fixes servers :: "nat \<Rightarrow> ('h, 'p, 't, 'a cache) span_server" and lm :: "('h, 'v::linorder) causal_lm"
  assumes "connected (server_sem blk start servers) (fed_by zero rows (cl_max_length c) served blk start servers) sids [] c w"
    and "lm_prompts lm = None" and "\<And>p l. processor p l = process l" and "\<And>h. process (lm_head lm (lm_norm lm h)) \<noteq> []"
    and "\<And>ids k. small ids k = Inr (greedy (next_token lm (whole_model blk start servers sids) process) (nat k) ids)"
    and "\<And>ids. cl_max_length c \<le> length ids \<Longrightarrow> stop ids"
    and "1 < k" "ids \<noteq> []" "length ids + 1 < cl_max_length c" "\<not> gc_do_sample cfg" "\<not> gc_return_dict cfg"
    and "stop (greedy (next_token lm (whole_model blk start servers sids) process) 1 ids)"
  shows "\<exists>n streamed c' w'. speculative_sample lm (server_net addf rows servers base) max_retries small processor stop has_eos cfg False k ids c w
      = Some (Inr (greedy (next_token lm (whole_model blk start servers sids) process) n ids), streamed, c', w') \<and> 1 < n"
proof -
  have drafts: "\<And>ids k. 0 < k \<Longrightarrow> \<exists>outputs. small ids k = Inr outputs \<and> k \<le> int (length outputs)" using assms(5) by simp
  have k: "0 < k" "length ids < cl_max_length c" using assms(7,9) by simp_all
  have "1 < min k (int (cl_max_length c - length ids))" using assms(7,9) by simp
  then show ?thesis
    using speculative_runs [where processor = processor and process = process and small = small and stop = stop and k = k and ids = ids and cfg = cfg
      and lm = lm and c = c and w = w, OF assms(1-4) drafts assms(6) k(1) assms(8) k(2) assms(10,11), of addf base max_retries has_eos]
      assms(5) by fastforce
qed

text \<open>The last token of a draft is checked with a logits processor that is given no tokens at all: a draft
  of one token does not depend on what the processor makes of the tokens before it.\<close>

theorem last_draft_without_context:
  "spec_round lm net max_retries small processor 1 firsts ids c w
     = spec_round lm net max_retries small (\<lambda>_. processor []) 1 firsts ids c w"
proof -
  have one: "validate f xs 0 = validate g xs 0" if "length xs \<le> 1" "f 0 = g 0" for f g xs
    using that by (cases xs) (simp_all cong: if_cong)
  have len: "length (py_slice outputs (- 1) (int (length outputs))) \<le> 1" for outputs :: "int list"
    by (simp add: length_py_slice slice_index_def)
  have nil: "py_slice xs 0 (1 - 1 + int 0) = []" for xs :: "int list" by (simp add: py_slice_def slice_index_def)
  have best: "validate (\<lambda>i. rbind (py_get ls (int i)) (\<lambda>l. torch_argmax (processor (py_slice checked 0 (1 - 1 + int i)) l)))
      (py_slice outputs (- 1) (int (length outputs))) 0
    = validate (\<lambda>i. rbind (py_get ls (int i)) (\<lambda>l. torch_argmax (processor [] l)))
      (py_slice outputs (- 1) (int (length outputs))) 0" for ls checked outputs
    by (rule one [OF len]) (simp only: nil)
  show ?thesis unfolding spec_round_def Let_def best ..
qed

text \<open>When the small model stops early on a short prompt, so that prompt and draft together are shorter than
  the draft asked for, the generation fails with an assertion before the swarm is asked.\<close>

theorem short_draft_fails:
  assumes "small ids (min k (int (cl_max_length c) - int (length ids))) = Inr outputs"
    and "int (length outputs) < min k (int (cl_max_length c) - int (length ids))"
    and "\<not> gc_do_sample cfg" "\<not> gc_return_dict cfg"
  shows "speculative_sample lm net max_retries small processor stop has_eos cfg False k ids c w = Some (Inl AssertionError, [], c, w)"
proof -
  define k' where "k' = min k (int (cl_max_length c) - int (length ids))"
  have "length (py_slice outputs (- k') (int (length outputs))) \<le> length outputs" by (simp add: py_slice_def Let_def)
  then have "spec_round lm net max_retries small processor k' True ids c w = Some (Inl AssertionError, c, w)"
    using assms(1,2) [folded k'_def] by (simp add: spec_round_def Let_def)
  then show ?thesis using assms(3,4) by (simp add: speculative_sample_def spec_loop.simps [of _ _ _ _ _ _ _ k] k'_def [symmetric])
qed

section \<open>Witnesses\<close>

definition count_lm :: "(int, int) causal_lm" where
  "count_lm = \<lparr>lm_embed = (\<lambda>t. t), lm_prompts = None, lm_norm = (\<lambda>h. h), lm_head = (\<lambda>h. [h, 3, 5])\<rparr>"

definition greedy_config :: generation_config where
  "greedy_config = \<lparr>gc_do_sample = False, gc_return_dict = False, gc_pad_token = 0\<rparr>"

theorem speculative_exact_witness:
  "\<exists>n streamed c' w'. speculative_sample count_lm (server_net (+) 1 (\<lambda>_. big_server) undefined) None
      (\<lambda>ids k. Inr (ids @ replicate (nat k) 2)) (\<lambda>_ l. l) (\<lambda>ids. 4 \<le> length ids) True greedy_config False 10 [1, 2] two_client two_world
      = Some (Inr (greedy (next_token count_lm (whole_model (\<lambda>_. tensor_block) (\<lambda>_. flat_kv [] []) (\<lambda>_. big_server) [0, 1 :: nat]) (\<lambda>l. l)) n [1, 2]), streamed, c', w')
    \<and> 4 \<le> 2 + n \<and> n \<le> 2"
  using speculative_exact [OF two_client_connected, of count_lm "\<lambda>_ l. l" "\<lambda>l. l" "\<lambda>ids k. Inr (ids @ replicate (nat k) 2)"
      "\<lambda>ids. 4 \<le> length ids" 10 "[1, 2]" greedy_config "(+)" undefined None True]
  by (auto simp: count_lm_def greedy_config_def two_client_def new_client_def)

theorem speculative_overshoots_witness:
  "\<exists>n streamed c' w'. speculative_sample count_lm (server_net (+) 1 (\<lambda>_. big_server) undefined) None
      (\<lambda>ids k. Inr (greedy (next_token count_lm (whole_model (\<lambda>_. tensor_block) (\<lambda>_. flat_kv [] []) (\<lambda>_. big_server) [0, 1 :: nat]) (\<lambda>l. l)) (nat k) ids))
      (\<lambda>_ l. l) (\<lambda>ids. 2 \<le> length ids) True greedy_config False 10 [1] two_client two_world
      = Some (Inr (greedy (next_token count_lm (whole_model (\<lambda>_. tensor_block) (\<lambda>_. flat_kv [] []) (\<lambda>_. big_server) [0, 1 :: nat]) (\<lambda>l. l)) n [1]), streamed, c', w')
    \<and> 1 < n"
  by (rule speculative_overshoots [OF two_client_connected, where process = "\<lambda>l. l"])
    (simp_all add: count_lm_def greedy_config_def two_client_def new_client_def)

theorem short_draft_fails_witness:
  "speculative_sample count_lm echo_net None (\<lambda>ids k. Inr [1]) (\<lambda>_ l. l) (\<lambda>_. True) True greedy_config False 3 [1] two_client 0
    = Some (Inl AssertionError, [], two_client, 0)"
  by (rule short_draft_fails [where outputs = "[1]"]) (simp_all add: greedy_config_def two_client_def new_client_def)

end
