(* ===== verification/Server_Registry.thy ===== *)
theory Server_Registry
  imports Py_Strings
begin

text \<open>
  Models \<open>src/drift/utils/server_registry.py\<close>, \<open>src/drift/cli/run_down.py\<close> and \<open>serve\<close> of
  \<open>src/drift/cli/run_server.py\<close> on Linux: the records of running servers and \<open>drift down\<close>. The directory
  is a list of file names with what reading them gives; the answers of the operating system are a record
  of functions, one for each moment at which the code asks, and the polls of a waiting loop are the list
  of those before its deadline. Signals are collected in a list. A pid is what the file holds: an integer
  or a Boolean, which is an integer, is tested; a float that is not positive counts as gone; anything
  else makes the liveness test raise. Messages and the Windows and macOS branches are not represented.
\<close>

section \<open>Records\<close>

record server_record =
  rec_pid :: pyval
  rec_model :: pyval
  rec_dht_prefix :: pyval
  rec_maddrs :: pyval
  rec_started_at :: pyval
  rec_path :: string

text \<open>The content of a file: not readable or not JSON, or the parsed value.\<close>

datatype run_file = Unreadable | Json pyval

type_synonym run_dir = "(string \<times> run_file) list"

text \<open>\<open>_record_path\<close> of a pid, given as the text the f-string makes of it.\<close>

definition record_name :: "string \<Rightarrow> string" where
  "record_name pid = ''server-'' @ pid @ ''.json''"

definition register_server :: "int \<Rightarrow> rat \<Rightarrow> string option \<Rightarrow> string option \<Rightarrow> string list \<Rightarrow> run_dir \<Rightarrow> run_dir" where
  "register_server pid now model dht_prefix maddrs dir =
     AList.update (record_name (show_int pid))
       (Json (VDict
         [(''pid'', VInt pid), (''model'', case model of None \<Rightarrow> VNone | Some m \<Rightarrow> VStr m),
          (''dht_prefix'', case dht_prefix of None \<Rightarrow> VNone | Some p \<Rightarrow> VStr p),
          (''maddrs'', VList (map VStr maddrs)), (''started_at'', VFloat now)])) dir"

definition unregister_server :: "string \<Rightarrow> run_dir \<Rightarrow> run_dir" where
  "unregister_server pid dir = AList.delete (record_name pid) dir"

definition glob_matches :: "string \<Rightarrow> bool" where
  "glob_matches name \<longleftrightarrow> 12 \<le> length name \<and> take 7 name = ''server-'' \<and> drop (length name - 5) name = ''.json''"

text \<open>\<open>ServerRecord(path=..., **data)\<close>: exactly the fields, those with a default may be missing.\<close>

definition record_of_fields :: "string \<Rightarrow> (string \<times> pyval) list \<Rightarrow> server_record option" where
  "record_of_fields path items =
     (let data = AList.delete ''path'' items; keys = map fst data in
      if list_all (\<lambda>k. k \<in> {''pid'', ''model'', ''dht_prefix'', ''maddrs'', ''started_at''}) keys
         \<and> list_all (\<lambda>k. k \<in> set keys) [''pid'', ''model'', ''dht_prefix'']
      then Some \<lparr>rec_pid = vget data ''pid'' VNone, rec_model = vget data ''model'' VNone, rec_dht_prefix = vget data ''dht_prefix'' VNone,
                 rec_maddrs = vget data ''maddrs'' (VList []), rec_started_at = vget data ''started_at'' (VFloat 0), rec_path = path\<rparr>
      else None)"

text \<open>\<open>data.pop\<close> needs a dictionary.\<close>

definition read_record :: "string \<times> run_file \<Rightarrow> server_record option res" where
  "read_record entry =
     (case snd entry of
        Unreadable \<Rightarrow> Inr None
      | Json (VDict items) \<Rightarrow> Inr (record_of_fields (fst entry) items)
      | Json (VList _) \<Rightarrow> Inl TypeError
      | Json _ \<Rightarrow> Inl GenericException)"

definition iter_records :: "run_dir \<Rightarrow> server_record list res" where
  "iter_records dir =
     rbind (rmap read_record (sort_key fst (filter (\<lambda>entry. glob_matches (fst entry)) dir))) (\<lambda>rs.
       Inr (map the (filter (\<lambda>r. r \<noteq> None) rs)))"

section \<open>Processes\<close>

datatype kill_answer = Delivered | No_Such_Process | Not_Permitted

text \<open>The files of a process are found by the text of its pid.\<close>

record os =
  os_kill0 :: "int \<Rightarrow> kill_answer"
  os_stat :: "string \<Rightarrow> string option"
  os_cmdline :: "string \<Rightarrow> string option"

text \<open>What follows the last \<open>") "\<close>, and what comes before the first blank.\<close>

fun after_last_paren :: "string \<Rightarrow> string option" where
  "after_last_paren [] = None"
| "after_last_paren (c # cs) =
     (case after_last_paren cs of
        Some rest \<Rightarrow> Some rest
      | None \<Rightarrow> if c = CHR '')'' \<and> take 1 cs = '' '' then Some (drop 1 cs) else None)"

definition pid_int :: "pyval \<Rightarrow> int option" where
  "pid_int v = (case v of VInt p \<Rightarrow> Some p | VBool b \<Rightarrow> Some (of_bool b) | _ \<Rightarrow> None)"

text \<open>The text of a pid in an f-string; \<open>show_float\<close> prints floats. The other values never get that far.\<close>

definition pid_text :: "(rat \<Rightarrow> string) \<Rightarrow> pyval \<Rightarrow> string" where
  "pid_text show_float v =
     (case v of VInt p \<Rightarrow> show_int p | VBool b \<Rightarrow> if b then ''True'' else ''False'' | VFloat q \<Rightarrow> show_float q | _ \<Rightarrow> [])"

definition pid_is_zombie :: "(rat \<Rightarrow> string) \<Rightarrow> os \<Rightarrow> pyval \<Rightarrow> bool" where
  "pid_is_zombie show_float s pid \<longleftrightarrow>
     (case os_stat s (pid_text show_float pid) of
        None \<Rightarrow> False
      | Some stat \<Rightarrow>
          (case after_last_paren stat of
             None \<Rightarrow> False
           | Some rest \<Rightarrow> takeWhile (\<lambda>c. c \<noteq> CHR '' '') rest = ''Z''))"

text \<open>\<open>os.kill\<close> takes integers only, of 32 bits; the exception for a larger one is not told apart.\<close>

definition process_alive :: "(rat \<Rightarrow> string) \<Rightarrow> os \<Rightarrow> pyval \<Rightarrow> bool res" where
  "process_alive show_float s pid =
     (case pid_int pid of
        Some p \<Rightarrow>
          if p \<le> 0 then Inr False
          else if 2 ^ 31 \<le> p then Inl GenericException
          else Inr (case os_kill0 s p of
                      No_Such_Process \<Rightarrow> False | Not_Permitted \<Rightarrow> True | Delivered \<Rightarrow> \<not> pid_is_zombie show_float s pid)
      | None \<Rightarrow> (case pid of VFloat q \<Rightarrow> if q \<le> 0 then Inr False else Inl TypeError | _ \<Rightarrow> Inl TypeError))"

definition pid_alive :: "(rat \<Rightarrow> string) \<Rightarrow> os \<Rightarrow> pyval \<Rightarrow> bool" where
  "pid_alive show_float s pid \<longleftrightarrow> process_alive show_float s pid = Inr True"

definition process_command_line :: "(rat \<Rightarrow> string) \<Rightarrow> os \<Rightarrow> pyval \<Rightarrow> string option" where
  "process_command_line show_float s pid =
     map_option (\<lambda>raw. strip (map (\<lambda>c. if c = CHR 0x00 then CHR '' '' else c) raw)) (os_cmdline s (pid_text show_float pid))"

definition DRIFT_MARKERS :: "string list" where
  "DRIFT_MARKERS = [''drift'', ''run_server'', ''python'']"

text \<open>Whether a live pid may be a server: an unknown command line is no objection.\<close>

definition looks_like_drift :: "(rat \<Rightarrow> string) \<Rightarrow> os \<Rightarrow> pyval \<Rightarrow> bool" where
  "looks_like_drift show_float s pid \<longleftrightarrow>
     (case process_command_line show_float s pid of None \<Rightarrow> True | Some cmd \<Rightarrow> list_ex (\<lambda>m. occurs_in m (lower cmd)) DRIFT_MARKERS)"

section \<open>Stopping servers\<close>

definition same_int :: "int \<Rightarrow> pyval \<Rightarrow> bool" where
  "same_int n v = (case v of VInt k \<Rightarrow> k = n | VBool b \<Rightarrow> of_bool b = n | VFloat q \<Rightarrow> q = of_int n | _ \<Rightarrow> False)"

definition select_records :: "server_record list \<Rightarrow> int option \<Rightarrow> string option \<Rightarrow> server_record list" where
  "select_records records pid dht_prefix =
     filter (\<lambda>r. (case pid of None \<Rightarrow> True | Some p \<Rightarrow> same_int p (rec_pid r))
               \<and> (case dht_prefix of None \<Rightarrow> True | Some d \<Rightarrow> rec_dht_prefix r = VStr d)) records"

record classified =
  live :: "server_record list"
  stale :: "server_record list"
  foreign :: "server_record list"

definition pid_number :: "server_record \<Rightarrow> int" where
  "pid_number r = (case pid_int (rec_pid r) of Some p \<Rightarrow> p | None \<Rightarrow> 0)"

definition classify :: "(rat \<Rightarrow> string) \<Rightarrow> os \<Rightarrow> server_record list \<Rightarrow> classified res" where
  "classify show_float s records =
     rfold (\<lambda>r c.
       rbind (process_alive show_float s (rec_pid r)) (\<lambda>alive.
         Inr (if \<not> alive then c\<lparr>stale := stale c @ [r]\<rparr>
              else if looks_like_drift show_float s (rec_pid r) then c\<lparr>live := live c @ [r]\<rparr>
              else c\<lparr>foreign := foreign c @ [r]\<rparr>)))
       records \<lparr>live = [], stale = [], foreign = []\<rparr>"

text \<open>Every record that remains is tested at each poll; its pid has passed the test before, so that it does not raise.\<close>

fun wait_for_exit :: "(rat \<Rightarrow> string) \<Rightarrow> os list \<Rightarrow> server_record list \<Rightarrow> server_record list" where
  "wait_for_exit show_float [] remaining = remaining"
| "wait_for_exit show_float (s # polls) remaining =
     (if remaining = [] then []
      else wait_for_exit show_float polls (filter (\<lambda>r. pid_alive show_float s (rec_pid r)) remaining))"

text \<open>The records confirmed stopped, with the signals sent: a pid and whether it was \<open>SIGKILL\<close>.\<close>

definition stop_servers ::
  "(rat \<Rightarrow> string) \<Rightarrow> server_record list \<Rightarrow> bool \<Rightarrow> os list \<Rightarrow> os list \<Rightarrow> server_record list \<times> (int \<times> bool) list" where
  "stop_servers show_float records force polls grace_polls =
     (let asked = map (\<lambda>r. (pid_number r, force)) records;
          remaining = wait_for_exit show_float polls records;
          (left, killed) =
            (if remaining \<noteq> [] \<and> \<not> force
             then (wait_for_exit show_float grace_polls remaining, map (\<lambda>r. (pid_number r, True)) remaining)
             else (remaining, [])) in
      (filter (\<lambda>r. r \<notin> set left) records, asked @ killed))"

record down_options =
  do_pid :: "int option"
  do_dht_prefix :: "string option"
  do_list :: bool
  do_force :: bool

text \<open>\<open>Left_Running\<close> stands for \<open>SystemExit(1)\<close>.\<close>

datatype down_result =
    No_Records
  | Listed "server_record list"
  | None_Running
  | Stopped "server_record list"
  | Left_Running "server_record list"

definition unregister_all :: "(rat \<Rightarrow> string) \<Rightarrow> server_record list \<Rightarrow> run_dir \<Rightarrow> run_dir" where
  "unregister_all show_float records dir = fold (\<lambda>r. unregister_server (pid_text show_float (rec_pid r))) records dir"

definition drift_down ::
  "(rat \<Rightarrow> string) \<Rightarrow> down_options \<Rightarrow> os \<Rightarrow> os list \<Rightarrow> os list \<Rightarrow> run_dir
   \<Rightarrow> (down_result \<times> (int \<times> bool) list \<times> run_dir) res" where
  "drift_down show_float opts s polls grace_polls dir =
     rbind (iter_records dir) (\<lambda>all.
     let records = select_records all (do_pid opts) (do_dht_prefix opts) in
     if records = [] then Inr (No_Records, [], dir)
     else
       rbind (classify show_float s records) (\<lambda>groups.
       let dir1 = unregister_all show_float (foreign groups) (unregister_all show_float (stale groups) dir) in
       if do_list opts then Inr (Listed (live groups), [], dir1)
       else if live groups = [] then Inr (None_Running, [], dir1)
       else
         let (stopped, signals) = stop_servers show_float (live groups) (do_force opts) polls grace_polls;
             dir2 = unregister_all show_float stopped dir1;
             still_running = filter (\<lambda>r. r \<notin> set stopped) (live groups) in
         Inr (if still_running = [] then Stopped stopped else Left_Running still_running, signals, dir2)))"

section \<open>Running a server\<close>

text \<open>How the banner and the server loop end, and with what \<open>serve\<close> itself ends.\<close>

datatype serve_end = Returned | Interrupted | Raised exn

definition serve ::
  "int \<Rightarrow> rat \<Rightarrow> string option \<Rightarrow> string \<Rightarrow> string list \<Rightarrow> serve_end option \<Rightarrow> serve_end \<Rightarrow> run_dir \<Rightarrow> exn option \<times> run_dir list" where
  "serve pid now model dht_prefix maddrs on_ready run dir =
     (let dir1 = register_server pid now model (Some dht_prefix) maddrs dir;
          ending = (case on_ready of Some Interrupted \<Rightarrow> Interrupted | Some (Raised e) \<Rightarrow> Raised e | _ \<Rightarrow> run);
          dir2 = unregister_server (show_int pid) dir1 in
      (case ending of Raised e \<Rightarrow> Some e | _ \<Rightarrow> None, [dir1, dir2]))"

section \<open>Reading the records back\<close>

lemma rmap_Inr_set:
  "rmap f xs = Inr ys \<Longrightarrow> set ys = {y. \<exists>x \<in> set xs. f x = Inr y}"
proof (induction xs arbitrary: ys)
  case (Cons x xs)
  then obtain y zs where "f x = Inr y" "rmap f xs = Inr zs" "ys = y # zs"
    by (auto simp: rbind_Inr_iff)
  then show ?case using Cons.IH [of zs] by auto
qed simp

lemma rmap_ok_iff: "is_ok (rmap f xs) \<longleftrightarrow> (\<forall>x \<in> set xs. is_ok (f x))"
  by (induction xs) (auto simp: rbind_def is_ok_def split: sum.splits)

lemma iter_records_set:
  assumes "iter_records dir = Inr rs"
  shows "set rs = {r. \<exists>name file. (name, file) \<in> set dir \<and> glob_matches name \<and> read_record (name, file) = Inr (Some r)}"
proof -
  obtain xs where xs: "rmap read_record (sort_key fst (filter (\<lambda>e. glob_matches (fst e)) dir)) = Inr xs"
    "rs = map the (filter (\<lambda>r. r \<noteq> None) xs)"
    using assms by (auto simp: iter_records_def rbind_Inr_iff)
  have "r \<in> set rs \<longleftrightarrow> Some r \<in> set xs" for r
    unfolding xs(2) by force
  then show ?thesis using rmap_Inr_set [OF xs(1)] by auto
qed

lemma iter_records_ok_iff:
  "is_ok (iter_records dir) \<longleftrightarrow> (\<forall>entry \<in> set dir. glob_matches (fst entry) \<longrightarrow> is_ok (read_record entry))"
proof -
  have "is_ok (iter_records dir) \<longleftrightarrow> is_ok (rmap read_record (sort_key fst (filter (\<lambda>e. glob_matches (fst e)) dir)))"
    by (auto simp: iter_records_def is_ok_def rbind_def split: sum.splits)
  then show ?thesis by (auto simp: rmap_ok_iff)
qed

lemma glob_record_name: "glob_matches (record_name pid)"
  by (simp add: glob_matches_def record_name_def)

section \<open>What \<open>drift down\<close> does\<close>

lemma alive_split: "process_alive sf s v = Inr b \<Longrightarrow> pid_alive sf s v = b"
  by (simp add: pid_alive_def)

lemma alive_int: "pid_alive sf s v \<Longrightarrow> \<exists>p. pid_int v = Some p \<and> 0 < p"
  by (auto simp: pid_alive_def process_alive_def split: option.splits pyval.splits if_splits)

lemma classify_groups:
  assumes "classify sf s records = Inr c"
  shows "live c = filter (\<lambda>r. pid_alive sf s (rec_pid r) \<and> looks_like_drift sf s (rec_pid r)) records"
    and "stale c = filter (\<lambda>r. \<not> pid_alive sf s (rec_pid r)) records"
    and "foreign c = filter (\<lambda>r. pid_alive sf s (rec_pid r) \<and> \<not> looks_like_drift sf s (rec_pid r)) records"
proof -
  let ?step = "\<lambda>r c. rbind (process_alive sf s (rec_pid r)) (\<lambda>alive.
         Inr (if \<not> alive then c\<lparr>stale := stale c @ [r]\<rparr>
              else if looks_like_drift sf s (rec_pid r) then c\<lparr>live := live c @ [r]\<rparr>
              else c\<lparr>foreign := foreign c @ [r]\<rparr>))"
  have "live c' = live c0 @ filter (\<lambda>r. pid_alive sf s (rec_pid r) \<and> looks_like_drift sf s (rec_pid r)) rs
      \<and> stale c' = stale c0 @ filter (\<lambda>r. \<not> pid_alive sf s (rec_pid r)) rs
      \<and> foreign c' = foreign c0 @ filter (\<lambda>r. pid_alive sf s (rec_pid r) \<and> \<not> looks_like_drift sf s (rec_pid r)) rs"
    if "rfold ?step rs c0 = Inr c'" for rs c0 c'
    using that
  proof (induction rs arbitrary: c0)
    case (Cons r rs)
    then obtain b where b: "process_alive sf s (rec_pid r) = Inr b"
      and rest: "rfold ?step rs (if \<not> b then c0\<lparr>stale := stale c0 @ [r]\<rparr>
              else if looks_like_drift sf s (rec_pid r) then c0\<lparr>live := live c0 @ [r]\<rparr>
              else c0\<lparr>foreign := foreign c0 @ [r]\<rparr>) = Inr c'"
      by (auto simp: rbind_Inr_iff)
    show ?case using Cons.IH [OF rest] alive_split [OF b] by auto
  qed simp
  from this [OF assms [unfolded classify_def]]
  show "live c = filter (\<lambda>r. pid_alive sf s (rec_pid r) \<and> looks_like_drift sf s (rec_pid r)) records"
    and "stale c = filter (\<lambda>r. \<not> pid_alive sf s (rec_pid r)) records"
    and "foreign c = filter (\<lambda>r. pid_alive sf s (rec_pid r) \<and> \<not> looks_like_drift sf s (rec_pid r)) records" by simp_all
qed

text \<open>What remains after a wait: the records alive at every poll.\<close>

definition alive_throughout :: "(rat \<Rightarrow> string) \<Rightarrow> os list \<Rightarrow> server_record \<Rightarrow> bool" where
  "alive_throughout show_float polls r \<longleftrightarrow> list_all (\<lambda>q. pid_alive show_float q (rec_pid r)) polls"

lemma wait_for_exit_filter: "wait_for_exit sf polls rs = filter (alive_throughout sf polls) rs"
  by (induction polls arbitrary: rs) (auto simp: alive_throughout_def intro: filter_cong)

definition survives :: "(rat \<Rightarrow> string) \<Rightarrow> down_options \<Rightarrow> os list \<Rightarrow> os list \<Rightarrow> server_record \<Rightarrow> bool" where
  "survives show_float opts polls grace_polls r \<longleftrightarrow>
     alive_throughout show_float polls r \<and> (do_force opts \<or> alive_throughout show_float grace_polls r)"

lemma stop_servers_exact:
  "stop_servers sf rs (do_force opts) polls grace_polls =
     (filter (\<lambda>r. \<not> survives sf opts polls grace_polls r) rs,
      map (\<lambda>r. (pid_number r, do_force opts)) rs
      @ (if do_force opts then [] else map (\<lambda>r. (pid_number r, True)) (filter (alive_throughout sf polls) rs)))"
  by (auto simp: stop_servers_def wait_for_exit_filter survives_def Let_def filter_empty_conv intro!: filter_cong)

lemma unregister_all_map:
  "map_of (unregister_all sf rs dir) = (\<lambda>name. if name \<in> (\<lambda>r. record_name (pid_text sf (rec_pid r))) ` set rs then None else map_of dir name)"
  unfolding unregister_all_def
  by (induction rs arbitrary: dir) (auto simp: unregister_server_def delete_conv fun_eq_iff)

text \<open>The selected records by what becomes of them: running servers, those among them that do not stop,
  and the records that are to go.\<close>

definition is_running :: "(rat \<Rightarrow> string) \<Rightarrow> os \<Rightarrow> server_record \<Rightarrow> bool" where
  "is_running show_float s r \<longleftrightarrow> pid_alive show_float s (rec_pid r) \<and> looks_like_drift show_float s (rec_pid r)"

definition stays :: "(rat \<Rightarrow> string) \<Rightarrow> down_options \<Rightarrow> os \<Rightarrow> os list \<Rightarrow> os list \<Rightarrow> server_record \<Rightarrow> bool" where
  "stays show_float opts s polls grace_polls r \<longleftrightarrow>
     is_running show_float s r \<and> (do_list opts \<or> survives show_float opts polls grace_polls r)"

lemma drift_down_cases:
  assumes "drift_down sf opts s polls grace_polls dir = Inr (res, signals, dir')" "iter_records dir = Inr all"
    and "records = select_records all (do_pid opts) (do_dht_prefix opts)"
  shows "res = (if records = [] then No_Records
        else if do_list opts then Listed (filter (is_running sf s) records)
        else if filter (is_running sf s) records = [] then None_Running
        else if filter (stays sf opts s polls grace_polls) records = [] then Stopped (filter (is_running sf s) records)
        else Left_Running (filter (stays sf opts s polls grace_polls) records))"
    and "map_of dir' = (\<lambda>name. if name \<in> (\<lambda>r. record_name (pid_text sf (rec_pid r))) `
            set (filter (\<lambda>r. \<not> stays sf opts s polls grace_polls r) records) then None else map_of dir name)"
    and "signals = (if do_list opts then []
        else map (\<lambda>r. (pid_number r, do_force opts)) (filter (is_running sf s) records)
          @ (if do_force opts then []
             else map (\<lambda>r. (pid_number r, True)) (filter (alive_throughout sf polls) (filter (is_running sf s) records))))"
proof -
  let ?lives = "filter (is_running sf s) records"
  have "res = (if records = [] then No_Records
        else if do_list opts then Listed ?lives
        else if ?lives = [] then None_Running
        else if filter (stays sf opts s polls grace_polls) records = [] then Stopped ?lives
        else Left_Running (filter (stays sf opts s polls grace_polls) records))
    \<and> map_of dir' = (\<lambda>name. if name \<in> (\<lambda>r. record_name (pid_text sf (rec_pid r))) `
            set (filter (\<lambda>r. \<not> stays sf opts s polls grace_polls r) records) then None else map_of dir name)
    \<and> signals = (if do_list opts then []
        else map (\<lambda>r. (pid_number r, do_force opts)) ?lives
          @ (if do_force opts then [] else map (\<lambda>r. (pid_number r, True)) (filter (alive_throughout sf polls) ?lives)))"
  proof (cases "records = []")
    case True
    then show ?thesis using assms by (auto simp: drift_down_def)
  next
    case False
    then obtain c where c: "classify sf s records = Inr c"
      using assms by (auto simp: drift_down_def rbind_Inr_iff)
    note g = classify_groups [OF c]
    define L where "L = ?lives"
    have live: "live c = L" using g(1) by (simp add: is_running_def [abs_def] L_def)
    have st: "filter (stays sf opts s polls grace_polls) records = filter (survives sf opts polls grace_polls) ?lives" if "\<not> do_list opts"
      using that by (auto simp: stays_def intro!: filter_cong)
    have all: "filter (\<lambda>r. r \<in> set rs \<longrightarrow> P r) rs = filter P rs" for P and rs :: "server_record list"
      by (auto intro!: filter_cong)
    have stop: "filter (\<lambda>r. \<not> P r) rs = rs" if "filter P rs = []" for P and rs :: "server_record list"
      using that by (auto simp: filter_empty_conv intro!: filter_True)
    let ?dir1 = "unregister_all sf (foreign c) (unregister_all sf (stale c) dir)"
    let ?lefts = "filter (survives sf opts polls grace_polls) L"
    let ?stopped = "filter (\<lambda>r. \<not> survives sf opts polls grace_polls r) L"
    have run: "(res, signals, dir') =
      (if do_list opts then (Listed L, [], ?dir1)
       else if L = [] then (None_Running, [], ?dir1)
       else (if ?lefts = [] then Stopped ?stopped else Left_Running ?lefts,
             map (\<lambda>r. (pid_number r, do_force opts)) L
               @ (if do_force opts then [] else map (\<lambda>r. (pid_number r, True)) (filter (alive_throughout sf polls) L)),
             unregister_all sf ?stopped ?dir1))"
      using assms(1) False by (auto simp: drift_down_def Let_def assms(2) assms(3) [symmetric] c live stop_servers_exact all split: if_splits)
    have d: "map_of dir' = (\<lambda>name. if name \<in> (\<lambda>r. record_name (pid_text sf (rec_pid r))) `
            set (filter (\<lambda>r. \<not> stays sf opts s polls grace_polls r) records) then None else map_of dir name)"
    proof -
      have "{r \<in> set records. \<not> stays sf opts s polls grace_polls r} = set (foreign c) \<union> set (stale c)
          \<union> (if do_list opts then {} else set ?stopped)"
        unfolding g(2,3) L_def by (auto simp: stays_def is_running_def)
      moreover have "map_of dir' = (\<lambda>name. if name \<in> (\<lambda>r. record_name (pid_text sf (rec_pid r))) `
            (set (foreign c) \<union> set (stale c) \<union> (if do_list opts then {} else set ?stopped)) then None else map_of dir name)"
        using run by (cases "do_list opts"; cases "L = []") (auto simp: unregister_all_map fun_eq_iff)
      ultimately show ?thesis by simp
    qed
    show ?thesis
    proof (cases "do_list opts")
      case True
      then show ?thesis using run d False by (simp add: L_def [symmetric])
    next
      case go: False
      show ?thesis
      proof (cases "L = []")
        case True
        then show ?thesis using run d False go by (simp add: L_def [symmetric])
      next
        case some: False
        then have "res = (if ?lefts = [] then Stopped L else Left_Running ?lefts)"
          using run go stop [of "survives sf opts polls grace_polls" L] by simp
        moreover have "signals = map (\<lambda>r. (pid_number r, do_force opts)) L
            @ (if do_force opts then [] else map (\<lambda>r. (pid_number r, True)) (filter (alive_throughout sf polls) L))"
          using run go some by simp
        ultimately show ?thesis using d False go some by (simp add: st L_def [symmetric])
      qed
    qed
  qed
  then show "res = (if records = [] then No_Records
        else if do_list opts then Listed ?lives
        else if ?lives = [] then None_Running
        else if filter (stays sf opts s polls grace_polls) records = [] then Stopped ?lives
        else Left_Running (filter (stays sf opts s polls grace_polls) records))"
    and "map_of dir' = (\<lambda>name. if name \<in> (\<lambda>r. record_name (pid_text sf (rec_pid r))) `
            set (filter (\<lambda>r. \<not> stays sf opts s polls grace_polls r) records) then None else map_of dir name)"
    and "signals = (if do_list opts then []
        else map (\<lambda>r. (pid_number r, do_force opts)) ?lives
          @ (if do_force opts then []
             else map (\<lambda>r. (pid_number r, True)) (filter (alive_throughout sf polls) (filter (is_running sf s) records))))"
    by blast+
qed

section \<open>Properties\<close>

text \<open>C27. \<open>drift down\<close> signals only processes of selected records that were alive and did not look like something
  else when it classified them, nothing with \<open>--list\<close>, and kills by force only with \<open>--force\<close> or after the
  process was alive at every poll before the deadline.\<close>

theorem drift_down_spares_others:
  assumes "drift_down show_float opts s polls grace_polls dir = Inr (res, signals, dir')" and "(pid, forced) \<in> set signals"
  shows "\<exists>all r. iter_records dir = Inr all \<and> r \<in> set (select_records all (do_pid opts) (do_dht_prefix opts))
    \<and> pid_int (rec_pid r) = Some pid \<and> process_alive show_float s (rec_pid r) = Inr True
    \<and> looks_like_drift show_float s (rec_pid r) \<and> \<not> do_list opts
    \<and> (forced \<longrightarrow> do_force opts \<or> (\<forall>q \<in> set polls. process_alive show_float q (rec_pid r) = Inr True))"
proof -
  obtain all where all: "iter_records dir = Inr all" using assms(1) by (auto simp: drift_down_def rbind_Inr_iff)
  note signals = drift_down_cases(3) [OF assms(1) all refl]
  obtain r where r: "r \<in> set (select_records all (do_pid opts) (do_dht_prefix opts))" "is_running show_float s r" "pid_number r = pid"
    "\<not> do_list opts" "forced \<longrightarrow> do_force opts \<or> alive_throughout show_float polls r"
    using assms(2) unfolding signals by (auto split: if_splits)
  have "pid_int (rec_pid r) = Some pid"
    using r(2,3) alive_int [of show_float s "rec_pid r"] by (auto simp: is_running_def pid_number_def)
  then show ?thesis using all r
    by (auto simp: is_running_def pid_alive_def alive_throughout_def list_all_iff)
qed

text \<open>C28. \<open>drift down\<close> removes exactly the records of selected servers that are not running, among them those it
  has stopped: a record file is gone if it belongs to a selected record whose process was not alive,
  did not look like a server, or (without \<open>--list\<close>) was seen dead at a poll before the deadline or,
  without \<open>--force\<close>, in the grace period; every other file is unchanged. With \<open>--list\<close> the running
  servers are listed, and otherwise the command fails exactly when some are left, which it reports.\<close>

theorem drift_down_cleans_up:
  assumes "drift_down show_float opts s polls grace_polls dir = Inr (res, signals, dir')" and "iter_records dir = Inr all"
    and "records = select_records all (do_pid opts) (do_dht_prefix opts)"
  shows "map_of dir' = (\<lambda>name. if name \<in> (\<lambda>r. record_name (pid_text show_float (rec_pid r))) `
            set (filter (\<lambda>r. \<not> stays show_float opts s polls grace_polls r) records) then None else map_of dir name)
    \<and> res = (if records = [] then No_Records
        else if do_list opts then Listed (filter (is_running show_float s) records)
        else if filter (is_running show_float s) records = [] then None_Running
        else if filter (stays show_float opts s polls grace_polls) records = [] then Stopped (filter (is_running show_float s) records)
        else Left_Running (filter (stays show_float opts s polls grace_polls) records))"
  using drift_down_cases(1,2) [OF assms] by (rule conjI [rotated])

text \<open>A server that runs is listed with its pid, model and addresses from its registration until it ends, in
  whatever way it ends, and its record is removed then.\<close>

theorem serve_registers:
  assumes "is_ok (iter_records dir)" and "serve pid now model dht_prefix maddrs on_ready run dir = (ending, [running, ended])"
  shows "(\<exists>all r. iter_records running = Inr all \<and> r \<in> set all \<and> rec_pid r = VInt pid \<and> rec_dht_prefix r = VStr dht_prefix
      \<and> rec_maddrs r = VList (map VStr maddrs))
    \<and> record_name (show_int pid) \<notin> fst ` set ended"
proof -
  let ?items = "[(''pid'', VInt pid), (''model'', case model of None \<Rightarrow> VNone | Some m \<Rightarrow> VStr m), (''dht_prefix'', VStr dht_prefix),
    (''maddrs'', VList (map VStr maddrs)), (''started_at'', VFloat now)]"
  have running: "running = AList.update (record_name (show_int pid)) (Json (VDict ?items)) dir" and ended: "ended = unregister_server (show_int pid) running"
    using assms(2) by (auto simp: serve_def register_server_def Let_def)
  define r where "r = \<lparr>rec_pid = VInt pid, rec_model = (case model of None \<Rightarrow> VNone | Some m \<Rightarrow> VStr m), rec_dht_prefix = VStr dht_prefix,
    rec_maddrs = VList (map VStr maddrs), rec_started_at = VFloat now, rec_path = record_name (show_int pid)\<rparr>"
  have read: "read_record (record_name (show_int pid), Json (VDict ?items)) = Inr (Some r)"
    by (simp add: read_record_def record_of_fields_def r_def vget_def)
  have mem: "(record_name (show_int pid), Json (VDict ?items)) \<in> set running"
    unfolding running by (rule map_of_SomeD) (simp add: update_conv)
  have "is_ok (read_record entry)" if "entry \<in> set running" "glob_matches (fst entry)" for entry
  proof -
    from that have "entry \<in> set dir \<or> entry = (record_name (show_int pid), Json (VDict ?items))"
      unfolding running using update_subset by fastforce
    then show ?thesis using assms(1) that(2) read by (auto simp: iter_records_ok_iff)
  qed
  then have "is_ok (iter_records running)" by (simp add: iter_records_ok_iff)
  then obtain all where all: "iter_records running = Inr all" by (auto simp: is_ok_def split: sum.splits)
  then have "r \<in> set all" using iter_records_set [OF all] mem glob_record_name read by blast
  then show ?thesis using all by (auto simp: ended unregister_server_def r_def dom_map_of_conv_image_fst [symmetric] delete_conv)
qed

text \<open>One file with a value that is not a dictionary in place of a record makes every \<open>drift down\<close> fail, before
  anything is stopped or cleaned up.\<close>

theorem malformed_record_blocks_down:
  assumes "(name, Json v) \<in> set dir" "glob_matches name" "\<And>d. v \<noteq> VDict d"
  shows "\<not> is_ok (drift_down show_float opts s polls grace_polls dir)"
proof -
  have "\<not> is_ok (read_record (name, Json v))" using assms(3) by (cases v) (auto simp: read_record_def)
  then have "\<not> is_ok (iter_records dir)" using assms(1,2) iter_records_ok_iff by fastforce
  then show ?thesis by (auto simp: drift_down_def is_ok_def rbind_def split: sum.splits)
qed

section \<open>Witnesses\<close>

definition sample_run_dir :: run_dir where
  "sample_run_dir = [(''server-7.json'', Json (VDict [(''pid'', VInt 7), (''model'', VNone), (''dht_prefix'', VStr ''m'')]))]"

text \<open>One process, a Python interpreter that ignores \<open>SIGTERM\<close> until it is killed.\<close>

definition sample_os :: os where
  "sample_os = \<lparr>os_kill0 = (\<lambda>pid. if pid = 7 then Delivered else No_Such_Process), os_stat = (\<lambda>_. Some ''7 (a) b) S 1''),
     os_cmdline = (\<lambda>_. Some ''/usr/bin/python3'')\<rparr>"

definition quiet_os :: os where
  "quiet_os = sample_os\<lparr>os_kill0 := (\<lambda>_. No_Such_Process)\<rparr>"

definition down_all :: down_options where
  "down_all = \<lparr>do_pid = None, do_dht_prefix = None, do_list = False, do_force = False\<rparr>"

definition sample_record :: server_record where
  "sample_record = \<lparr>rec_pid = VInt 7, rec_model = VNone, rec_dht_prefix = VStr ''m'', rec_maddrs = VList [], rec_started_at = VFloat 0,
     rec_path = ''server-7.json''\<rparr>"

lemma sample_iter: "iter_records sample_run_dir = Inr [sample_record]"
  by (simp add: iter_records_def sample_run_dir_def glob_matches_def read_record_def record_of_fields_def vget_def sample_record_def)

definition no_floats :: "rat \<Rightarrow> string" where
  "no_floats q = ''''"

lemma sample_down:
  "drift_down no_floats down_all sample_os [sample_os] [quiet_os] sample_run_dir = Inr (Stopped [sample_record], [(7, False), (7, True)], [])"
  by code_simp

theorem drift_down_spares_others_witness:
  "\<exists>all r. iter_records sample_run_dir = Inr all \<and> r \<in> set (select_records all None None)
    \<and> pid_int (rec_pid r) = Some 7 \<and> looks_like_drift no_floats sample_os (rec_pid r)"
  using drift_down_spares_others [OF sample_down, of 7 True] by (auto simp: down_all_def)

text \<open>The same process does not stop in time: its record stays, and that of a process long gone is removed.\<close>

definition two_records :: run_dir where
  "two_records = (''server-8.json'', Json (VDict [(''pid'', VInt 8), (''model'', VNone), (''dht_prefix'', VStr ''m'')])) # sample_run_dir"

definition gone_record :: server_record where
  "gone_record = sample_record\<lparr>rec_pid := VInt 8, rec_path := ''server-8.json''\<rparr>"

lemma two_down:
  "drift_down no_floats down_all sample_os [sample_os] [sample_os] two_records
     = Inr (Left_Running [sample_record], [(7, False), (7, True)], sample_run_dir)"
  "iter_records two_records = Inr [sample_record, gone_record]"
  by code_simp+

theorem drift_down_cleans_up_witness:
  "map_of sample_run_dir = (\<lambda>name. if name \<in> (\<lambda>r. record_name (pid_text no_floats (rec_pid r))) `
            set (filter (\<lambda>r. \<not> stays no_floats down_all sample_os [sample_os] [sample_os] r) [sample_record, gone_record])
        then None else map_of two_records name)"
  using drift_down_cleans_up [OF two_down(1,2), of "[sample_record, gone_record]"]
  by (simp add: down_all_def select_records_def)

theorem serve_registers_witness:
  "\<exists>running ended. serve 7 0 None ''m'' [''a''] None Interrupted [] = (None, [running, ended])
    \<and> is_ok (iter_records running) \<and> record_name (show_int 7) \<notin> fst ` set ended"
proof -
  obtain running ended where run: "serve 7 0 None ''m'' [''a''] None Interrupted [] = (None, [running, ended])"
    by (simp add: serve_def Let_def)
  have "is_ok (iter_records [])" by (simp add: iter_records_def)
  from serve_registers [OF this run] show ?thesis using run by auto
qed

theorem malformed_record_blocks_down_witness:
  "\<not> is_ok (drift_down no_floats down_all sample_os [] [] ((''server-1.json'', Json (VList [])) # sample_run_dir))"
  by (rule malformed_record_blocks_down [of "''server-1.json''" "VList []"]) (simp_all add: glob_matches_def)

end
