(* ===== verification/Launch.thy ===== *)
theory Launch
  imports Join_Token Server_Setup
begin

text \<open>
  Models the command line: \<open>src/drift/cli/__main__.py\<close>, \<open>drift up\<close> (\<open>src/drift/cli/run_up.py\<close>) and
  \<open>server_from_args\<close> (\<open>src/drift/cli/run_server.py\<close>), which turn parsed options into the addresses, peers
  and settings a server is started with. Options that are only passed on, the guard for child processes,
  file limits and debugging aids are not represented; the size parser and the compression names of the
  library are parameters.
\<close>

section \<open>Subcommands\<close>

datatype dispatch = Usage | Unknown_Command string | Run string "string list"

definition COMMANDS :: "string list" where
  "COMMANDS = [''up'', ''down'', ''server'', ''dht'', ''api'']"

definition drift_command :: "string list \<Rightarrow> dispatch" where
  "drift_command argv =
     (case argv of
        [] \<Rightarrow> Usage
      | command # rest \<Rightarrow>
          if command \<in> {''-h'', ''--help'', ''help''} then Usage
          else if command \<notin> set COMMANDS then Unknown_Command command
          else Run command rest)"

definition exit_code :: "dispatch \<Rightarrow> int" where
  "exit_code d = (case d of Unknown_Command _ \<Rightarrow> 2 | _ \<Rightarrow> 0)"

section \<open>Server options\<close>

record launch_args =
  la_model :: "string option"
  la_converted :: "string option"
  la_host_maddrs :: "string list option"
  la_port :: "int option"
  la_announce_maddrs :: "string list option"
  la_public_ip :: "string option"
  la_compression :: string
  la_max_disk_space :: "string option"
  la_new_swarm :: bool
  la_initial_peers :: "string list option"
  la_identity_path :: "string option"
  la_quant_type :: "string option"

record 'c launch =
  ln_model :: "string option"
  ln_host_maddrs :: "string list"
  ln_announce_maddrs :: "string list option"
  ln_compression :: 'c
  ln_max_disk_space :: "int option"
  ln_initial_peers :: "string list"
  ln_identity_path :: "string option"
  ln_quant_type :: "quant_type option"

text \<open>\<open>a or b\<close> on optional strings.\<close>

definition or_else :: "string option \<Rightarrow> string option \<Rightarrow> string option" where
  "or_else a b = (case a of Some (c # cs) \<Rightarrow> a | _ \<Rightarrow> b)"

definition upper_char :: "char \<Rightarrow> char" where
  "upper_char c = (let n = (of_char c :: nat) in if 97 \<le> n \<and> n \<le> 122 then char_of (n - 32) else c)"

definition quant_type_of :: "string \<Rightarrow> quant_type res" where
  "quant_type_of s =
     (let name = map upper_char s in
      if name = ''NONE'' then Inr QNone else if name = ''INT8'' then Inr INT8
      else if name = ''NF4'' then Inr NF4 else Inl KeyError)"

definition resolve_host_maddrs :: "int option \<Rightarrow> string list option \<Rightarrow> (int \<times> string list) res" where
  "resolve_host_maddrs port host_maddrs =
     rbind (rassert (port = None \<or> host_maddrs = None) AssertionError) (\<lambda>_.
     let p = (case port of None \<Rightarrow> 0 | Some n \<Rightarrow> n) in
     Inr (p, case host_maddrs of Some ms \<Rightarrow> ms | None \<Rightarrow> [''/ip4/0.0.0.0/tcp/'' @ show_int p, ''/ip6/::/tcp/'' @ show_int p]))"

definition resolve_announce_maddrs :: "int \<Rightarrow> string option \<Rightarrow> string list option \<Rightarrow> string list option res" where
  "resolve_announce_maddrs port public_ip announce_maddrs =
     (case public_ip of
        None \<Rightarrow> Inr announce_maddrs
      | Some ip \<Rightarrow>
          rbind (rassert (announce_maddrs = None) AssertionError) (\<lambda>_.
          rbind (rassert (port \<noteq> 0) AssertionError) (\<lambda>_.
          Inr (Some [''/ip4/'' @ ip @ ''/tcp/'' @ show_int port]))))"

definition resolve_peers :: "bool \<Rightarrow> string list option \<Rightarrow> string list res" where
  "resolve_peers new_swarm initial_peers =
     (if new_swarm then Inr []
      else (case initial_peers of Some (p # ps) \<Rightarrow> Inr (p # ps) | _ \<Rightarrow> Inl ValueError))"

definition server_from_args :: "(string \<Rightarrow> int res) \<Rightarrow> (string \<Rightarrow> 'c res) \<Rightarrow> launch_args \<Rightarrow> 'c launch res" where
  "server_from_args parse_size compression_named args =
     rbind (resolve_host_maddrs (la_port args) (la_host_maddrs args)) (\<lambda>(port, host_maddrs).
     rbind (resolve_announce_maddrs port (la_public_ip args) (la_announce_maddrs args)) (\<lambda>announce_maddrs.
     rbind (compression_named (map upper_char (la_compression args))) (\<lambda>compression.
     rbind (case la_max_disk_space args of None \<Rightarrow> Inr None | Some s \<Rightarrow> rbind (parse_size s) (\<lambda>n. Inr (Some n))) (\<lambda>max_disk_space.
     rbind (resolve_peers (la_new_swarm args) (la_initial_peers args)) (\<lambda>initial_peers.
     rbind (case la_quant_type args of None \<Rightarrow> Inr None | Some q \<Rightarrow> rbind (quant_type_of q) (\<lambda>t. Inr (Some t))) (\<lambda>quant_type.
     Inr \<lparr>ln_model = or_else (la_model args) (la_converted args), ln_host_maddrs = host_maddrs, ln_announce_maddrs = announce_maddrs,
          ln_compression = compression, ln_max_disk_space = max_disk_space, ln_initial_peers = initial_peers,
          ln_identity_path = la_identity_path args, ln_quant_type = quant_type\<rparr>))))))"

section \<open>\<open>drift up\<close>\<close>

definition up_args :: "string \<Rightarrow> string option \<Rightarrow> launch_args \<Rightarrow> launch_args res" where
  "up_args default_identity join_target args =
     rbind (case join_target of
        Some (c # cs) \<Rightarrow> rbind (parse_join (c # cs)) (\<lambda>ms. Inr (args\<lparr>la_initial_peers := Some ms, la_new_swarm := False\<rparr>))
      | _ \<Rightarrow>
          if la_new_swarm args \<or> (case la_initial_peers args of Some (p # ps) \<Rightarrow> True | _ \<Rightarrow> False) then Inr args
          else Inr (args\<lparr>la_new_swarm := True\<rparr>)) (\<lambda>args'.
     Inr (if la_new_swarm args' \<and> or_else (la_identity_path args') None = None
          then args'\<lparr>la_identity_path := Some default_identity\<rparr> else args'))"

definition is_first_node :: "launch_args \<Rightarrow> bool" where
  "is_first_node args = la_new_swarm args"



section \<open>Properties\<close>

text \<open>\<open>drift up\<close> never starts a server without a swarm: after it has resolved its options, the server either is
  the first node of a new swarm and has no initial peers, or joins a swarm through at least one peer.\<close>

theorem up_always_has_swarm:
  assumes "up_args default_identity join_target args = Inr args'"
  shows "\<exists>peers. resolve_peers (la_new_swarm args') (la_initial_peers args') = Inr peers
    \<and> (peers = [] \<longleftrightarrow> is_first_node args') \<and> (is_first_node args' \<longrightarrow> la_identity_path args' \<noteq> None)"
proof -
  define step where "step = (case join_target of
        Some (c # cs) \<Rightarrow> rbind (parse_join (c # cs)) (\<lambda>ms. Inr (args\<lparr>la_initial_peers := Some ms, la_new_swarm := False\<rparr>))
      | _ \<Rightarrow>
          if la_new_swarm args \<or> (case la_initial_peers args of Some (p # ps) \<Rightarrow> True | _ \<Rightarrow> False) then Inr args
          else Inr (args\<lparr>la_new_swarm := True\<rparr>))"
  obtain a where a: "step = Inr a" "args' = (if la_new_swarm a \<and> or_else (la_identity_path a) None = None
      then a\<lparr>la_identity_path := Some default_identity\<rparr> else a)"
    using assms unfolding up_args_def step_def [symmetric] by (auto simp: rbind_Inr_iff)
  have "parse_join s = Inr ms \<Longrightarrow> ms \<noteq> []" for s ms by (auto simp: parse_join_def rbind_Inr_iff split: if_splits)
  then have "la_new_swarm a \<or> (\<exists>p ps. la_initial_peers a = Some (p # ps))"
    using a(1) by (fastforce simp: step_def rbind_Inr_iff neq_Nil_conv split: option.splits list.splits if_splits)
  moreover have "la_new_swarm a \<longrightarrow> la_identity_path args' \<noteq> None" using a(2) by (auto simp: or_else_def split: option.splits list.splits)
  moreover have "la_new_swarm args' = la_new_swarm a" "la_initial_peers args' = la_initial_peers a" using a(2) by simp_all
  ultimately show ?thesis by (auto simp: resolve_peers_def is_first_node_def)
qed





section \<open>Witnesses\<close>

definition plain_launch :: launch_args where
  "plain_launch = \<lparr>la_model = Some ''m'', la_converted = None, la_host_maddrs = None, la_port = None, la_announce_maddrs = None,
     la_public_ip = None, la_compression = ''none'', la_max_disk_space = None, la_new_swarm = False, la_initial_peers = None,
     la_identity_path = None, la_quant_type = None\<rparr>"

theorem up_always_has_swarm_witness:
  "\<exists>args' peers. up_args ''id'' None plain_launch = Inr args' \<and> resolve_peers (la_new_swarm args') (la_initial_peers args') = Inr peers
    \<and> (peers = [] \<longleftrightarrow> is_first_node args') \<and> is_first_node args'"
proof -
  have run: "up_args ''id'' None plain_launch = Inr (plain_launch\<lparr>la_new_swarm := True, la_identity_path := Some ''id''\<rparr>)"
    by (simp add: up_args_def plain_launch_def or_else_def)
  from up_always_has_swarm [OF run] run show ?thesis by (auto simp: is_first_node_def)
qed



end
