(* ===== verification/Api_Server.thy ===== *)
theory Api_Server
  imports Py_Strings
begin

text \<open>
  Models \<open>src/drift/api/server.py\<close>: the translation of OpenAI requests into generation arguments, the
  checks of the handlers, their answers, the stream of one request interleaved with the thread that
  generates, and the semaphore that limits generations. The tokenizer, its chat template and the model
  are parameters; identifiers, time stamps and JSON framing are not represented. Temperatures are rationals.
  The streamer is used as documented: a queue of pieces that the generating thread fills, with an end mark.
\<close>

section \<open>Requests\<close>

datatype stop_param = No_Stop | One_Stop string | Stop_List "string list"

text \<open>\<open>stop\<close> as a list, when it is truthy.\<close>

definition stop_list :: "stop_param \<Rightarrow> string list option" where
  "stop_list stop =
     (case stop of
        No_Stop \<Rightarrow> None
      | One_Stop s \<Rightarrow> if s = [] then None else Some [s]
      | Stop_List ss \<Rightarrow> if ss = [] then None else Some ss)"

text \<open>The text of a message; \<open>to_str\<close> stands for \<open>str\<close> of a value that is no string.\<close>

definition part_text :: "pyval \<Rightarrow> string res option" where
  "part_text part =
     (case part of
        VDict d \<Rightarrow> Some (case vget d ''text'' (VStr []) of VStr s \<Rightarrow> Inr s | _ \<Rightarrow> Inl TypeError)
      | _ \<Rightarrow> None)"

definition message_text :: "(pyval \<Rightarrow> string) \<Rightarrow> pyval \<Rightarrow> string res" where
  "message_text to_str content =
     (case content of
        VStr s \<Rightarrow> Inr s
      | VList parts \<Rightarrow> rbind (rmap the (filter (\<lambda>t. t \<noteq> None) (map part_text parts))) (\<lambda>ts. Inr (concat ts))
      | v \<Rightarrow> Inr (to_str v))"

record generate_kwargs =
  gk_max_new_tokens :: int
  gk_do_sample :: bool
  gk_temperature :: "rat option"
  gk_top_p :: "rat option"
  gk_stop_strings :: "string list option"

definition DEFAULT_MAX_TOKENS :: int where "DEFAULT_MAX_TOKENS = 512"

definition build_generate_kwargs ::
  "int option \<Rightarrow> rat option \<Rightarrow> rat option \<Rightarrow> stop_param \<Rightarrow> int \<Rightarrow> generate_kwargs" where
  "build_generate_kwargs max_tokens temperature top_p stop default_max_tokens =
     (let greedy = (case temperature of None \<Rightarrow> False | Some t \<Rightarrow> t \<le> 0) in
      \<lparr>gk_max_new_tokens = (case max_tokens of None \<Rightarrow> default_max_tokens | Some n \<Rightarrow> n),
       gk_do_sample = (\<not> greedy), gk_temperature = (if greedy then None else temperature),
       gk_top_p = (if greedy then None else top_p), gk_stop_strings = stop_list stop\<rparr>)"

definition trim_at :: "string \<Rightarrow> string \<Rightarrow> string" where
  "trim_at stop_string text = (case find_str stop_string text of None \<Rightarrow> text | Some i \<Rightarrow> take i text)"

definition trim_stop_strings :: "string \<Rightarrow> stop_param \<Rightarrow> string" where
  "trim_stop_strings text stop = (case stop_list stop of None \<Rightarrow> text | Some ss \<Rightarrow> fold trim_at ss text)"

section \<open>Handlers\<close>

datatype 'a answer = Http_Error nat | Answered 'a | Failed exn

definition authorized :: "string list option \<Rightarrow> string option \<Rightarrow> bool" where
  "authorized api_keys header =
     (case api_keys of
        Some (k # ks) \<Rightarrow>
          let auth = (case header of None \<Rightarrow> [] | Some h \<Rightarrow> h) in
          take 7 auth = ''Bearer '' \<and> drop 7 auth \<in> set (k # ks)
      | _ \<Rightarrow> True)"

record completion =
  co_text :: string
  co_finish_reason :: string
  co_prompt_tokens :: int
  co_completion_tokens :: int
  co_total_tokens :: int

definition finish_reason :: "int \<Rightarrow> generate_kwargs \<Rightarrow> string" where
  "finish_reason completion_tokens kw = (if gk_max_new_tokens kw \<le> completion_tokens then ''length'' else ''stop'')"

text \<open>What the model and the tokenizer do: generation, and decoding of the new tokens.\<close>

record engine =
  en_generate :: "int list \<Rightarrow> generate_kwargs \<Rightarrow> int list res"
  en_decode :: "int list \<Rightarrow> string"

definition complete :: "engine \<Rightarrow> int list \<Rightarrow> generate_kwargs \<Rightarrow> stop_param \<Rightarrow> completion res" where
  "complete en input_ids kw stop =
     rbind (en_generate en input_ids kw) (\<lambda>output_ids.
     let n = int (length input_ids); m = int (length output_ids) - n in
     Inr \<lparr>co_text = trim_stop_strings (en_decode en (drop (length input_ids) output_ids)) stop,
          co_finish_reason = finish_reason m kw, co_prompt_tokens = n, co_completion_tokens = m, co_total_tokens = n + m\<rparr>)"

record sampling =
  sa_max_tokens :: "int option"
  sa_temperature :: "rat option"
  sa_top_p :: "rat option"
  sa_stop :: stop_param
  sa_n :: int

definition answer_with :: "engine \<Rightarrow> int list res \<Rightarrow> int option \<Rightarrow> sampling \<Rightarrow> int \<Rightarrow> completion answer" where
  "answer_with en input_ids max_tokens body default_max_tokens =
     (case rbind input_ids (\<lambda>ids.
        complete en ids (build_generate_kwargs max_tokens (sa_temperature body) (sa_top_p body) (sa_stop body) default_max_tokens) (sa_stop body)) of
        Inl e \<Rightarrow> Failed e
      | Inr c \<Rightarrow> Answered c)"

text \<open>The two handlers without streaming; the messages are roles with their contents.\<close>

definition chat_completions ::
  "engine \<Rightarrow> ((string \<times> string) list \<Rightarrow> int list res) \<Rightarrow> (pyval \<Rightarrow> string) \<Rightarrow> string list option \<Rightarrow> int \<Rightarrow> string option
   \<Rightarrow> (string \<times> pyval) list \<Rightarrow> int option \<Rightarrow> sampling \<Rightarrow> completion answer" where
  "chat_completions en template to_str api_keys default_max_tokens header messages max_completion_tokens body =
     (if \<not> authorized api_keys header then Http_Error 401
      else if sa_n body \<noteq> 1 then Http_Error 400
      else answer_with en
             (rbind (rmap (\<lambda>(role, content). rbind (message_text to_str content) (\<lambda>t. Inr (role, t))) messages) template)
             (case sa_max_tokens body of None \<Rightarrow> max_completion_tokens | Some n \<Rightarrow> Some n) body default_max_tokens)"

datatype prompt_param = Prompt string | Prompts "string list"

definition completions ::
  "engine \<Rightarrow> (string \<Rightarrow> int list res) \<Rightarrow> string list option \<Rightarrow> int \<Rightarrow> string option \<Rightarrow> prompt_param \<Rightarrow> sampling \<Rightarrow> completion answer" where
  "completions en tokenize api_keys default_max_tokens header prompt body =
     (if \<not> authorized api_keys header then Http_Error 401
      else if sa_n body \<noteq> 1 then Http_Error 400
      else (case prompt of
        Prompt p \<Rightarrow> answer_with en (tokenize p) (sa_max_tokens body) body default_max_tokens
      | Prompts [p] \<Rightarrow> answer_with en (tokenize p) (sa_max_tokens body) body default_max_tokens
      | Prompts _ \<Rightarrow> Http_Error 400))"

section \<open>The stream of one request\<close>

text \<open>
  \<open>sse_stream\<close> polls the streamer while a worker thread runs \<open>generate\<close>. The thread puts pieces and the
  end mark into the queue and is then done, or fails at any moment.
\<close>

datatype stream_pc = Polling | Poll_Timed_Out | Ended_By_Mark | Ended_By_Check

record gen_stream =
  gs_todo :: "string list"
  gs_queue :: "string option list"
  gs_marked :: bool
  gs_failed :: bool
  gs_done :: bool
  gs_sent :: "string list"
  gs_pc :: stream_pc

definition start_stream :: "string list \<Rightarrow> gen_stream" where
  "start_stream pieces =
     \<lparr>gs_todo = pieces, gs_queue = [], gs_marked = False, gs_failed = False, gs_done = False, gs_sent = [], gs_pc = Polling\<rparr>"

inductive stream_step :: "gen_stream \<Rightarrow> gen_stream \<Rightarrow> bool" where
  put: "gs_todo s = p # ps \<Longrightarrow> \<not> gs_done s \<Longrightarrow> stream_step s (s\<lparr>gs_todo := ps, gs_queue := gs_queue s @ [Some p]\<rparr>)"
| mark: "gs_todo s = [] \<Longrightarrow> \<not> gs_marked s \<Longrightarrow> \<not> gs_done s
    \<Longrightarrow> stream_step s (s\<lparr>gs_marked := True, gs_queue := gs_queue s @ [None]\<rparr>)"
| finish: "gs_marked s \<Longrightarrow> \<not> gs_done s \<Longrightarrow> stream_step s (s\<lparr>gs_done := True\<rparr>)"
| crash: "\<not> gs_done s \<Longrightarrow> stream_step s (s\<lparr>gs_done := True, gs_failed := True\<rparr>)"
| receive: "gs_pc s = Polling \<Longrightarrow> gs_queue s = Some p # q
    \<Longrightarrow> stream_step s (s\<lparr>gs_queue := q, gs_sent := (if p = [] then gs_sent s else gs_sent s @ [p])\<rparr>)"
| end_mark: "gs_pc s = Polling \<Longrightarrow> gs_queue s = None # q \<Longrightarrow> stream_step s (s\<lparr>gs_queue := q, gs_pc := Ended_By_Mark\<rparr>)"
| time_out: "gs_pc s = Polling \<Longrightarrow> gs_queue s = [] \<Longrightarrow> stream_step s (s\<lparr>gs_pc := Poll_Timed_Out\<rparr>)"
| give_up: "gs_pc s = Poll_Timed_Out \<Longrightarrow> gs_done s \<Longrightarrow> stream_step s (s\<lparr>gs_pc := Ended_By_Check\<rparr>)"
| poll_again: "gs_pc s = Poll_Timed_Out \<Longrightarrow> \<not> gs_done s \<Longrightarrow> stream_step s (s\<lparr>gs_pc := Polling\<rparr>)"

section \<open>The limit on generations\<close>

text \<open>
  A request waits for the semaphore, generates in a thread while holding it, and gives it back after the
  thread has ended. When the client goes away the handler is cancelled and gives it back at once; the
  thread runs on.
\<close>

datatype request_phase = Queued | Generating | Draining | Abandoned | Gone

record gate =
  ga_permits :: nat
  ga_requests :: "request_phase list"

definition open_gate :: "nat \<Rightarrow> nat \<Rightarrow> gate" where
  "open_gate max_concurrent n = \<lparr>ga_permits = max_concurrent, ga_requests = replicate n Queued\<rparr>"

abbreviation moved :: "gate \<Rightarrow> nat \<Rightarrow> request_phase \<Rightarrow> gate" where
  "moved g i p \<equiv> g\<lparr>ga_requests := (ga_requests g)[i := p]\<rparr>"

abbreviation in_phase :: "gate \<Rightarrow> nat \<Rightarrow> request_phase \<Rightarrow> bool" where
  "in_phase g i p \<equiv> i < length (ga_requests g) \<and> ga_requests g ! i = p"

text \<open>The flag says whether clients may go away.\<close>

inductive gate_step :: "bool \<Rightarrow> gate \<Rightarrow> gate \<Rightarrow> bool" for leaving :: bool where
  acquire: "in_phase g i Queued \<Longrightarrow> ga_permits g = Suc n \<Longrightarrow> gate_step leaving g ((moved g i Generating)\<lparr>ga_permits := n\<rparr>)"
| generated: "in_phase g i Generating \<Longrightarrow> gate_step leaving g (moved g i Draining)"
| release: "in_phase g i Draining \<Longrightarrow> gate_step leaving g ((moved g i Gone)\<lparr>ga_permits := Suc (ga_permits g)\<rparr>)"
| orphan_ends: "in_phase g i Abandoned \<Longrightarrow> gate_step leaving g (moved g i Gone)"
| leave_queue: "leaving \<Longrightarrow> in_phase g i Queued \<Longrightarrow> gate_step leaving g (moved g i Gone)"
| leave_generating: "leaving \<Longrightarrow> in_phase g i Generating
    \<Longrightarrow> gate_step leaving g ((moved g i Abandoned)\<lparr>ga_permits := Suc (ga_permits g)\<rparr>)"
| leave_draining: "leaving \<Longrightarrow> in_phase g i Draining
    \<Longrightarrow> gate_step leaving g ((moved g i Gone)\<lparr>ga_permits := Suc (ga_permits g)\<rparr>)"

definition running_generations :: "gate \<Rightarrow> nat" where
  "running_generations g = length (filter (\<lambda>p. p = Generating \<or> p = Abandoned) (ga_requests g))"

section \<open>Properties\<close>

lemma trim_at_cut: "trim_at st t = t \<or> (\<exists>rest. t = trim_at st t @ st @ rest)"
proof (cases "find_str st t")
  case (Some i)
  then obtain rest where "drop i t = st @ rest" using find_str_at by blast
  then have "t = take i t @ st @ rest" using append_take_drop_id [of i t] by simp
  moreover have "trim_at st t = take i t" using Some by (simp add: trim_at_def)
  ultimately show ?thesis by (intro disjI2 exI [of _ rest]) simp
qed (simp add: trim_at_def)

lemma trim_at_empty: "trim_at st [] = []" "trim_at [] t = []"
  by (cases t; cases st; simp add: trim_at_def)+

lemma fold_trim_empty: "fold trim_at ss [] = []"
  by (induction ss) (simp_all add: trim_at_empty)

text \<open>C35. The text of an answer is cut exactly where a stop string begins: trimming keeps all of the generated
  text, or the part before an occurrence of one of the stop strings, and no non-empty stop string is
  left in what it keeps; it keeps everything when none occurred, and nothing if one of them is empty.\<close>

theorem stop_strings_trimmed:
  assumes "stop_list stop = Some ss"
  shows "(trim_stop_strings text stop = text \<or> (\<exists>st \<in> set ss. \<exists>rest. text = trim_stop_strings text stop @ st @ rest))
    \<and> (\<forall>st \<in> set ss. st \<noteq> [] \<longrightarrow> \<not> occurs_in st (trim_stop_strings text stop))
    \<and> ((\<forall>st \<in> set ss. \<not> occurs_in st text) \<longrightarrow> trim_stop_strings text stop = text)
    \<and> ([] \<in> set ss \<longrightarrow> trim_stop_strings text stop = [])"
proof -
  have one: "st \<noteq> [] \<Longrightarrow> \<not> occurs_in st (trim_at st t)" "\<not> occurs_in st t \<Longrightarrow> trim_at st t = t" for st t
    using find_str_first [of st t] find_str_None_iff [of st t]
    by (auto simp: trim_at_def split: option.splits)
  have "(fold trim_at ss t = t \<or> (\<exists>st \<in> set ss. \<exists>rest. t = fold trim_at ss t @ st @ rest))
    \<and> (\<forall>st \<in> set ss. st \<noteq> [] \<longrightarrow> \<not> occurs_in st (fold trim_at ss t))
    \<and> ((\<forall>st \<in> set ss. \<not> occurs_in st t) \<longrightarrow> fold trim_at ss t = t)
    \<and> ([] \<in> set ss \<longrightarrow> fold trim_at ss t = [])" for t
  proof (induction ss arbitrary: t)
    case (Cons st ss)
    let ?u = "trim_at st t" and ?v = "fold trim_at ss (trim_at st t)"
    obtain r1 where r1: "t = ?u @ r1" using trim_at_cut [of st t] by (metis append.right_neutral)
    obtain r2 where r2: "?u = ?v @ r2" using Cons.IH [of ?u] by (metis append.right_neutral)
    have "?v = t \<or> (\<exists>st' \<in> set (st # ss). \<exists>rest. t = ?v @ st' @ rest)"
    proof (cases "?v = ?u")
      case True
      then show ?thesis using trim_at_cut [of st t] by auto
    next
      case False
      then obtain st' rest where st': "st' \<in> set ss" "?u = ?v @ st' @ rest" using Cons.IH [of ?u] by auto
      then have "t = ?v @ st' @ (rest @ r1)" using r1 by (metis append.assoc)
      then show ?thesis using st'(1) by auto
    qed
    moreover have "st \<noteq> [] \<Longrightarrow> \<not> occurs_in st ?v" using one(1) [of st t] occurs_in_prefix r2 by metis
    moreover have "\<not> occurs_in st' ?u" if "\<not> occurs_in st' t" for st' using that occurs_in_prefix r1 by metis
    moreover have "?v = []" if "[] \<in> set (st # ss)"
      using that Cons.IH [of ?u] fold_trim_empty by (cases "st = []") (auto simp: trim_at_empty)
    ultimately show ?case using Cons.IH [of ?u] one(2) [of st t] by auto
  qed simp
  then show ?thesis using assms by (simp add: trim_stop_strings_def)
qed

text \<open>The queue holds the pieces that were put and not yet received, and the mark last.\<close>

definition stream_ok :: "string list \<Rightarrow> gen_stream \<Rightarrow> bool" where
  "stream_ok pieces s \<longleftrightarrow>
     (\<exists>waiting. gs_queue s = map Some waiting @ (if gs_marked s \<and> gs_pc s \<noteq> Ended_By_Mark then [None] else [])
        \<and> concat pieces = concat (gs_sent s) @ concat waiting @ concat (gs_todo s)
        \<and> (gs_marked s \<longrightarrow> gs_todo s = []) \<and> (gs_pc s = Ended_By_Mark \<longrightarrow> gs_marked s \<and> waiting = []))"

lemma stream_ok_step:
  assumes "stream_step s s'" "stream_ok pieces s"
  shows "stream_ok pieces s'"
  using assms
proof cases
  case (receive p q)
  then show ?thesis using assms(2)
    by (auto simp: stream_ok_def Cons_eq_append_conv Cons_eq_map_conv split: if_splits)
next
  case (end_mark q)
  then show ?thesis using assms(2)
    by (auto simp: stream_ok_def Cons_eq_append_conv Cons_eq_map_conv split: if_splits)
next
  case (put p ps)
  obtain waiting where w: "gs_queue s = map Some waiting @ (if gs_marked s \<and> gs_pc s \<noteq> Ended_By_Mark then [None] else [])"
    "concat pieces = concat (gs_sent s) @ concat waiting @ concat (gs_todo s)"
    "gs_marked s \<longrightarrow> gs_todo s = []" "gs_pc s = Ended_By_Mark \<longrightarrow> gs_marked s \<and> waiting = []"
    using assms(2) unfolding stream_ok_def by blast
  then have "\<not> gs_marked s" using put(2) by auto
  then show ?thesis using w put unfolding stream_ok_def by (intro exI [of _ "waiting @ [p]"]) auto
qed (auto simp: stream_ok_def split: if_splits)

lemma stream_ok_reachable: "stream_step\<^sup>*\<^sup>* (start_stream pieces) s \<Longrightarrow> stream_ok pieces s"
proof (induction rule: rtranclp_induct)
  case base
  show ?case by (simp add: stream_ok_def start_stream_def)
qed (rule stream_ok_step)

text \<open>C32. In every interleaving with the generating thread the text sent to the client is a prefix of the generated
  text, and all of it when the stream ended with the end mark.\<close>

theorem stream_sends_prefix:
  assumes "stream_step\<^sup>*\<^sup>* (start_stream pieces) s"
  shows "(\<exists>rest. concat pieces = concat (gs_sent s) @ rest)
    \<and> (gs_pc s = Ended_By_Mark \<longrightarrow> concat (gs_sent s) = concat pieces)"
  using stream_ok_reachable [OF assms] by (auto simp: stream_ok_def)

lemma stream_runs_on:
  "gs_pc s = Poll_Timed_Out \<Longrightarrow> \<not> gs_done s \<Longrightarrow> gs_todo s = pieces \<Longrightarrow> \<not> gs_marked s
    \<Longrightarrow> \<exists>s'. stream_step\<^sup>*\<^sup>* s s' \<and> gs_pc s' = Ended_By_Check \<and> gs_done s' \<and> gs_failed s' = gs_failed s \<and> gs_sent s' = gs_sent s
      \<and> gs_marked s'"
proof (induction pieces arbitrary: s)
  case Nil
  let ?s1 = "s\<lparr>gs_marked := True, gs_queue := gs_queue s @ [None]\<rparr>"
  have "stream_step s ?s1" using Nil by (intro mark) simp_all
  moreover have "stream_step ?s1 (?s1\<lparr>gs_done := True\<rparr>)" using Nil by (intro finish) simp_all
  moreover have "stream_step (?s1\<lparr>gs_done := True\<rparr>) (?s1\<lparr>gs_done := True, gs_pc := Ended_By_Check\<rparr>)"
    using give_up [of "?s1\<lparr>gs_done := True\<rparr>"] Nil by simp
  ultimately have "stream_step\<^sup>*\<^sup>* s (?s1\<lparr>gs_done := True, gs_pc := Ended_By_Check\<rparr>)"
    by (meson r_into_rtranclp rtranclp_trans)
  then show ?case by (intro exI [of _ "?s1\<lparr>gs_done := True, gs_pc := Ended_By_Check\<rparr>"]) simp
next
  case (Cons p ps)
  let ?s1 = "s\<lparr>gs_todo := ps, gs_queue := gs_queue s @ [Some p]\<rparr>"
  have "stream_step s ?s1" using Cons.prems by (intro put) simp_all
  moreover obtain s' where "stream_step\<^sup>*\<^sup>* ?s1 s' \<and> gs_pc s' = Ended_By_Check \<and> gs_done s' \<and> gs_failed s' = gs_failed s
      \<and> gs_sent s' = gs_sent s \<and> gs_marked s'" using Cons.IH [of ?s1] Cons.prems by auto
  ultimately show ?case by (meson converse_rtranclp_into_rtranclp)
qed

text \<open>A stream can end without error and lose all text of a successful generation: a poll times out, the thread
  then puts all pieces and is done, and the handler, which looks only at whether it is done, stops reading.\<close>

theorem stream_drops_text:
  "\<exists>s. stream_step\<^sup>*\<^sup>* (start_stream pieces) s \<and> gs_pc s = Ended_By_Check \<and> gs_done s \<and> \<not> gs_failed s \<and> gs_marked s \<and> gs_sent s = []"
proof -
  let ?s1 = "(start_stream pieces)\<lparr>gs_pc := Poll_Timed_Out\<rparr>"
  have "stream_step (start_stream pieces) ?s1" by (rule time_out) (simp_all add: start_stream_def)
  moreover obtain s where "stream_step\<^sup>*\<^sup>* ?s1 s" "gs_pc s = Ended_By_Check" "gs_done s" "\<not> gs_failed s" "gs_sent s = []" "gs_marked s"
    using stream_runs_on [of ?s1 pieces] by (auto simp: start_stream_def)
  ultimately show ?thesis by (meson converse_rtranclp_into_rtranclp)
qed

section \<open>Properties of the limit\<close>

lemma filter_length_update:
  "i < length ps \<Longrightarrow> length (filter P (ps[i := p])) + (if P (ps ! i) then 1 else 0) = length (filter P ps) + (if P p then 1 else 0)"
proof (induction ps arbitrary: i)
  case (Cons q ps)
  show ?case
  proof (cases i)
    case (Suc j)
    then show ?thesis using Cons.IH [of j] Cons.prems by (simp split: if_splits)
  qed simp
qed simp

definition holding :: "gate \<Rightarrow> nat" where
  "holding g = length (filter (\<lambda>p. p = Generating \<or> p = Draining) (ga_requests g))"

lemma gate_step_holding:
  assumes "gate_step leaving g g'"
  shows "ga_permits g' + holding g' = ga_permits g + holding g"
proof -
  note update = filter_length_update [of _ "ga_requests g" "\<lambda>p. p = Generating \<or> p = Draining"]
  from assms show ?thesis
  proof cases
    case (acquire i n)
    then show ?thesis using update [of i Generating] by (simp add: holding_def)
  next
    case (generated i)
    then show ?thesis using update [of i Draining] by (simp add: holding_def)
  next
    case (release i)
    then show ?thesis using update [of i Gone] by (simp add: holding_def)
  next
    case (orphan_ends i)
    then show ?thesis using update [of i Gone] by (simp add: holding_def)
  next
    case (leave_queue i)
    then show ?thesis using update [of i Gone] by (simp add: holding_def)
  next
    case (leave_generating i)
    then show ?thesis using update [of i Abandoned] by (simp add: holding_def)
  next
    case (leave_draining i)
    then show ?thesis using update [of i Gone] by (simp add: holding_def)
  qed
qed

lemma gate_reachable:
  assumes "(gate_step leaving)\<^sup>*\<^sup>* (open_gate max_concurrent n) g"
  shows "ga_permits g + holding g = max_concurrent" "\<not> leaving \<Longrightarrow> Abandoned \<notin> set (ga_requests g)"
proof -
  show "ga_permits g + holding g = max_concurrent"
    using assms by (induction rule: rtranclp_induct) (simp_all add: gate_step_holding, simp add: open_gate_def holding_def)
  show "Abandoned \<notin> set (ga_requests g)" if "\<not> leaving"
    using assms
  proof (induction rule: rtranclp_induct)
    case (step g g')
    from step(2) show ?case using step(3) that by cases (auto dest!: set_update_subset_insert [THEN subsetD])
  qed (simp add: open_gate_def)
qed

text \<open>C33. As long as no client goes away, at most \<open>max_concurrent\<close> generations run at any time, and every permit is held
  by a request or free.\<close>

theorem generations_limited:
  assumes "(gate_step False)\<^sup>*\<^sup>* (open_gate max_concurrent n) g"
  shows "running_generations g \<le> max_concurrent \<and> ga_permits g + holding g = max_concurrent"
proof -
  have "filter (\<lambda>p. p = Generating \<or> p = Abandoned) (ga_requests g) = filter (\<lambda>p. p = Generating) (ga_requests g)"
    using gate_reachable(2) [OF assms] by (auto intro!: filter_cong)
  moreover have "length (filter (\<lambda>p. p = Generating) ps) \<le> length (filter (\<lambda>p. p = Generating \<or> p = Draining) ps)" for ps
    by (induction ps) auto
  ultimately have "running_generations g \<le> holding g" by (simp add: running_generations_def holding_def)
  then show ?thesis using gate_reachable(1) [OF assms] by simp
qed

text \<open>A client that goes away frees its permit while its generation runs on: every number of generations can run
  at the same time with a limit of one.\<close>

theorem generations_unlimited:
  "\<exists>g. (gate_step True)\<^sup>*\<^sup>* (open_gate 1 n) g \<and> running_generations g = n"
proof -
  have "\<exists>g. (gate_step True)\<^sup>*\<^sup>* (open_gate 1 n) g \<and> ga_permits g = 1 \<and> ga_requests g = replicate k Abandoned @ replicate (n - k) Queued"
    if "k \<le> n" for k
    using that
  proof (induction k)
    case 0
    show ?case by (rule exI [of _ "open_gate 1 n"]) (simp add: open_gate_def)
  next
    case (Suc k)
    then obtain g where g: "(gate_step True)\<^sup>*\<^sup>* (open_gate 1 n) g" "ga_permits g = 1"
      "ga_requests g = replicate k Abandoned @ replicate (n - k) Queued" by auto
    obtain m where m: "n - k = Suc m" "n - Suc k = m" using Suc.prems by (cases "n - k") auto
    let ?g1 = "(moved g k Generating)\<lparr>ga_permits := 0\<rparr>"
    let ?g2 = "(moved ?g1 k Abandoned)\<lparr>ga_permits := Suc (ga_permits ?g1)\<rparr>"
    have "gate_step True g ?g1" by (rule acquire) (simp_all add: g(2,3) m nth_append)
    moreover have "gate_step True ?g1 ?g2" by (rule leave_generating) (simp_all add: g(3) m nth_append)
    moreover have "ga_requests ?g2 = replicate (Suc k) Abandoned @ replicate m Queued"
      by (simp add: g(3) m list_update_append replicate_app_Cons_same)
    ultimately show ?case using g(1) m(2) by (intro exI [of _ ?g2]) auto
  qed
  from this [of n] obtain g where "(gate_step True)\<^sup>*\<^sup>* (open_gate 1 n) g" "ga_requests g = replicate n Abandoned" by auto
  then show ?thesis by (auto simp: running_generations_def)
qed

section \<open>Witnesses\<close>

theorem stop_strings_trimmed_witness:
  "\<exists>st \<in> {''END'', ''no''}. \<exists>rest. ''yes END no'' = trim_stop_strings ''yes END no'' (Stop_List [''END'', ''no'']) @ st @ rest"
proof -
  have "trim_stop_strings ''yes END no'' (Stop_List [''END'', ''no'']) \<noteq> ''yes END no''" by code_simp
  then show ?thesis
    using stop_strings_trimmed [of "Stop_List [''END'', ''no'']" "[''END'', ''no'']" "''yes END no''"] by (simp add: stop_list_def)
qed

theorem stream_sends_prefix_witness:
  "\<exists>rest. concat [''ab'', ''c''] = concat (gs_sent ((start_stream [''ab'', ''c''])\<lparr>gs_todo := [''c''], gs_sent := [''ab'']\<rparr>)) @ rest"
proof -
  let ?s = "start_stream [''ab'', ''c'']" and ?s1 = "(start_stream [''ab'', ''c''])\<lparr>gs_todo := [''c''], gs_queue := [Some ''ab'']\<rparr>"
  have "stream_step ?s ?s1" using put [of ?s "''ab''" "[''c'']"] by (simp add: start_stream_def)
  moreover have "stream_step ?s1 (?s1\<lparr>gs_queue := [], gs_sent := [''ab'']\<rparr>)"
    using receive [of ?s1 "''ab''" "[]"] by (simp add: start_stream_def)
  ultimately have "stream_step\<^sup>*\<^sup>* ?s (?s1\<lparr>gs_queue := [], gs_sent := [''ab'']\<rparr>)" by (meson r_into_rtranclp rtranclp_trans)
  from stream_sends_prefix [OF this] show ?thesis by (simp add: start_stream_def)
qed

theorem generations_limited_witness:
  "running_generations \<lparr>ga_permits = 0, ga_requests = [Generating, Queued]\<rparr> \<le> 1"
proof -
  have "gate_step False (open_gate 1 2) \<lparr>ga_permits = 0, ga_requests = [Generating, Queued]\<rparr>"
    using acquire [of 0 "open_gate 1 2" 0 False] by (simp add: open_gate_def numeral_2_eq_2)
  from generations_limited [OF r_into_rtranclp, OF this] show ?thesis by simp
qed

end
