(* ===== verification/Disk_Cache.thy ===== *)
theory Disk_Cache
  imports Drift_Prelude
begin

text \<open>
  Models \<open>src/drift/utils/disk_cache.py\<close>: finding a file of a model and freeing disk space before a block is
  loaded. What the hub library finds in its cache, downloads and the free space of the volume are
  parameters; a disk is the list of the paths that exist. The reader and writer locks are not represented.
\<close>

section \<open>Files of a repository\<close>

datatype download = Downloaded string | Entry_Not_Found | Download_Failed exn

definition get_file_from_repo ::
  "(string \<Rightarrow> bool) \<Rightarrow> (string \<Rightarrow> bool) \<Rightarrow> (string \<Rightarrow> string \<Rightarrow> download) \<Rightarrow> string \<Rightarrow> string \<Rightarrow> string option res" where
  "get_file_from_repo is_dir is_file hub_download repo_id filename =
     (if is_dir repo_id
      then
        let candidate = (if take 1 filename = ''/'' then filename
                         else if repo_id = [] \<or> last repo_id = CHR ''/'' then repo_id @ filename
                         else repo_id @ ''/'' @ filename) in
        Inr (if is_file candidate then Some candidate else None)
      else
        (case hub_download repo_id filename of
           Downloaded p \<Rightarrow> Inr (Some p)
         | Entry_Not_Found \<Rightarrow> Inr None
         | Download_Failed e \<Rightarrow> Inl e))"

section \<open>Freeing space\<close>

record cached_file =
  cf_path :: string
  cf_blob :: string
  cf_size :: int
  cf_accessed :: rat

record cache_info =
  ci_repos :: "cached_file list list list"
  ci_size_on_disk :: int

definition os_quota :: int where "os_quota = 1024 ^ 3"

text \<open>\<open>os.remove\<close> fails on a path that does not exist.\<close>

definition remove_path :: "string \<Rightarrow> string list \<Rightarrow> unit res \<times> string list" where
  "remove_path p disk = (if p \<in> set disk then (Inr (), filter (\<lambda>q. q \<noteq> p) disk) else (Inl OSError, disk))"

text \<open>The loop over the files: the space freed, or the error, with the disk it leaves.\<close>

fun remove_files :: "int \<Rightarrow> int \<Rightarrow> cached_file list \<Rightarrow> string list \<Rightarrow> int res \<times> string list" where
  "remove_files needed freed [] disk = (Inr freed, disk)"
| "remove_files needed freed (f # fs) disk =
     (case remove_path (cf_path f) disk of
        (Inl e, disk1) \<Rightarrow> (Inl e, disk1)
      | (Inr _, disk1) \<Rightarrow>
          (case remove_path (cf_blob f) disk1 of
             (Inl e, disk2) \<Rightarrow> (Inl e, disk2)
           | (Inr _, disk2) \<Rightarrow>
               let freed' = freed + cf_size f in
               if needed \<le> freed' then (Inr freed', disk2) else remove_files needed freed' fs disk2))"

definition available_space :: "int \<Rightarrow> int option \<Rightarrow> cache_info \<Rightarrow> int" where
  "available_space disk_free max_disk_space info =
     (let free = disk_free - os_quota in
      case max_disk_space of None \<Rightarrow> free | Some m \<Rightarrow> min free (m - ci_size_on_disk info))"

definition cached_files :: "cache_info \<Rightarrow> cached_file list" where
  "cached_files info = concat (concat (ci_repos info))"

definition free_disk_space_for ::
  "int \<Rightarrow> int \<Rightarrow> int option \<Rightarrow> cache_info \<Rightarrow> string list \<Rightarrow> unit res \<times> string list" where
  "free_disk_space_for size_needed disk_free max_disk_space info disk =
     (let available = available_space disk_free max_disk_space info in
      if size_needed \<le> available then (Inr (), disk)
      else
        let extra = size_needed - available in
        (case remove_files extra 0 (sort_key cf_accessed (cached_files info)) disk of
           (Inl e, disk') \<Rightarrow> (Inl e, disk')
         | (Inr freed, disk') \<Rightarrow> (if freed < extra then Inl RuntimeError else Inr (), disk')))"

section \<open>What is removed\<close>

definition paths_of :: "cached_file list \<Rightarrow> string list" where
  "paths_of fs = concat (map (\<lambda>f. [cf_path f, cf_blob f]) fs)"

lemma paths_of_simps [simp]: "paths_of [] = []" "paths_of (f # fs) = cf_path f # cf_blob f # paths_of fs"
  "paths_of (fs @ gs) = paths_of fs @ paths_of gs"
  by (simp_all add: paths_of_def)

text \<open>The disk after the first \<open>n\<close> files, their space, and whether the next one can be removed from it: its link
  and its contents still exist, and are not the same path.\<close>

definition disk_after :: "cached_file list \<Rightarrow> string list \<Rightarrow> nat \<Rightarrow> string list" where
  "disk_after fs disk n = filter (\<lambda>p. p \<notin> set (paths_of (take n fs))) disk"

definition space_of :: "cached_file list \<Rightarrow> nat \<Rightarrow> int" where
  "space_of fs n = sum_list (map cf_size (take n fs))"

definition removable :: "cached_file list \<Rightarrow> string list \<Rightarrow> nat \<Rightarrow> bool" where
  "removable fs disk n \<longleftrightarrow> cf_path (fs ! n) \<in> set (disk_after fs disk n) \<and> cf_blob (fs ! n) \<in> set (disk_after fs disk n)
     \<and> cf_blob (fs ! n) \<noteq> cf_path (fs ! n)"

lemma disk_after_Suc:
  "disk_after (f # fs) disk (Suc n) = disk_after fs (filter (\<lambda>q. q \<noteq> cf_blob f) (filter (\<lambda>q. q \<noteq> cf_path f) disk)) n"
  unfolding disk_after_def filter_filter by (rule filter_cong) auto

lemma disk_after_0 [simp]: "disk_after fs disk 0 = disk"
  by (simp add: disk_after_def)

lemma space_of_simps [simp]: "space_of fs 0 = 0" "space_of (f # fs) (Suc n) = cf_size f + space_of fs n"
  by (simp_all add: space_of_def)

lemma removable_Suc:
  "removable (f # fs) disk (Suc n) = removable fs (filter (\<lambda>q. q \<noteq> cf_blob f) (filter (\<lambda>q. q \<noteq> cf_path f) disk)) n"
  by (simp add: removable_def disk_after_Suc)

text \<open>The first file of those that remain is not removable: the error, and the disk it leaves.\<close>

definition stuck_disk :: "cached_file \<Rightarrow> string list \<Rightarrow> string list" where
  "stuck_disk f disk = filter (\<lambda>q. q \<noteq> cf_path f) disk"

lemma remove_files_stops:
  assumes "freed < needed"
  shows "\<exists>n \<le> length fs. (\<forall>m < n. freed + space_of fs m < needed \<and> removable fs disk m)
    \<and> (freed + space_of fs n < needed \<and> n < length fs \<longrightarrow> \<not> removable fs disk n)
    \<and> remove_files needed freed fs disk
      = (if needed \<le> freed + space_of fs n \<or> n = length fs then (Inr (freed + space_of fs n), disk_after fs disk n)
         else (Inl OSError, stuck_disk (fs ! n) (disk_after fs disk n)))"
  using assms
proof (induction fs arbitrary: freed disk)
  case Nil
  then show ?case by simp
next
  case (Cons f fs)
  let ?disk = "filter (\<lambda>q. q \<noteq> cf_blob f) (filter (\<lambda>q. q \<noteq> cf_path f) disk)" and ?freed = "freed + cf_size f"
  show ?case
  proof (cases "removable (f # fs) disk 0")
    case False
    have "filter (\<lambda>q. q \<noteq> cf_path f) disk = disk" if "cf_path f \<notin> set disk"
      using that by (intro filter_True) auto
    then have "remove_files needed freed (f # fs) disk = (Inl OSError, stuck_disk f disk)"
      using False by (auto simp: removable_def remove_path_def stuck_disk_def)
    then show ?thesis using False Cons.prems by (intro exI [of _ 0]) simp
  next
    case here: True
    then have step: "remove_files needed freed (f # fs) disk
        = (if needed \<le> ?freed then (Inr ?freed, ?disk) else remove_files needed ?freed fs ?disk)"
      by (simp add: removable_def remove_path_def Let_def)
    show ?thesis
    proof (cases "needed \<le> ?freed")
      case True
      then show ?thesis using here Cons.prems unfolding step
        by (intro exI [of _ 1]) (simp add: disk_after_Suc [of f fs disk 0, simplified])
    next
      case False
      then obtain n where n: "n \<le> length fs" "\<forall>m < n. ?freed + space_of fs m < needed \<and> removable fs ?disk m"
        "?freed + space_of fs n < needed \<and> n < length fs \<longrightarrow> \<not> removable fs ?disk n"
        "remove_files needed ?freed fs ?disk
          = (if needed \<le> ?freed + space_of fs n \<or> n = length fs then (Inr (?freed + space_of fs n), disk_after fs ?disk n)
             else (Inl OSError, stuck_disk (fs ! n) (disk_after fs ?disk n)))"
        using Cons.IH [of ?freed ?disk] by auto
      have "freed + space_of (f # fs) m < needed \<and> removable (f # fs) disk m" if "m < Suc n" for m
        using that n(2) here Cons.prems by (cases m) (auto simp: removable_Suc add.assoc)
      then show ?thesis using n(1,3,4) False unfolding step
        by (intro exI [of _ "Suc n"]) (simp add: disk_after_Suc removable_Suc add.assoc)
    qed
  qed
qed

text \<open>C36. The least recently used files are removed, and no more than needed: in the order of the last access,
  one file after the other while those removed do not suffice. The call succeeds exactly when they
  come to suffice, and the disk has then lost the links and contents of these files and nothing else.
  It fails with a \<open>RuntimeError\<close> when all of them have been removed and do not suffice, and with an \<open>OSError\<close>
  at the first file whose link or contents are gone already, as the contents two revisions share are;
  the link of that file is then lost as well.\<close>

theorem least_recently_used_removed:
  assumes "size_needed > available_space disk_free max_disk_space info"
  shows "\<exists>n. let fs = sort_key cf_accessed (cached_files info); extra = size_needed - available_space disk_free max_disk_space info in
    n \<le> length fs \<and> (\<forall>m < n. space_of fs m < extra \<and> removable fs disk m)
    \<and> (space_of fs n < extra \<and> n < length fs \<longrightarrow> \<not> removable fs disk n)
    \<and> free_disk_space_for size_needed disk_free max_disk_space info disk
      = (if extra \<le> space_of fs n then (Inr (), disk_after fs disk n)
         else if n = length fs then (Inl RuntimeError, disk_after fs disk n)
         else (Inl OSError, stuck_disk (fs ! n) (disk_after fs disk n)))"
proof -
  define fs where "fs = sort_key cf_accessed (cached_files info)"
  define extra where "extra = size_needed - available_space disk_free max_disk_space info"
  have "0 < extra" using assms by (simp add: extra_def)
  from remove_files_stops [OF this, of fs disk, unfolded add_0] obtain n where n: "n \<le> length fs"
    "\<forall>m < n. space_of fs m < extra \<and> removable fs disk m" "space_of fs n < extra \<and> n < length fs \<longrightarrow> \<not> removable fs disk n"
    "remove_files extra 0 fs disk
      = (if extra \<le> space_of fs n \<or> n = length fs then (Inr (space_of fs n), disk_after fs disk n)
         else (Inl OSError, stuck_disk (fs ! n) (disk_after fs disk n)))" by blast
  have "free_disk_space_for size_needed disk_free max_disk_space info disk
      = (if extra \<le> space_of fs n then (Inr (), disk_after fs disk n)
         else if n = length fs then (Inl RuntimeError, disk_after fs disk n)
         else (Inl OSError, stuck_disk (fs ! n) (disk_after fs disk n)))"
    using assms n(4) by (simp add: free_disk_space_for_def Let_def fs_def [symmetric] extra_def [symmetric])
  then show ?thesis
    using n(1-3) unfolding Let_def fs_def [symmetric] extra_def [symmetric] by (intro exI [of _ n]) simp
qed

text \<open>When the two least recently used files share their contents, as two revisions of a model do, and removing
  them once is not enough, the call fails although other files could be removed, and has removed both links.\<close>

theorem shared_contents_fail:
  assumes "sort_key cf_accessed (cached_files info) = f # g # rest" "cf_blob f = cf_blob g"
    and "distinct [cf_path f, cf_path g, cf_blob g]" "{cf_path f, cf_path g, cf_blob g} \<subseteq> set disk"
    and "cf_size f < size_needed - available_space disk_free max_disk_space info"
    and "size_needed > available_space disk_free max_disk_space info"
  shows "free_disk_space_for size_needed disk_free max_disk_space info disk
    = (Inl OSError, filter (\<lambda>p. p \<notin> {cf_path f, cf_path g, cf_blob g}) disk)"
proof -
  have "remove_files (size_needed - available_space disk_free max_disk_space info) 0 (f # g # rest) disk
    = (Inl OSError, filter (\<lambda>q. q \<noteq> cf_path g) (filter (\<lambda>q. q \<noteq> cf_blob g) (filter (\<lambda>q. q \<noteq> cf_path f) disk)))"
    using assms(2-5) by (auto simp: remove_path_def Let_def)
  moreover have "filter (\<lambda>q. q \<noteq> cf_path g) (filter (\<lambda>q. q \<noteq> cf_blob g) (filter (\<lambda>q. q \<noteq> cf_path f) disk))
    = filter (\<lambda>p. p \<notin> {cf_path f, cf_path g, cf_blob g}) disk" unfolding filter_filter by (rule filter_cong) auto
  ultimately show ?thesis using assms(1,6) by (simp add: free_disk_space_for_def Let_def)
qed

section \<open>Witnesses\<close>

definition sample_file :: "string \<Rightarrow> string \<Rightarrow> rat \<Rightarrow> cached_file" where
  "sample_file p b t = \<lparr>cf_path = p, cf_blob = b, cf_size = 10, cf_accessed = t\<rparr>"

definition sample_files :: cache_info where
  "sample_files = \<lparr>ci_repos = [[[sample_file ''p'' ''b'' 2, sample_file ''q'' ''c'' 1]]], ci_size_on_disk = 20\<rparr>"

theorem least_recently_used_removed_witness:
  "free_disk_space_for 5 (os_quota + 100) (Some 20) sample_files [''p'', ''b'', ''q'', ''c''] = (Inr (), [''p'', ''b''])"
proof -
  let ?fs = "[sample_file ''q'' ''c'' 1, sample_file ''p'' ''b'' 2]" and ?disk = "[''p'', ''b'', ''q'', ''c'']"
  have fs: "sort_key cf_accessed (cached_files sample_files) = ?fs" by (simp add: sample_files_def cached_files_def sample_file_def)
  have space: "available_space (os_quota + 100) (Some 20) sample_files = 0" by (simp add: available_space_def sample_files_def)
  have one: "space_of ?fs 0 = 0" "space_of ?fs 1 = 10" "removable ?fs ?disk 0" "disk_after ?fs ?disk 1 = [''p'', ''b'']"
    by (simp_all add: space_of_def removable_def disk_after_def sample_file_def)
  have need: "available_space (os_quota + 100) (Some 20) sample_files < 5" using space by simp
  have len: "length ?fs = 2" by simp
  obtain n where n: "n \<le> 2" "\<forall>m < n. space_of ?fs m < 5 \<and> removable ?fs ?disk m"
      "space_of ?fs n < 5 \<and> n < 2 \<longrightarrow> \<not> removable ?fs ?disk n"
      "free_disk_space_for 5 (os_quota + 100) (Some 20) sample_files ?disk
        = (if 5 \<le> space_of ?fs n then (Inr (), disk_after ?fs ?disk n)
           else if n = 2 then (Inl RuntimeError, disk_after ?fs ?disk n) else (Inl OSError, stuck_disk (?fs ! n) (disk_after ?fs ?disk n)))"
    using least_recently_used_removed [OF need, of ?disk, unfolded fs space Let_def diff_0_right len] by blast
  have "n \<noteq> 0" using n(3) one(1,3) by (cases n) simp_all
  moreover have "\<not> 1 < n" using n(2) one(2) by (auto dest!: spec [of _ 1])
  ultimately have "n = 1" by simp
  then show ?thesis using n(4) one by simp
qed

theorem shared_contents_fail_witness:
  "\<exists>info. free_disk_space_for 15 (os_quota + 100) (Some 20) info [''p'', ''b'', ''q'', ''r''] = (Inl OSError, [''r''])"
proof -
  define info where "info = \<lparr>ci_repos = [[[sample_file ''p'' ''b'' 1], [sample_file ''q'' ''b'' 1]]], ci_size_on_disk = 20\<rparr>"
  have files: "sort_key cf_accessed (cached_files info) = [sample_file ''p'' ''b'' 1, sample_file ''q'' ''b'' 1]"
    by (simp add: info_def cached_files_def sample_file_def)
  have "available_space (os_quota + 100) (Some 20) info = 0" by (simp add: available_space_def info_def)
  then have "free_disk_space_for 15 (os_quota + 100) (Some 20) info [''p'', ''b'', ''q'', ''r''] = (Inl OSError, [''r''])"
    using shared_contents_fail [OF files, of "[''p'', ''b'', ''q'', ''r'']" 15 "os_quota + 100" "Some 20"]
    by (simp add: sample_file_def)
  then show ?thesis by blast
qed

end
