(* ===== verification/Sequence_Manager.thy ===== *)
theory Sequence_Manager
  imports Routing
begin

text \<open>
  The rest of \<open>src/drift/client/routing/sequence_manager.py\<close>, with \<open>src/drift/utils/ping.py\<close>,
  \<open>src/drift/client/routing/spending_policy.py\<close> and \<open>src/drift/utils/random.py\<close>: construction of a
  manager and of managers of sub-sequences, smoothed round-trip times, the lookup of \<open>rpc_info\<close> with
  retries, and the update thread with the clients that wait for it. Stored round-trip times expire as
  the library's timed storage documents it. A peer id and its base58 text are the same string; the
  swarm is a world that requests change.
\<close>

section \<open>Construction\<close>

record client_config =
  cc_initial_peers :: "string list"
  cc_dht_prefix :: "string option"
  cc_allowed_servers :: "peer_id list option"
  cc_blocked_servers :: "peer_id list option"
  cc_max_retries :: "nat option"
  cc_active_adapter :: "string option"

record manager_state =
  ms_info :: "sequence_info option"
  ms_rpc_info :: "(string \<times> pyval) list option"

record manager =
  mg_config :: client_config
  mg_info :: sequence_info
  mg_rpc_info :: "(string \<times> pyval) list option"
  mg_allowed :: "peer_id set option"
  mg_blocked :: "peer_id set option"
  mg_ready :: bool

definition peer_ids_to_set :: "peer_id list option \<Rightarrow> peer_id set option" where
  "peer_ids_to_set = map_option set"

definition init_manager :: "bool \<Rightarrow> client_config \<Rightarrow> module_uid list \<Rightarrow> manager_state \<Rightarrow> manager res" where
  "init_manager has_dht config uids st =
     rbind (rassert (cc_initial_peers config \<noteq> [] \<or> has_dht) AssertionError) (\<lambda>_.
     rbind (rassert (cc_dht_prefix config \<noteq> None \<and> cc_dht_prefix config \<noteq> Some []) AssertionError) (\<lambda>_.
     rbind (rassert (uids \<noteq> []) AssertionError) (\<lambda>_.
     let info = (case ms_info st of None \<Rightarrow> make_empty uids | Some i \<Rightarrow> i) in
     rbind (rassert (last_updated_time info = None \<or> uids = block_uids info) AssertionError) (\<lambda>_.
     Inr \<lparr>mg_config = config, mg_info = info, mg_rpc_info = ms_rpc_info st,
          mg_allowed = peer_ids_to_set (cc_allowed_servers config), mg_blocked = peer_ids_to_set (cc_blocked_servers config),
          mg_ready = (last_updated_time info \<noteq> None)\<rparr>))))"

text \<open>\<open>manager[a:b]\<close> with non-negative bounds, and \<open>manager[i]\<close>.\<close>

definition manager_slice :: "nat \<Rightarrow> nat \<Rightarrow> manager \<Rightarrow> manager res" where
  "manager_slice a b m =
     rbind (sequence_slice a b (mg_info m)) (\<lambda>info.
       init_manager True (mg_config m) (take (b - a) (drop a (block_uids (mg_info m))))
         \<lparr>ms_info = Some info, ms_rpc_info = mg_rpc_info m\<rparr>)"

definition manager_item :: "nat \<Rightarrow> manager \<Rightarrow> manager res" where
  "manager_item i m = manager_slice i (i + 1) m"

definition get_points :: "string \<Rightarrow> rat" where
  "get_points protocol = 0"

definition get_request_metadata :: "string \<Rightarrow> pyval \<Rightarrow> manager \<Rightarrow> (string \<times> pyval) list" where
  "get_request_metadata protocol args_structure m =
     [(''points'', VFloat (get_points protocol)),
      (''active_adapter'', case cc_active_adapter (mg_config m) of None \<Rightarrow> VNone | Some a \<Rightarrow> VStr a),
      (''args_structure'', args_structure)]"

section \<open>Round-trip times\<close>

definition sample_up_to :: "('a list \<Rightarrow> nat \<Rightarrow> 'a list) \<Rightarrow> 'a list \<Rightarrow> nat \<Rightarrow> 'a list" where
  "sample_up_to sample population k = (if k < length population then sample population k else population)"

text \<open>\<open>ping\<close>: a time, also when the peer only lacks the protocol, or unreachable.\<close>

datatype ping_answer = Pong rat | Not_Supported rat | No_Answer

definition ping_result :: "ping_answer \<Rightarrow> ping" where
  "ping_result a = (case a of Pong t \<Rightarrow> Ping t | Not_Supported t \<Rightarrow> Ping t | No_Answer \<Rightarrow> PingInf)"

definition ping_parallel :: "(peer_id \<Rightarrow> ping_answer) \<Rightarrow> peer_id list \<Rightarrow> (peer_id, ping) dict" where
  "ping_parallel answers peer_ids = dict_of (map (\<lambda>p. (p, ping_result (answers p))) peer_ids)"

text \<open>A smoothed time with its expiration time; \<open>now\<close> is when it is read.\<close>

type_synonym ping_store = "(peer_id, ping \<times> rat) dict"

definition stored_ping :: "rat \<Rightarrow> ping_store \<Rightarrow> peer_id \<Rightarrow> ping option" where
  "stored_ping now emas p =
     (case map_of emas p of Some (v, expires) \<Rightarrow> if now \<le> expires then Some v else None | None \<Rightarrow> None)"

definition smooth :: "rat \<Rightarrow> ping option \<Rightarrow> ping \<Rightarrow> ping" where
  "smooth alpha prev rtt =
     (case prev of
        Some (Ping old) \<Rightarrow> (case rtt of Ping new \<Rightarrow> Ping (alpha * new + (1 - alpha) * old) | PingInf \<Rightarrow> PingInf)
      | _ \<Rightarrow> rtt)"

definition ping_round :: "rat \<Rightarrow> rat \<Rightarrow> rat \<Rightarrow> (peer_id, ping) dict \<Rightarrow> ping_store \<Rightarrow> ping_store" where
  "ping_round alpha expiration now current_rtts emas =
     fold (\<lambda>(p, rtt) emas. AList.update p (smooth alpha (stored_ping now emas p) rtt, now + expiration) emas) current_rtts emas"

definition smoothed_rtts :: "rat \<Rightarrow> ping_store \<Rightarrow> (peer_id, ping) dict" where
  "smoothed_rtts now emas = map (\<lambda>(p, v, _). (p, v)) (filter (\<lambda>(p, v, expires). now \<le> expires) emas)"

section \<open>Looking up \<open>rpc_info\<close>\<close>

record 'w info_net =
  in_update :: "sequence_info \<Rightarrow> 'w \<Rightarrow> sequence_info \<times> 'w"
  in_choice :: "peer_id list \<Rightarrow> 'w \<Rightarrow> peer_id \<times> 'w"
  in_rpc_info :: "peer_id \<Rightarrow> 'w \<Rightarrow> (string \<times> pyval) list res \<times> 'w"
  in_failure :: "peer_id option \<Rightarrow> sequence_info \<Rightarrow> 'w \<Rightarrow> (sequence_info \<times> bool) \<times> 'w"
  in_success :: "peer_id \<Rightarrow> 'w \<Rightarrow> 'w"

definition active_servers :: "sequence_info \<Rightarrow> peer_id list res" where
  "active_servers info =
     rbind (py_get (block_infos info) 0) (\<lambda>m.
       Inr (map fst (filter (\<lambda>(p, si). si_state si = ONLINE) (rm_servers m))))"

text \<open>
  One attempt: the answer with the peer to blame. Waiting for an update returns when one has succeeded.
\<close>

definition try_rpc_info ::
  "'w info_net \<Rightarrow> manager \<Rightarrow> 'w \<Rightarrow> (string \<times> pyval) list res \<times> peer_id option \<times> manager \<times> 'w" where
  "try_rpc_info net m w =
     (let (m1, w1) =
        (if mg_ready m then (m, w)
         else let (info, w1) = in_update net (mg_info m) w in (m\<lparr>mg_info := info, mg_ready := True\<rparr>, w1)) in
      case active_servers (mg_info m1) of
        Inl e \<Rightarrow> (Inl e, None, m1, w1)
      | Inr [] \<Rightarrow> (Inl (MissingBlocksError [0]), None, m1, w1)
      | Inr peers \<Rightarrow>
          let (p, w2) = in_choice net peers w1; (r, w3) = in_rpc_info net p w2 in
          (r, Some p, m1, w3))"

partial_function (option) rpc_info_attempts ::
  "'w info_net \<Rightarrow> nat \<Rightarrow> manager \<Rightarrow> 'w \<Rightarrow> ((string \<times> pyval) list res \<times> manager \<times> 'w) option" where
  "rpc_info_attempts net attempt_no m w =
     (case try_rpc_info net m w of
        (Inr info, Some p, m1, w1) \<Rightarrow> Some (Inr info, m1\<lparr>mg_rpc_info := Some info\<rparr>, in_success net p w1)
      | (Inr info, None, m1, w1) \<Rightarrow> Some (Inr info, m1, w1)
      | (Inl e, p, m1, w1) \<Rightarrow>
          (let ((info, missing), w2) = in_failure net p (mg_info m1) w1;
               m2 = m1\<lparr>mg_info := info, mg_ready := mg_ready m1 \<and> \<not> missing\<rparr> in
           if cc_max_retries (mg_config m2) = Some (Suc attempt_no) then Some (Inl e, m2, w2)
           else rpc_info_attempts net (Suc attempt_no) m2 w2))"

definition rpc_info :: "'w info_net \<Rightarrow> manager \<Rightarrow> 'w \<Rightarrow> ((string \<times> pyval) list res \<times> manager \<times> 'w) option" where
  "rpc_info net m w =
     (case mg_rpc_info m of Some info \<Rightarrow> Some (Inr info, m, w) | None \<Rightarrow> rpc_info_attempts net 0 m w)"

section \<open>The update thread\<close>

text \<open>
  The thread and the clients that wait for it share the events \<open>ready\<close> and \<open>trigger\<close>. A client clears
  \<open>ready\<close>, sets \<open>trigger\<close> and waits. The wait of the thread may time out at any moment.
\<close>

datatype thread_pc = Loop_Start | Updating | Thread_Waiting | Exited

datatype client_pc = Idle | Cleared | Awaiting

record updater =
  up_ready :: bool
  up_trigger :: bool
  up_shutdown :: bool
  up_thread :: thread_pc
  up_clients :: "client_pc list"

definition start_updater :: "nat \<Rightarrow> updater" where
  "start_updater n =
     \<lparr>up_ready = False, up_trigger = False, up_shutdown = False, up_thread = Loop_Start, up_clients = replicate n Idle\<rparr>"

text \<open>The flag says whether updates may fail.\<close>

inductive updater_step :: "bool \<Rightarrow> updater \<Rightarrow> updater \<Rightarrow> bool" for failing :: bool where
  begin_update: "up_thread s = Loop_Start \<Longrightarrow> \<not> up_shutdown s
    \<Longrightarrow> updater_step failing s (s\<lparr>up_trigger := False, up_thread := Updating\<rparr>)"
| stop_thread: "up_thread s = Loop_Start \<Longrightarrow> up_shutdown s \<Longrightarrow> updater_step failing s (s\<lparr>up_thread := Exited\<rparr>)"
| updated: "up_thread s = Updating \<Longrightarrow> updater_step failing s (s\<lparr>up_ready := True, up_thread := Thread_Waiting\<rparr>)"
| update_failed: "failing \<Longrightarrow> up_thread s = Updating \<Longrightarrow> updater_step failing s (s\<lparr>up_thread := Thread_Waiting\<rparr>)"
| wake_up: "up_thread s = Thread_Waiting \<Longrightarrow> updater_step failing s (s\<lparr>up_thread := Loop_Start\<rparr>)"
| clear_ready: "i < length (up_clients s) \<Longrightarrow> up_clients s ! i = Idle
    \<Longrightarrow> updater_step failing s (s\<lparr>up_ready := False, up_clients := (up_clients s)[i := Cleared]\<rparr>)"
| set_trigger: "i < length (up_clients s) \<Longrightarrow> up_clients s ! i = Cleared
    \<Longrightarrow> updater_step failing s (s\<lparr>up_trigger := True, up_clients := (up_clients s)[i := Awaiting]\<rparr>)"
| got_ready: "i < length (up_clients s) \<Longrightarrow> up_clients s ! i = Awaiting \<Longrightarrow> up_ready s
    \<Longrightarrow> updater_step failing s (s\<lparr>up_clients := (up_clients s)[i := Idle]\<rparr>)"
| shut_down: "updater_step failing s (s\<lparr>up_shutdown := True, up_trigger := True\<rparr>)"

section \<open>Properties\<close>

text \<open>Every stored time is unreachable or lies between two bounds.\<close>

definition pings_within :: "rat \<Rightarrow> rat \<Rightarrow> ping list \<Rightarrow> bool" where
  "pings_within lo hi ps \<longleftrightarrow> list_all (\<lambda>v. case v of Ping r \<Rightarrow> lo \<le> r \<and> r \<le> hi | PingInf \<Rightarrow> True) ps"

lemma smooth_within:
  assumes "0 \<le> alpha" "alpha \<le> 1" "pings_within lo hi [v]" "\<And>u. prev = Some u \<Longrightarrow> pings_within lo hi [u]"
  shows "pings_within lo hi [smooth alpha prev v]"
proof (cases prev)
  case (Some u)
  show ?thesis
  proof (cases u; cases v)
    fix old new assume uv: "u = Ping old" "v = Ping new"
    have b: "lo \<le> old" "old \<le> hi" "lo \<le> new" "new \<le> hi" using assms(3) assms(4) [OF Some] uv by (simp_all add: pings_within_def)
    have "alpha * lo + (1 - alpha) * lo \<le> alpha * new + (1 - alpha) * old"
      using assms(1,2) b by (intro add_mono mult_left_mono) simp_all
    moreover have "alpha * new + (1 - alpha) * old \<le> alpha * hi + (1 - alpha) * hi"
      using assms(1,2) b by (intro add_mono mult_left_mono) simp_all
    ultimately show ?thesis using Some uv by (simp add: smooth_def pings_within_def algebra_simps)
  qed (use Some assms(3) in \<open>simp_all add: smooth_def pings_within_def\<close>)
qed (use assms(3) in \<open>simp add: smooth_def\<close>)

text \<open>Smoothing keeps round-trip times within the range of the measurements: with a factor between zero and one,
  when all stored and all measured times of reachable peers lie in an interval, so do all stored times after
  any round of pings.\<close>

theorem smoothed_rtts_bounded:
  assumes "0 \<le> alpha" "alpha \<le> 1" "pings_within lo hi (map snd current_rtts)" "pings_within lo hi (map (fst \<circ> snd) emas)"
  shows "pings_within lo hi (map (fst \<circ> snd) (ping_round alpha expiration now current_rtts emas))"
  using assms(3,4) unfolding ping_round_def
proof (induction current_rtts arbitrary: emas)
  case (Cons c cs)
  obtain p rtt where c: "c = (p, rtt)" by force
  let ?v = "smooth alpha (stored_ping now emas p) rtt"
  have "pings_within lo hi [u]" if "stored_ping now emas p = Some u" for u
    using that Cons.prems(2) by (auto simp: stored_ping_def pings_within_def list_all_iff dest!: map_of_SomeD split: option.splits if_splits)
  then have "pings_within lo hi [?v]"
    using smooth_within [OF assms(1,2), of lo hi rtt] Cons.prems(1) c by (simp add: pings_within_def)
  then have upd: "pings_within lo hi (map (fst \<circ> snd) (AList.update p (?v, now + expiration) emas))"
    using Cons.prems(2) update_subset [of p "(?v, now + expiration)" emas] by (fastforce simp: pings_within_def list_all_iff)
  have "pings_within lo hi (map snd cs)" using Cons.prems(1) by (simp add: pings_within_def)
  from Cons.IH [OF this upd] show ?case by (simp add: c)
qed simp

text \<open>No client that waits for an update is forgotten: as long as updates succeed, whenever a client waits and
  the events do not let it go on, an update is running or about to run, or some client is about to wake the thread.\<close>

theorem waiting_client_served:
  assumes "(updater_step False)\<^sup>*\<^sup>* (start_updater n) s" and "Awaiting \<in> set (up_clients s)" "up_thread s \<noteq> Exited"
  shows "up_ready s \<or> up_trigger s \<or> up_thread s \<in> {Loop_Start, Updating} \<or> Cleared \<in> set (up_clients s)"
proof -
  have "Awaiting \<in> set (up_clients s) \<longrightarrow> up_ready s \<or> up_trigger s \<or> up_thread s \<in> {Loop_Start, Updating, Exited}
      \<or> Cleared \<in> set (up_clients s)"
    using assms(1)
  proof (induction rule: rtranclp_induct)
    case (step s s')
    have kept: "x \<in> set ((up_clients s)[i := y])" if "x \<in> set (up_clients s)" "up_clients s ! i \<noteq> x" for x y i
      using that by (metis in_set_conv_nth length_list_update nth_list_update_neq)
    have new: "y \<in> set ((up_clients s)[i := y])" if "i < length (up_clients s)" for y i
      using that by (simp add: set_update_memI)
    from step(2) show ?case
    proof cases
      case (clear_ready i)
      then show ?thesis using new [of i Cleared] by simp
    next
      case (got_ready i)
      then show ?thesis by simp
    qed (use step(3) in auto)
  qed (simp add: start_updater_def)
  then show ?thesis using assms(2,3) by auto
qed

text \<open>When updates can fail a waiting client can be left behind: the thread sleeps for a whole period with no
  event that wakes it.\<close>

theorem failed_update_forgets_client:
  "\<exists>s. (updater_step True)\<^sup>*\<^sup>* (start_updater 1) s \<and> up_clients s = [Awaiting] \<and> \<not> up_ready s \<and> \<not> up_trigger s \<and> up_thread s = Thread_Waiting"
proof -
  let ?s0 = "start_updater 1"
  let ?s1 = "?s0\<lparr>up_ready := False, up_clients := (up_clients ?s0)[0 := Cleared]\<rparr>"
  let ?s2 = "?s1\<lparr>up_trigger := True, up_clients := (up_clients ?s1)[0 := Awaiting]\<rparr>"
  let ?s3 = "?s2\<lparr>up_trigger := False, up_thread := Updating\<rparr>"
  have "updater_step True ?s0 ?s1" by (rule clear_ready) (simp_all add: start_updater_def)
  moreover have "updater_step True ?s1 ?s2" by (rule set_trigger) (simp_all add: start_updater_def)
  moreover have "updater_step True ?s2 ?s3" by (rule begin_update) (simp_all add: start_updater_def)
  moreover have "updater_step True ?s3 (?s3\<lparr>up_thread := Thread_Waiting\<rparr>)" by (rule update_failed) simp_all
  ultimately have "(updater_step True)\<^sup>*\<^sup>* ?s0 (?s3\<lparr>up_thread := Thread_Waiting\<rparr>)"
    by (meson r_into_rtranclp rtranclp_trans)
  then show ?thesis by (intro exI [of _ "?s3\<lparr>up_thread := Thread_Waiting\<rparr>"]) (simp add: start_updater_def)
qed

section \<open>Witnesses\<close>

theorem smoothed_rtts_bounded_witness:
  "pings_within 1 3 (map (fst \<circ> snd) (ping_round (1 / 5) 300 0 [(''P'', Ping 3), (''Q'', PingInf)] [(''P'', Ping 1, 10)]))"
  by (rule smoothed_rtts_bounded) (simp_all add: pings_within_def)

theorem waiting_client_served_witness:
  "up_trigger \<lparr>up_ready = False, up_trigger = True, up_shutdown = False, up_thread = Loop_Start, up_clients = [Awaiting]\<rparr>
    \<or> Cleared \<in> set [Awaiting]"
proof -
  let ?s0 = "start_updater 1"
  let ?s1 = "?s0\<lparr>up_ready := False, up_clients := (up_clients ?s0)[0 := Cleared]\<rparr>"
  let ?s2 = "?s1\<lparr>up_trigger := True, up_clients := (up_clients ?s1)[0 := Awaiting]\<rparr>"
  have "updater_step False ?s0 ?s1" by (rule clear_ready) (simp_all add: start_updater_def)
  moreover have "updater_step False ?s1 ?s2" by (rule set_trigger) (simp_all add: start_updater_def)
  ultimately have "(updater_step False)\<^sup>*\<^sup>* ?s0 ?s2" by (meson r_into_rtranclp rtranclp_trans)
  from waiting_client_served [OF this] show ?thesis by (simp add: start_updater_def)
qed

end
