(* ===== verification/Collectives.thy ===== *)
theory Collectives
  imports Drift_Prelude
begin

text \<open>
  Models \<open>src/drift/utils/tensor_parallel/communications.py\<close> with the sums and gathers of
  \<open>cross_device_ops.py\<close>: the all-reduce by which the shards of a block add up their partial results.
  Every shard runs in a thread of its own and all of them share one \<open>AllReduce\<close> object; a step is one
  statement of one thread. A tensor is its flattened list of elements. What \<open>AllGather\<close> replaces after
  a call (its parts, ranks and event) is one object of a numbered sequence, to which the threads hold
  references; the three attributes are read and replaced together. Devices are not represented.
\<close>

section \<open>Splitting and adding\<close>

text \<open>\<open>torch.tensor_split\<close> into \<open>n\<close> parts: the first ones are longer by one if the length is no multiple.\<close>

definition part_start :: "nat \<Rightarrow> nat \<Rightarrow> nat \<Rightarrow> nat" where
  "part_start n l i = i * (l div n) + min i (l mod n)"

definition tensor_part :: "nat \<Rightarrow> nat \<Rightarrow> 'a list \<Rightarrow> 'a list" where
  "tensor_part n i xs = take (part_start n (length xs) (Suc i) - part_start n (length xs) i) (drop (part_start n (length xs) i) xs)"

definition tensor_split :: "nat \<Rightarrow> 'a list \<Rightarrow> 'a list list" where
  "tensor_split n xs = map (\<lambda>i. tensor_part n i xs) [0..<n]"

fun reduce_add :: "'a::comm_monoid_add list list \<Rightarrow> 'a list" where
  "reduce_add [] = []"
| "reduce_add (p # ps) = fold (\<lambda>q acc. map2 (+) acc q) ps p"

section \<open>The collective\<close>

datatype pc =
    Append nat | Check nat | Set_Part nat | Wait_Part | Reduce | Clear_Parts | Clear_Event
  | Enter | Store | Note | Check_All | Set_All | Wait_All | Gather | Reset | Done

record 'a gather_state =
  gt_parts :: "nat \<Rightarrow> 'a list option"
  gt_updated :: "nat list"
  gt_ready :: bool

record 'a all_reduce =
  tensor_parts :: "nat \<Rightarrow> 'a list list"
  part_ready :: "nat \<Rightarrow> bool"
  gathers :: "nat \<Rightarrow> 'a gather_state"
  current :: nat
  pcs :: "nat \<Rightarrow> pc"
  calls :: "nat \<Rightarrow> nat"
  local_gather :: "nat \<Rightarrow> nat"
  reduced :: "nat \<Rightarrow> 'a list"
  outcomes :: "nat \<Rightarrow> 'a list list"

definition fresh_gather :: "'a gather_state" where
  "fresh_gather = \<lparr>gt_parts = (\<lambda>r. None), gt_updated = [], gt_ready = False\<rparr>"

definition init_all_reduce :: "'a all_reduce" where
  "init_all_reduce =
     \<lparr>tensor_parts = (\<lambda>r. []), part_ready = (\<lambda>r. False), gathers = (\<lambda>c. fresh_gather), current = 0,
      pcs = (\<lambda>r. Append 0), calls = (\<lambda>r. 0), local_gather = (\<lambda>r. 0), reduced = (\<lambda>r. []), outcomes = (\<lambda>r. [])\<rparr>"

definition next_part :: "nat \<Rightarrow> nat \<Rightarrow> pc" where
  "next_part n i = (if Suc i < n then Append (Suc i) else Wait_Part)"

definition goto_pc :: "nat \<Rightarrow> pc \<Rightarrow> 'a all_reduce \<Rightarrow> 'a all_reduce" where
  "goto_pc r p s = s\<lparr>pcs := (pcs s)(r := p)\<rparr>"

text \<open>
  One statement of the thread of rank \<open>r\<close>, if it can run. The flag says whether another thread may run
  between the test of \<open>len(self.tensor_parts[i])\<close> and the \<open>set()\<close> that follows it.
\<close>

definition worker_step ::
  "bool \<Rightarrow> nat \<Rightarrow> (nat \<Rightarrow> nat \<Rightarrow> 'a::comm_monoid_add list) \<Rightarrow> nat \<Rightarrow> 'a all_reduce \<Rightarrow> 'a all_reduce option" where
  "worker_step delays n x r s =
     (let c = local_gather s r; g = gathers s c in
      case pcs s r of
        Append i \<Rightarrow>
          Some (goto_pc r (Check i) (s\<lparr>tensor_parts := (tensor_parts s)(i := tensor_parts s i @ [tensor_split n (x (calls s r) r) ! i])\<rparr>))
      | Check i \<Rightarrow>
          (if length (tensor_parts s i) \<noteq> n then Some (goto_pc r (next_part n i) s)
           else if delays then Some (goto_pc r (Set_Part i) s)
           else Some (goto_pc r (next_part n i) (s\<lparr>part_ready := (part_ready s)(i := True)\<rparr>)))
      | Set_Part i \<Rightarrow> Some (goto_pc r (next_part n i) (s\<lparr>part_ready := (part_ready s)(i := True)\<rparr>))
      | Wait_Part \<Rightarrow> if part_ready s r then Some (goto_pc r Reduce s) else None
      | Reduce \<Rightarrow> Some (goto_pc r Clear_Parts (s\<lparr>reduced := (reduced s)(r := reduce_add (tensor_parts s r))\<rparr>))
      | Clear_Parts \<Rightarrow> Some (goto_pc r Clear_Event (s\<lparr>tensor_parts := (tensor_parts s)(r := [])\<rparr>))
      | Clear_Event \<Rightarrow> Some (goto_pc r Enter (s\<lparr>part_ready := (part_ready s)(r := False)\<rparr>))
      | Enter \<Rightarrow> Some (goto_pc r Store (s\<lparr>local_gather := (local_gather s)(r := current s)\<rparr>))
      | Store \<Rightarrow> Some (goto_pc r Note (s\<lparr>gathers := (gathers s)(c := g\<lparr>gt_parts := (gt_parts g)(r := Some (reduced s r))\<rparr>)\<rparr>))
      | Note \<Rightarrow> Some (goto_pc r Check_All (s\<lparr>gathers := (gathers s)(c := g\<lparr>gt_updated := gt_updated g @ [r]\<rparr>)\<rparr>))
      | Check_All \<Rightarrow> Some (goto_pc r (if length (gt_updated g) = n then Set_All else Wait_All) s)
      | Set_All \<Rightarrow> Some (goto_pc r Wait_All (s\<lparr>gathers := (gathers s)(c := g\<lparr>gt_ready := True\<rparr>)\<rparr>))
      | Wait_All \<Rightarrow> if gt_ready g then Some (goto_pc r Gather s) else None
      | Gather \<Rightarrow>
          Some (goto_pc r Reset (s\<lparr>outcomes := (outcomes s)(r := outcomes s r @ [concat (map (the \<circ> gt_parts g) [0..<n])])\<rparr>))
      | Reset \<Rightarrow> Some (goto_pc r Done (if last (gt_updated g) = r then s\<lparr>current := Suc (current s)\<rparr> else s))
      | Done \<Rightarrow> Some (goto_pc r (Append 0) (s\<lparr>calls := (calls s)(r := Suc (calls s r))\<rparr>)))"

inductive all_reduce_step :: "bool \<Rightarrow> nat \<Rightarrow> (nat \<Rightarrow> nat \<Rightarrow> 'a::comm_monoid_add list) \<Rightarrow> 'a all_reduce \<Rightarrow> 'a all_reduce \<Rightarrow> bool"
  for delays :: bool and n :: nat and x :: "nat \<Rightarrow> nat \<Rightarrow> 'a::comm_monoid_add list" where
  step: "r < n \<Longrightarrow> worker_step delays n x r s = Some s' \<Longrightarrow> all_reduce_step delays n x s s'"

text \<open>The sum of the inputs of one call.\<close>

definition elementwise_sum :: "nat \<Rightarrow> nat \<Rightarrow> (nat \<Rightarrow> 'a::comm_monoid_add list) \<Rightarrow> 'a list" where
  "elementwise_sum n l xs = map (\<lambda>j. \<Sum>r<n. xs r ! j) [0..<l]"

section \<open>Parts of a vector\<close>

lemma part_start_0 [simp]: "part_start n l 0 = 0"
  by (simp add: part_start_def)

lemma part_start_n: "0 < n \<Longrightarrow> part_start n l n = l"
  by (simp add: part_start_def min_absorb2 less_imp_le)

lemma part_start_mono: "part_start n l i \<le> part_start n l (Suc i)"
  by (auto simp: part_start_def)

lemma concat_segments:
  assumes "f 0 = 0" "\<And>i. f i \<le> f (Suc i)"
  shows "concat (map (\<lambda>i. take (f (Suc i) - f i) (drop (f i) xs)) [0..<k]) = take (f k) xs"
proof (induction k)
  case (Suc k)
  have "take (f k + (f (Suc k) - f k)) xs = take (f k) xs @ take (f (Suc k) - f k) (drop (f k) xs)" by (rule take_add)
  then show ?case using Suc.IH assms(2) [of k] by simp
qed (simp add: assms(1))

lemma concat_tensor_split: "0 < n \<Longrightarrow> concat (tensor_split n xs) = xs"
  using concat_segments [of "part_start n (length xs)" xs n]
  by (simp add: tensor_split_def tensor_part_def part_start_mono part_start_n)

lemma nth_tensor_split [simp]: "i < n \<Longrightarrow> tensor_split n xs ! i = tensor_part n i xs"
  by (simp add: tensor_split_def)

lemma tensor_part_map: "tensor_part n i (map f xs) = map f (tensor_part n i xs)"
  by (simp add: tensor_part_def take_map drop_map)

lemma length_reduce_add:
  "ps \<noteq> [] \<Longrightarrow> (\<And>p. p \<in> set ps \<Longrightarrow> length p = k) \<Longrightarrow> length (reduce_add ps) = k"
proof (induction ps rule: rev_induct)
  case (snoc q ps)
  show ?case
  proof (cases ps)
    case (Cons p qs)
    have "length (reduce_add ps) = k" using Cons snoc.prems by (intro snoc.IH) auto
    then show ?thesis using Cons snoc.prems(2) [of q] by simp
  qed (use snoc.prems in simp)
qed simp

lemma nth_reduce_add:
  "ps \<noteq> [] \<Longrightarrow> (\<And>p. p \<in> set ps \<Longrightarrow> length p = k) \<Longrightarrow> j < k \<Longrightarrow> reduce_add ps ! j = (\<Sum>p\<leftarrow>ps. p ! j)"
proof (induction ps rule: rev_induct)
  case (snoc q ps)
  show ?case
  proof (cases ps)
    case (Cons p qs)
    then have "length (reduce_add ps) = k" using snoc.prems by (intro length_reduce_add) auto
    moreover have "reduce_add ps ! j = (\<Sum>p\<leftarrow>ps. p ! j)" using Cons snoc.prems by (intro snoc.IH) auto
    ultimately show ?thesis using Cons snoc.prems(2) [of q] snoc.prems(3) by (simp add: add_ac)
  qed (use snoc.prems in simp)
qed simp

text \<open>Adding the parts of all ranks gives the part of the sum, in whatever order they have arrived.\<close>

lemma reduce_parts:
  assumes "mset ps = image_mset (\<lambda>r. tensor_part n i (xs r)) (mset_set {..<n})" "0 < n" "\<And>r. r < n \<Longrightarrow> length (xs r) = l"
  shows "reduce_add ps = tensor_part n i (elementwise_sum n l xs)"
proof -
  let ?a = "part_start n l i" and ?b = "part_start n l (Suc i)"
  have "size ps' = n" if "mset ps = image_mset f (mset_set {..<n})" "ps' = mset ps" for f ps' using that by simp
  then have ne: "ps \<noteq> []" using assms(1,2) by force
  have part: "tensor_part n i (xs r) = take (?b - ?a) (drop ?a (xs r))" if "r < n" for r
    using assms(3) [OF that] by (simp add: tensor_part_def)
  have lens: "length p = min (?b - ?a) (l - ?a)" if "p \<in> set ps" for p
    using that assms(3) part arg_cong [OF assms(1), of set_mset] by (auto simp: min.commute)
  show ?thesis
  proof (rule nth_equalityI)
    show "length (reduce_add ps) = length (tensor_part n i (elementwise_sum n l xs))"
      using length_reduce_add [OF ne lens] by (simp add: tensor_part_def elementwise_sum_def min.commute)
    fix j assume j: "j < length (reduce_add ps)"
    then have jk: "j < min (?b - ?a) (l - ?a)" using length_reduce_add [OF ne lens] by simp
    then have jl: "j < l - ?a" by simp
    then have al: "?a \<le> l" by simp
    have "(\<Sum>p\<leftarrow>ps. p ! j) = (\<Sum>p\<in>#mset ps. p ! j)" by (simp flip: sum_mset_sum_list)
    also have "\<dots> = (\<Sum>r<n. tensor_part n i (xs r) ! j)" by (simp add: assms(1) sum_unfold_sum_mset image_mset.compositionality comp_def)
    also have "\<dots> = (\<Sum>r<n. xs r ! (?a + j))"
    proof (rule sum.cong)
      fix r assume r: "r \<in> {..<n}"
      have "?a \<le> length (xs r)" using al assms(3) [of r] r by simp
      then show "tensor_part n i (xs r) ! j = xs r ! (?a + j)" using jk r by (simp add: part)
    qed simp
    finally show "reduce_add ps ! j = tensor_part n i (elementwise_sum n l xs) ! j"
      using nth_reduce_add [OF ne lens jk] jk jl al by (simp add: tensor_part_def elementwise_sum_def)
  qed
qed

end
