(* ===== verification/Collectives_Correct.thy ===== *)
theory Collectives_Correct
  imports Collectives
begin

text \<open>
  The all-reduce returns the elementwise sum to every rank, for any number of calls and any interleaving
  in which no thread is delayed between the test of a list of parts and the event it sets; with such a
  delay a later call can return a wrong sum.
\<close>

section \<open>The invariant\<close>

text \<open>How far a thread is after its last wait for a part, in the order of the statements.\<close>

definition stage :: "pc \<Rightarrow> nat" where
  "stage p =
     (case p of Append _ \<Rightarrow> 0 | Check _ \<Rightarrow> 0 | Set_Part _ \<Rightarrow> 0 | Wait_Part \<Rightarrow> 0 | Reduce \<Rightarrow> 1 | Clear_Parts \<Rightarrow> 2
      | Clear_Event \<Rightarrow> 3 | Enter \<Rightarrow> 4 | Store \<Rightarrow> 5 | Note \<Rightarrow> 6 | Check_All \<Rightarrow> 7 | Set_All \<Rightarrow> 8 | Wait_All \<Rightarrow> 9
      | Gather \<Rightarrow> 10 | Reset \<Rightarrow> 11 | Done \<Rightarrow> 12)"

definition appended :: "pc \<Rightarrow> nat \<Rightarrow> bool" where
  "appended p i \<longleftrightarrow> (case p of Append k \<Rightarrow> i < k | Check k \<Rightarrow> i \<le> k | Set_Part k \<Rightarrow> i \<le> k | _ \<Rightarrow> True)"

definition contributed :: "nat \<Rightarrow> 'a all_reduce \<Rightarrow> nat \<Rightarrow> nat \<Rightarrow> bool" where
  "contributed c s i r \<longleftrightarrow> calls s r = c \<and> appended (pcs s r) i"

text \<open>The scatter phase of the newest call \<open>c\<close>: ranks still in the call before have noted themselves there.\<close>

definition part_ok :: "nat \<Rightarrow> (nat \<Rightarrow> nat \<Rightarrow> 'a::comm_monoid_add list) \<Rightarrow> nat \<Rightarrow> 'a all_reduce \<Rightarrow> nat \<Rightarrow> bool" where
  "part_ok n x c s i \<longleftrightarrow>
     mset (tensor_parts s i) =
        (if calls s i = c \<and> 3 \<le> stage (pcs s i) then {#}
         else image_mset (\<lambda>r. tensor_part n i (x c r)) (mset_set {r. r < n \<and> contributed c s i r}))
   \<and> (part_ready s i \<longrightarrow> (\<forall>r<n. contributed c s i r) \<and> stage (pcs s i) < 4)
   \<and> (calls s i = c \<and> 1 \<le> stage (pcs s i) \<longrightarrow> (\<forall>r<n. contributed c s i r))"

definition scatter_ok :: "nat \<Rightarrow> (nat \<Rightarrow> nat \<Rightarrow> 'a::comm_monoid_add list) \<Rightarrow> nat \<Rightarrow> 'a all_reduce \<Rightarrow> bool" where
  "scatter_ok n x c s \<longleftrightarrow> (\<forall>i<n. part_ok n x c s i)"

definition pc_ok :: "nat \<Rightarrow> pc \<Rightarrow> bool" where
  "pc_ok n p \<longleftrightarrow> (case p of Append i \<Rightarrow> i < n | Check i \<Rightarrow> i < n | Set_Part i \<Rightarrow> False | _ \<Rightarrow> True)"

definition ranks_ok :: "nat \<Rightarrow> nat \<Rightarrow> 'a all_reduce \<Rightarrow> bool" where
  "ranks_ok n c s \<longleftrightarrow>
     (\<forall>r<n. (calls s r = c \<or> Suc (calls s r) = c \<and> 7 \<le> stage (pcs s r))
       \<and> pc_ok n (pcs s r)
       \<and> (5 \<le> stage (pcs s r) \<longrightarrow> local_gather s r = calls s r))"

definition noted :: "nat \<Rightarrow> nat \<Rightarrow> 'a all_reduce \<Rightarrow> nat set" where
  "noted n c s = {r. r < n \<and> calls s r = c \<and> 7 \<le> stage (pcs s r)}"

definition full_gather :: "nat \<Rightarrow> 'a list \<Rightarrow> 'a gather_state \<Rightarrow> bool" where
  "full_gather n v g \<longleftrightarrow>
     set (gt_updated g) = {..<n} \<and> distinct (gt_updated g) \<and> (\<forall>r<n. gt_parts g r = Some (tensor_part n r v))"

text \<open>The gather phase: the object of the newest call fills up, that of the call before is full.\<close>

definition gather_ok :: "nat \<Rightarrow> (nat \<Rightarrow> 'a list) \<Rightarrow> nat \<Rightarrow> 'a all_reduce \<Rightarrow> bool" where
  "gather_ok n v c s \<longleftrightarrow>
     set (gt_updated (gathers s c)) = noted n c s \<and> distinct (gt_updated (gathers s c))
   \<and> (gt_ready (gathers s c) \<longrightarrow> noted n c s = {..<n})
   \<and> (\<forall>r<n. calls s r = c \<and> 2 \<le> stage (pcs s r) \<longrightarrow> reduced s r = tensor_part n r (v c))
   \<and> (\<forall>r<n. calls s r = c \<and> 6 \<le> stage (pcs s r) \<longrightarrow> gt_parts (gathers s c) r = Some (tensor_part n r (v c)))
   \<and> (\<forall>r<n. calls s r = c \<and> 10 \<le> stage (pcs s r) \<longrightarrow> noted n c s = {..<n})
   \<and> (\<forall>r<n. calls s r = c \<and> pcs s r = Set_All \<longrightarrow> noted n c s = {..<n})
   \<and> (\<forall>r<n. calls s r \<noteq> c \<longrightarrow> full_gather n (v (c - 1)) (gathers s (c - 1)))
   \<and> (\<forall>c' > c. gathers s c' = fresh_gather)"

text \<open>Which object the next thread takes: the rank noted last moves on to a new one.\<close>

definition current_ok :: "nat \<Rightarrow> nat \<Rightarrow> 'a all_reduce \<Rightarrow> bool" where
  "current_ok n c s \<longleftrightarrow>
     (if \<forall>r<n. calls s r = c
      then current s = (if noted n c s = {..<n} \<and> pcs s (last (gt_updated (gathers s c))) = Done then Suc c else c)
      else let q = last (gt_updated (gathers s (c - 1))) in
        current s = (if calls s q \<noteq> c \<and> pcs s q \<noteq> Done then c - 1 else c))"

definition outcomes_ok :: "nat \<Rightarrow> (nat \<Rightarrow> 'a list) \<Rightarrow> 'a all_reduce \<Rightarrow> bool" where
  "outcomes_ok n v s \<longleftrightarrow>
     (\<forall>r<n. outcomes s r = map v [0..<if 11 \<le> stage (pcs s r) then Suc (calls s r) else calls s r])"

definition all_reduce_ok :: "nat \<Rightarrow> (nat \<Rightarrow> nat \<Rightarrow> 'a::comm_monoid_add list) \<Rightarrow> (nat \<Rightarrow> 'a list) \<Rightarrow> nat \<Rightarrow> 'a all_reduce \<Rightarrow> bool" where
  "all_reduce_ok n x v c s \<longleftrightarrow>
     ranks_ok n c s \<and> scatter_ok n x c s \<and> gather_ok n v c s \<and> current_ok n c s \<and> outcomes_ok n v s"

section \<open>Every statement keeps it\<close>

lemmas all_reduce_parts = worker_step_def goto_pc_def Let_def

lemma stage_simps [simp]:
  "stage (Append i) = 0" "stage (Check i) = 0" "stage (Set_Part i) = 0" "stage Wait_Part = 0" "stage Reduce = 1"
  "stage Clear_Parts = 2" "stage Clear_Event = 3" "stage Enter = 4" "stage Store = 5" "stage Note = 6" "stage Check_All = 7"
  "stage Set_All = 8" "stage Wait_All = 9" "stage Gather = 10" "stage Reset = 11" "stage Done = 12" "stage (next_part n i) = 0"
  by (simp_all add: stage_def next_part_def)

lemma pc_ok_simps [simp]:
  "pc_ok n (Append i) \<longleftrightarrow> i < n" "pc_ok n (Check i) \<longleftrightarrow> i < n" "\<not> pc_ok n (Set_Part i)" "pc_ok n Wait_Part" "pc_ok n Reduce"
  "pc_ok n Clear_Parts" "pc_ok n Clear_Event" "pc_ok n Enter" "pc_ok n Store" "pc_ok n Note" "pc_ok n Check_All" "pc_ok n Set_All"
  "pc_ok n Wait_All" "pc_ok n Gather" "pc_ok n Reset" "pc_ok n Done" "pc_ok n (next_part n i)"
  by (simp_all add: pc_ok_def next_part_def)

lemma next_part_not [simp]: "next_part n i \<noteq> Set_All" "next_part n i \<noteq> Done"
  by (simp_all add: next_part_def)

lemma contributed_calls: "contributed c s i r \<Longrightarrow> calls s r = c"
  by (simp add: contributed_def)

lemma newest_call:
  assumes "ranks_ok n c s" "r < n" "stage (pcs s r) < 7"
  shows "calls s r = c"
  using assms by (force simp: ranks_ok_def)

lemma all_in_call:
  assumes "scatter_ok n x c s" "r < n" "calls s r = c" "1 \<le> stage (pcs s r)"
  shows "\<forall>q<n. calls s q = c"
  using assms by (auto simp: scatter_ok_def part_ok_def contributed_def)

lemma ranks_ok_step:
  assumes "all_reduce_ok n x v c s" "r < n" "worker_step False n x r s = Some s'" "pcs s r \<noteq> Done"
  shows "ranks_ok n c s'"
proof -
  have ok: "ranks_ok n c s" "scatter_ok n x c s" "current_ok n c s" using assms(1) by (simp_all add: all_reduce_ok_def)
  have enter: "current s = c" if "pcs s r = Enter"
  proof -
    have call: "calls s r = c" using newest_call [OF ok(1) assms(2)] that by simp
    have "r \<notin> noted n c s" using that by (simp add: noted_def)
    then have "noted n c s \<noteq> {..<n}" using assms(2) by blast
    then show ?thesis using ok(3) all_in_call [OF ok(2) assms(2) call] that by (simp add: current_ok_def)
  qed
  have here: "pc_ok n (pcs s r)" using ok(1) assms(2) by (simp add: ranks_ok_def)
  show ?thesis
    using ok(1) assms(2-4) here enter newest_call [OF ok(1) assms(2)]
    by (cases "pcs s r") (auto simp: all_reduce_parts ranks_ok_def split: if_splits)
qed

lemma outcomes_ok_step:
  assumes "all_reduce_ok n x v c s" "r < n" "worker_step False n x r s = Some s'" and "\<And>c. length (v c) = l" "0 < n"
  shows "outcomes_ok n v s'"
proof -
  have ok: "ranks_ok n c s" "gather_ok n v c s" "outcomes_ok n v s" using assms(1) by (simp_all add: all_reduce_ok_def)
  have gathered: "concat (map (the \<circ> gt_parts (gathers s (local_gather s r))) [0..<n]) = v (calls s r)" if "pcs s r = Gather"
  proof -
    have "local_gather s r = calls s r" using ok(1) assms(2) that by (simp add: ranks_ok_def)
    moreover have "full_gather n (v (calls s r)) (gathers s (calls s r))"
    proof (cases "calls s r = c")
      case True
      then have "noted n c s = {..<n}" using ok(2) assms(2) that by (simp add: gather_ok_def)
      then have *: "calls s q = c \<and> 7 \<le> stage (pcs s q)" if "q < n" for q using that by (auto simp: noted_def)
      have "calls s q = c \<and> 6 \<le> stage (pcs s q)" if "q < n" for q using * [OF that] by auto
      then have "gt_parts (gathers s c) q = Some (tensor_part n q (v c))" if "q < n" for q
        using ok(2) that by (simp add: gather_ok_def)
      then show ?thesis using ok(2) True \<open>noted n c s = {..<n}\<close> by (simp add: full_gather_def gather_ok_def)
    next
      case False
      then have "c - 1 = calls s r" using ok(1) assms(2) by (auto simp: ranks_ok_def)
      then show ?thesis using False ok(2) assms(2) by (auto simp: gather_ok_def)
    qed
    ultimately have "map (the \<circ> gt_parts (gathers s (local_gather s r))) [0..<n] = tensor_split n (v (calls s r))"
      by (simp add: full_gather_def tensor_split_def)
    then show ?thesis using assms(5) by (simp add: concat_tensor_split)
  qed
  show ?thesis
    using ok(3) assms(2,3) gathered
    by (cases "pcs s r") (auto simp: all_reduce_parts outcomes_ok_def split: if_splits)
qed

lemma appended_simps [simp]:
  "appended (Append k) i \<longleftrightarrow> i < k" "appended (Check k) i \<longleftrightarrow> i \<le> k" "appended Wait_Part i" "appended Reduce i"
  "appended Clear_Parts i" "appended Clear_Event i" "appended Enter i" "appended Store i" "appended Note i" "appended Check_All i"
  "appended Set_All i" "appended Wait_All i" "appended Gather i" "appended Reset i" "appended Done i"
  by (simp_all add: appended_def)

lemma appended_next: "i < n \<Longrightarrow> k < n \<Longrightarrow> appended (next_part n k) i \<longleftrightarrow> i \<le> k"
  by (auto simp: next_part_def)

lemma part_ok_other:
  assumes "part_ok n x c s i" "tensor_parts s' i = tensor_parts s i" "part_ready s' i = part_ready s i" "calls s' i = calls s i"
    and "\<And>q. q < n \<Longrightarrow> contributed c s' i q = contributed c s i q"
    and "stage (pcs s' i) = stage (pcs s i) \<or> (3 \<le> stage (pcs s' i) \<longleftrightarrow> 3 \<le> stage (pcs s i))
      \<and> (part_ready s i \<longrightarrow> stage (pcs s' i) < 4) \<and> (calls s i = c \<and> stage (pcs s i) = 0 \<longrightarrow> part_ready s i)"
  shows "part_ok n x c s' i"
proof -
  have same: "{q. q < n \<and> contributed c s' i q} = {q. q < n \<and> contributed c s i q}"
    "(\<forall>q<n. contributed c s' i q) \<longleftrightarrow> (\<forall>q<n. contributed c s i q)" using assms(5) by blast+
  from assms(6) show ?thesis
  proof
    assume "stage (pcs s' i) = stage (pcs s i)"
    then show ?thesis using assms(1) by (simp add: part_ok_def same assms(2-4))
  next
    assume *: "(3 \<le> stage (pcs s' i) \<longleftrightarrow> 3 \<le> stage (pcs s i)) \<and> (part_ready s i \<longrightarrow> stage (pcs s' i) < 4)
      \<and> (calls s i = c \<and> stage (pcs s i) = 0 \<longrightarrow> part_ready s i)"
    moreover have "(\<forall>q<n. contributed c s i q)" if "calls s i = c"
      using assms(1) * that by (cases "stage (pcs s i) = 0") (auto simp: part_ok_def)
    ultimately show ?thesis using assms(1) by (simp add: part_ok_def same assms(2-4))
  qed
qed

lemma scatter_ok_step:
  assumes "all_reduce_ok n x v c s" "r < n" "worker_step False n x r s = Some s'" "pcs s r \<noteq> Done"
  shows "scatter_ok n x c s'"
  unfolding scatter_ok_def
proof (intro allI impI)
  fix i assume i: "i < n"
  have ok: "ranks_ok n c s" "part_ok n x c s i" "part_ok n x c s r"
    using assms(1,2) i by (simp_all add: all_reduce_ok_def scatter_ok_def)
  have here: "pc_ok n (pcs s r)" using ok(1) assms(2) by (simp add: ranks_ok_def)
  have call: "stage (pcs s r) < 7 \<Longrightarrow> calls s r = c" using newest_call [OF ok(1) assms(2)] .
  have quiet: "4 \<le> stage (pcs s r) \<Longrightarrow> \<not> part_ready s r" using ok(3) by (auto simp: part_ok_def)
  show "part_ok n x c s' i"
  proof (cases "pcs s r")
    case (Append k)
    then have k: "k < n" "calls s r = c" using here call by simp_all
    have con: "contributed c s' i q \<longleftrightarrow> contributed c s i q \<or> (i = k \<and> q = r)" for q
      using Append assms(3) k by (auto simp: all_reduce_parts contributed_def split: if_splits)
    show ?thesis
    proof (cases "i = k")
      case True
      have "\<not> contributed c s k r" using Append by (simp add: contributed_def)
      then have quiet: "\<not> part_ready s k" "calls s k = c \<longrightarrow> stage (pcs s k) = 0"
        using ok(2) True assms(2) by (force simp: part_ok_def)+
      have "{q. q < n \<and> contributed c s' k q} = insert r {q. q < n \<and> contributed c s k q}"
        using con True assms(2) by auto
      moreover have "mset (tensor_parts s k) = image_mset (\<lambda>q. tensor_part n k (x c q)) (mset_set {q. q < n \<and> contributed c s k q})"
        using ok(2) True quiet by (auto simp: part_ok_def)
      moreover have "tensor_parts s' k = tensor_parts s k @ [tensor_part n k (x c r)]"
        using Append assms(3) k by (auto simp: all_reduce_parts)
      ultimately have "mset (tensor_parts s' k) = image_mset (\<lambda>q. tensor_part n k (x c q)) (mset_set {q. q < n \<and> contributed c s' k q})"
        using \<open>\<not> contributed c s k r\<close> by simp
      moreover have "\<not> part_ready s' k" "calls s' k = c \<longrightarrow> stage (pcs s' k) = 0"
        using Append assms(3) quiet by (auto simp: all_reduce_parts)
      ultimately show ?thesis using True by (auto simp: part_ok_def)
    qed (use Append assms(3) con in \<open>auto simp: all_reduce_parts split: if_splits intro!: part_ok_other [OF ok(2)]\<close>)
  next
    case (Check k)
    then have k: "k < n" "calls s r = c" using here call by simp_all
    have con: "contributed c s' i q \<longleftrightarrow> contributed c s i q" for q
      using Check assms(3) k i by (auto simp: all_reduce_parts contributed_def appended_next split: if_splits)
    show ?thesis
    proof (cases "i = k \<and> length (tensor_parts s k) = n")
      case True
      then have full: "size (mset (tensor_parts s i)) = n" "0 < n" using k by simp_all
      have parts: "mset (tensor_parts s i) = (if calls s i = c \<and> 3 \<le> stage (pcs s i) then {#}
          else image_mset (\<lambda>q. tensor_part n i (x c q)) (mset_set {q. q < n \<and> contributed c s i q}))"
        using ok(2) by (simp add: part_ok_def)
      have open_part: "\<not> (calls s i = c \<and> 3 \<le> stage (pcs s i))"
        using full by (simp add: parts split: if_splits del: size_mset)
      have "card {q. q < n \<and> contributed c s i q} = n"
        using full(1) by (simp only: parts if_not_P [OF open_part] size_image_mset size_mset_set)
      then have "{q. q < n \<and> contributed c s i q} = {..<n}" by (intro card_subset_eq) auto
      then have all: "\<forall>q<n. contributed c s i q" by blast
      then have "calls s i = c" using i contributed_calls by blast
      then have "stage (pcs s i) < 4" using open_part by simp
      then show ?thesis using ok(2) Check assms(3) con all True \<open>calls s i = c\<close> open_part
        by (auto simp: part_ok_def all_reduce_parts split: if_splits)
    qed (rule part_ok_other [OF ok(2)]; use Check assms(3) con in \<open>auto simp: all_reduce_parts split: if_splits\<close>)
  next
    case Wait_Part
    then show ?thesis using ok assms(2,3) call
      by (intro part_ok_other [OF ok(2)]) (auto simp: all_reduce_parts contributed_def split: if_splits)
  next
    case Clear_Parts
    then have con: "contributed c s' i q \<longleftrightarrow> contributed c s i q" for q
      using assms(3) by (auto simp: all_reduce_parts contributed_def split: if_splits)
    show ?thesis
    proof (cases "i = r")
      case True
      then show ?thesis using Clear_Parts ok(3) assms(3) call con by (auto simp: part_ok_def all_reduce_parts)
    qed (use Clear_Parts assms(3) con in \<open>auto simp: all_reduce_parts split: if_splits intro!: part_ok_other [OF ok(2)]\<close>)
  next
    case Clear_Event
    then have con: "contributed c s' i q \<longleftrightarrow> contributed c s i q" for q
      using assms(3) by (auto simp: all_reduce_parts contributed_def split: if_splits)
    show ?thesis
    proof (cases "i = r")
      case True
      then show ?thesis using Clear_Event ok(3) assms(3) call con by (auto simp: part_ok_def all_reduce_parts)
    qed (use Clear_Event assms(3) con in \<open>auto simp: all_reduce_parts split: if_splits intro!: part_ok_other [OF ok(2)]\<close>)
  qed (rule part_ok_other [OF ok(2)]; use here quiet assms(2-4) in \<open>auto simp: all_reduce_parts contributed_def split: if_splits\<close>)+
qed

lemma noted_same:
  assumes "worker_step False n x r s = Some s'" "pcs s r \<noteq> Done" "pcs s r \<noteq> Note"
  shows "noted n c s' = noted n c s"
  using assms by (cases "pcs s r") (auto simp: all_reduce_parts noted_def split: if_splits)

lemma current_ok_same:
  assumes "current_ok n c s" "calls s' = calls s" "current s' = current s" "noted n c s' = noted n c s"
    and "\<And>d. gt_updated (gathers s' d) = gt_updated (gathers s d)" "\<And>q. pcs s' q = Done \<longleftrightarrow> pcs s q = Done"
  shows "current_ok n c s'"
  using assms(1) unfolding current_ok_def assms(2-6) .

lemma current_ok_step:
  assumes "all_reduce_ok n x v c s" "r < n" "worker_step False n x r s = Some s'" "pcs s r \<noteq> Done"
  shows "current_ok n c s'"
proof -
  have ok: "ranks_ok n c s" "scatter_ok n x c s" "gather_ok n v c s" "current_ok n c s"
    using assms(1) by (simp_all add: all_reduce_ok_def)
  have lg: "5 \<le> stage (pcs s r) \<Longrightarrow> local_gather s r = calls s r" using ok(1) assms(2) by (simp add: ranks_ok_def)
  have lag: "calls s r = c \<or> Suc (calls s r) = c" using ok(1) assms(2) by (auto simp: ranks_ok_def)
  show ?thesis
  proof (cases "pcs s r")
    case Note
    then have c: "calls s r = c" "local_gather s r = c" using newest_call [OF ok(1) assms(2)] lg by simp_all
    have all: "\<forall>q<n. calls s q = c" using all_in_call [OF ok(2) assms(2) c(1)] Note by simp
    have "r \<notin> noted n c s" using Note by (simp add: noted_def)
    then have "noted n c s \<noteq> {..<n}" using assms(2) by blast
    then have "current s = c" using ok(4) all by (simp add: current_ok_def)
    moreover have "calls s' = calls s" "current s' = current s" "pcs s' r = Check_All" "last (gt_updated (gathers s' c)) = r"
      using Note assms(3) c by (auto simp: all_reduce_parts)
    ultimately show ?thesis using all by (simp add: current_ok_def)
  next
    case Reset
    then have new: "calls s' = calls s" "gathers s' = gathers s" "pcs s' = (pcs s)(r := Done)" "noted n c s' = noted n c s"
      "current s' = (if last (gt_updated (gathers s (calls s r))) = r then Suc (current s) else current s)"
      using assms(3) lg noted_same [OF assms(3,4)] by (auto simp: all_reduce_parts)
    show ?thesis
    proof (cases "calls s r = c")
      case True
      then have "noted n c s = {..<n}" using ok(3) assms(2) Reset by (simp add: gather_ok_def)
      moreover have "\<forall>q<n. calls s q = c" using all_in_call [OF ok(2) assms(2) True] Reset by simp
      ultimately show ?thesis using ok(4) Reset True by (auto simp: current_ok_def new)
    next
      case False
      let ?q = "last (gt_updated (gathers s (c - 1)))"
      from False have c: "calls s r = c - 1" "0 < c" and some: "(\<forall>q<n. calls s q = c) = False" using lag assms(2) by auto
      have "current s = (if calls s ?q \<noteq> c \<and> pcs s ?q \<noteq> Done then c - 1 else c)"
        using ok(4) by (simp only: current_ok_def some if_False Let_def)
      moreover have "current s' = (if ?q = r then Suc (current s) else current s)" using new(5) c by simp
      ultimately show ?thesis using Reset False c
        by (simp only: current_ok_def new(1-4) some if_False Let_def) (cases "?q = r"; simp)
    qed
  qed (rule current_ok_same [OF ok(4) _ _ noted_same [OF assms(3,4)]];
    use assms(3,4) in \<open>auto simp: all_reduce_parts split: if_splits\<close>)+
qed

lemma gather_ok_same:
  assumes "gather_ok n v c s" "gathers s' = gathers s" "calls s' = calls s" "noted n c s' = noted n c s"
    and "\<And>q. q < n \<Longrightarrow> stage (pcs s' q) = stage (pcs s q) \<and> reduced s' q = reduced s q
      \<or> stage (pcs s' q) < 2 \<or> stage (pcs s' q) < 6 \<and> reduced s' q = tensor_part n q (v c)
      \<or> reduced s' q = reduced s q \<and> 2 \<le> stage (pcs s q) \<and> (stage (pcs s' q) < 6 \<or> 10 \<le> stage (pcs s q))"
    and "\<And>q. q < n \<Longrightarrow> pcs s' q = Set_All \<Longrightarrow> pcs s q = Set_All"
  shows "gather_ok n v c s'"
proof -
  have old: "calls s q = c \<Longrightarrow> 2 \<le> stage (pcs s q) \<Longrightarrow> reduced s q = tensor_part n q (v c)"
    "calls s q = c \<Longrightarrow> 6 \<le> stage (pcs s q) \<Longrightarrow> gt_parts (gathers s c) q = Some (tensor_part n q (v c))"
    "calls s q = c \<Longrightarrow> 10 \<le> stage (pcs s q) \<Longrightarrow> noted n c s = {..<n}"
    "calls s q = c \<Longrightarrow> pcs s q = Set_All \<Longrightarrow> noted n c s = {..<n}" if "q < n" for q
    using assms(1) that by (auto simp: gather_ok_def)
  have new: "reduced s' q = tensor_part n q (v c)" if "q < n" "calls s q = c" "2 \<le> stage (pcs s' q)" for q
  proof -
    have "2 \<le> stage (pcs s q) \<and> reduced s' q = reduced s q \<or> reduced s' q = tensor_part n q (v c)"
      using assms(5) [OF that(1)] that(3) by (elim disjE conjE) simp_all
    then show ?thesis using old(1) [OF that(1,2)] by metis
  qed
  have up: "6 \<le> stage (pcs s q)" if "q < n" "6 \<le> stage (pcs s' q)" for q
    using assms(5) [OF that(1)] that(2) by (elim disjE conjE) simp_all
  have up2: "10 \<le> stage (pcs s q)" if "q < n" "10 \<le> stage (pcs s' q)" for q
    using assms(5) [OF that(1)] that(2) by (elim disjE conjE) simp_all
  have "\<forall>q<n. calls s q = c \<and> 2 \<le> stage (pcs s' q) \<longrightarrow> reduced s' q = tensor_part n q (v c)"
    using new by simp
  moreover have "\<forall>q<n. calls s q = c \<and> 6 \<le> stage (pcs s' q) \<longrightarrow> gt_parts (gathers s c) q = Some (tensor_part n q (v c))"
    using old(2) up by simp
  moreover have "\<forall>q<n. calls s q = c \<and> 10 \<le> stage (pcs s' q) \<longrightarrow> noted n c s = {..<n}" using old(3) up2 by simp
  moreover have "\<forall>q<n. calls s q = c \<and> pcs s' q = Set_All \<longrightarrow> noted n c s = {..<n}" using old(4) assms(6) by simp
  ultimately show ?thesis using assms(1) unfolding gather_ok_def assms(2-4) by simp
qed

lemma gather_ok_step:
  assumes "all_reduce_ok n x v c s" "r < n" "worker_step False n x r s = Some s'" "pcs s r \<noteq> Done"
    and "\<And>c. v c = elementwise_sum n l (x c)" "\<And>c r. r < n \<Longrightarrow> length (x c r) = l"
  shows "gather_ok n v c s'"
proof -
  have ok: "ranks_ok n c s" "part_ok n x c s r" "gather_ok n v c s"
    using assms(1,2) by (simp_all add: all_reduce_ok_def scatter_ok_def)
  have here: "pc_ok n (pcs s r)" using ok(1) assms(2) by (simp add: ranks_ok_def)
  have call: "stage (pcs s r) < 7 \<Longrightarrow> calls s r = c" using newest_call [OF ok(1) assms(2)] .
  have lg: "5 \<le> stage (pcs s r) \<Longrightarrow> local_gather s r = calls s r" using ok(1) assms(2) by (simp add: ranks_ok_def)
  have lag: "calls s r = c \<or> Suc (calls s r) = c" using ok(1) assms(2) by (auto simp: ranks_ok_def)
  have red: "reduce_add (tensor_parts s r) = tensor_part n r (v c)" if "pcs s r = Reduce"
  proof -
    have "calls s r = c" using call that by simp
    then have "\<forall>q<n. contributed c s r q" using ok(2) that by (simp add: part_ok_def)
    then have "{q. q < n \<and> contributed c s r q} = {..<n}" by blast
    then have "mset (tensor_parts s r) = image_mset (\<lambda>q. tensor_part n r (x c q)) (mset_set {..<n})"
      using ok(2) that by (simp add: part_ok_def)
    then show ?thesis using reduce_parts [of "tensor_parts s r" n r "x c" l] assms(2,5,6) by simp
  qed
  note noted_same = noted_same [OF assms(3,4)]
  have old: "calls s r \<noteq> c \<Longrightarrow> local_gather s r = c - 1 \<and> 0 < c" if "5 \<le> stage (pcs s r)" using lag lg that by auto
  show ?thesis
  proof (cases "pcs s r")
    case Store
    then have "calls s r = c" "local_gather s r = c" using call lg by simp_all
    then show ?thesis using Store ok(3) noted_same assms(2,3)
      by (auto simp: all_reduce_parts gather_ok_def full_gather_def split: if_splits)
  next
    case Note
    then have c: "calls s r = c" "local_gather s r = c" using call lg by simp_all
    have "r \<notin> noted n c s" using Note by (simp add: noted_def)
    then have "noted n c s \<noteq> {..<n}" using assms(2) by blast
    moreover have "noted n c s' = insert r (noted n c s)"
      using Note assms(2,3) c by (auto simp: all_reduce_parts noted_def)
    ultimately show ?thesis using Note ok(3) assms(2,3) c \<open>r \<notin> noted n c s\<close>
      by (auto simp: all_reduce_parts gather_ok_def full_gather_def split: if_splits)
  next
    case Check_All
    have "noted n c s = {..<n}" if "calls s r = c" "length (gt_updated (gathers s c)) = n"
    proof -
      have "card (noted n c s) = n" using ok(3) that distinct_card by (fastforce simp: gather_ok_def)
      moreover have "noted n c s \<subseteq> {..<n}" by (auto simp: noted_def)
      ultimately show ?thesis by (intro card_subset_eq) simp_all
    qed
    moreover have "noted n c s' = noted n c s" "gathers s' = gathers s" "calls s' = calls s" "reduced s' = reduced s"
      "pcs s' = (pcs s)(r := if length (gt_updated (gathers s (local_gather s r))) = n then Set_All else Wait_All)"
      using Check_All noted_same assms(3) by (auto simp: all_reduce_parts)
    ultimately show ?thesis using Check_All ok(3) lg assms(2) unfolding gather_ok_def by (auto split: if_splits)
  next
    case Set_All
    let ?c = "local_gather s r"
    have same: "pcs s' = (pcs s)(r := Wait_All)" "calls s' = calls s" "reduced s' = reduced s"
      "gathers s' = (gathers s)(?c := (gathers s ?c)\<lparr>gt_ready := True\<rparr>)"
      using Set_All assms(3) by (auto simp: all_reduce_parts)
    have all: "calls s r = c \<Longrightarrow> noted n c s = {..<n}" using Set_All ok(3) assms(2) by (simp add: gather_ok_def)
    have "?c = c \<and> calls s r = c \<or> ?c = c - 1 \<and> 0 < c" using lg old Set_All by (cases "calls s r = c") simp_all
    then show ?thesis using Set_All ok(3) noted_same all unfolding gather_ok_def same
      by (elim disjE) (auto simp: full_gather_def)
  next
    case Wait_All
    then have "noted n c s' = noted n c s" "gathers s' = gathers s" "calls s' = calls s" "reduced s' = reduced s"
      "pcs s' = (pcs s)(r := Gather)" "gt_ready (gathers s (local_gather s r))"
      using noted_same assms(3) by (auto simp: all_reduce_parts split: if_splits)
    then show ?thesis using Wait_All ok(3) lg assms(2) unfolding gather_ok_def by (auto split: if_splits)
  qed (rule gather_ok_same [OF ok(3)]; use here assms(2-4) red noted_same in \<open>auto simp: all_reduce_parts split: if_splits\<close>)+
qed

text \<open>A thread that starts another call either joins the newest one or begins it.\<close>

lemma last_noted:
  assumes "full_gather n w g" "0 < n"
  shows "last (gt_updated g) < n"
  using assms last_in_set [of "gt_updated g"] by (force simp: full_gather_def)

lemma full_after_note:
  assumes "gather_ok n v c s" "noted n c s = {..<n}"
  shows "full_gather n (v c) (gathers s c)"
proof -
  have *: "calls s q = c \<and> 7 \<le> stage (pcs s q)" if "q < n" for q using assms(2) that by (auto simp: noted_def)
  have "calls s q = c \<and> 6 \<le> stage (pcs s q)" if "q < n" for q using * [OF that] by auto
  then show ?thesis using assms by (simp add: full_gather_def gather_ok_def)
qed

lemma all_reduce_ok_join:
  assumes "all_reduce_ok n x v c s" "r < n" "pcs s r = Done" "calls s r \<noteq> c"
    and "s' = goto_pc r (Append 0) (s\<lparr>calls := (calls s)(r := Suc (calls s r))\<rparr>)"
  shows "all_reduce_ok n x v c s'"
proof -
  have ok: "ranks_ok n c s" "scatter_ok n x c s" "gather_ok n v c s" "current_ok n c s" "outcomes_ok n v s"
    using assms(1) by (simp_all add: all_reduce_ok_def)
  have same: "tensor_parts s' = tensor_parts s" "part_ready s' = part_ready s" "gathers s' = gathers s" "current s' = current s"
    "reduced s' = reduced s" "outcomes s' = outcomes s" "local_gather s' = local_gather s"
    "pcs s' = (pcs s)(r := Append 0)" "calls s' = (calls s)(r := c)" and c: "Suc (calls s r) = c"
    using ok(1) assms(2,4,5) by (auto simp: goto_pc_def ranks_ok_def)
  have con: "contributed c s' i q = contributed c s i q" for i q using assms(4) by (simp add: contributed_def same)
  have not_ready: "\<not> part_ready s i" if "i < n" for i
    using ok(2) that assms(2,4) contributed_calls unfolding scatter_ok_def part_ok_def by blast
  have "part_ok n x c s' i" if "i < n" for i
  proof -
    have "part_ok n x c s i" using ok(2) that by (simp add: scatter_ok_def)
    then show ?thesis using not_ready [OF that] assms(4) unfolding part_ok_def con same by (cases "i = r") simp_all
  qed
  then have "scatter_ok n x c s'" by (simp add: scatter_ok_def)
  moreover have "ranks_ok n c s'" using ok(1) assms(2) by (auto simp: ranks_ok_def same)
  moreover have noted: "noted n c s' = noted n c s" using assms(4) by (auto simp: noted_def same)
  then have "gather_ok n v c s'" using ok(3) by (auto simp: gather_ok_def same)
  moreover have "outcomes_ok n v s'" using ok(5) assms(2,3) c by (auto simp: outcomes_ok_def same)
  moreover have "current_ok n c s'"
  proof -
    let ?q = "last (gt_updated (gathers s (c - 1)))"
    have some: "(\<forall>q<n. calls s q = c) = False" using assms(2,4) by blast
    have cur: "current s = (if calls s ?q \<noteq> c \<and> pcs s ?q \<noteq> Done then c - 1 else c)"
      using ok(4) by (simp only: current_ok_def some if_False Let_def)
    have q: "?q < n" using ok(3) assms(2,4) by (intro last_noted) (auto simp: gather_ok_def)
    have "r \<notin> noted n c s'" by (simp add: noted_def same)
    then have "noted n c s' \<noteq> {..<n}" using assms(2) by blast
    then show ?thesis using cur q assms(3) by (cases "?q = r") (auto simp: current_ok_def same Let_def)
  qed
  ultimately show ?thesis by (simp add: all_reduce_ok_def)
qed

lemma all_reduce_ok_begin:
  assumes "all_reduce_ok n x v c s" "r < n" "pcs s r = Done" "calls s r = c"
    and "s' = goto_pc r (Append 0) (s\<lparr>calls := (calls s)(r := Suc (calls s r))\<rparr>)"
  shows "all_reduce_ok n x v (Suc c) s'"
proof -
  have ok: "ranks_ok n c s" "scatter_ok n x c s" "gather_ok n v c s" "current_ok n c s" "outcomes_ok n v s"
    using assms(1) by (simp_all add: all_reduce_ok_def)
  have same: "tensor_parts s' = tensor_parts s" "part_ready s' = part_ready s" "gathers s' = gathers s" "current s' = current s"
    "reduced s' = reduced s" "outcomes s' = outcomes s" "local_gather s' = local_gather s"
    "pcs s' = (pcs s)(r := Append 0)" "calls s' = (calls s)(r := Suc c)"
    using assms(4,5) by (auto simp: goto_pc_def)
  have all: "noted n c s = {..<n}" using ok(3) assms(2-4) by (auto simp: gather_ok_def)
  then have in_c: "calls s q = c" "7 \<le> stage (pcs s q)" if "q < n" for q using that by (auto simp: noted_def)
  have con: "\<not> contributed (Suc c) s' i q" if "q < n" for i q using in_c [OF that] by (auto simp: contributed_def same)
  have "part_ok n x (Suc c) s' i" if i: "i < n" for i
  proof -
    have none: "{q. q < n \<and> contributed (Suc c) s' i q} = {}" using con by blast
    have "tensor_parts s i = []" "\<not> part_ready s i" using ok(2) in_c [OF i] i by (auto simp: scatter_ok_def part_ok_def)
    then show ?thesis using in_c [OF i] unfolding part_ok_def none same by auto
  qed
  then have "scatter_ok n x (Suc c) s'" by (simp add: scatter_ok_def)
  moreover have "ranks_ok n (Suc c) s'" using ok(1) assms(2) in_c by (auto simp: ranks_ok_def same)
  moreover have none: "noted n (Suc c) s' = {}" using in_c by (auto simp: noted_def same)
  have full: "full_gather n (v c) (gathers s c)" using full_after_note [OF ok(3) all] .
  have "\<forall>c'>c. gathers s c' = fresh_gather" using ok(3) by (simp add: gather_ok_def)
  then have "gather_ok n v (Suc c) s'" using full in_c none by (auto simp: gather_ok_def same fresh_gather_def split: if_splits)
  moreover have "outcomes_ok n v s'" using ok(5) assms(2-4) by (auto simp: outcomes_ok_def same)
  moreover have "current_ok n (Suc c) s'"
  proof -
    let ?q = "last (gt_updated (gathers s c))"
    have "\<forall>q<n. calls s q = c" using in_c by blast
    then have cur: "current s = (if pcs s ?q = Done then Suc c else c)" using ok(4) all by (simp add: current_ok_def)
    have q: "?q < n" using last_noted [OF full] assms(2) by simp
    have "noted n (Suc c) s' \<noteq> {..<n}" using none assms(2) by auto
    then show ?thesis using cur q assms(3) in_c by (cases "?q = r") (auto simp: current_ok_def same Let_def)
  qed
  ultimately show ?thesis by (simp add: all_reduce_ok_def)
qed

section \<open>Every call returns the sum\<close>

lemma all_reduce_reachable:
  assumes "(all_reduce_step False n x)\<^sup>*\<^sup>* init_all_reduce s" "0 < n" "\<And>c r. r < n \<Longrightarrow> length (x c r) = l"
  shows "\<exists>c. all_reduce_ok n x (\<lambda>c. elementwise_sum n l (x c)) c s"
  using assms(1)
proof (induction rule: rtranclp_induct)
  case base
  have "all_reduce_ok n x (\<lambda>c. elementwise_sum n l (x c)) 0 init_all_reduce"
    using assms(2) by (auto simp: all_reduce_ok_def ranks_ok_def scatter_ok_def part_ok_def contributed_def gather_ok_def noted_def
      current_ok_def outcomes_ok_def init_all_reduce_def fresh_gather_def)
  then show ?case ..
next
  case (step s s')
  let ?v = "\<lambda>c. elementwise_sum n l (x c)"
  obtain c where ok: "all_reduce_ok n x ?v c s" using step.IH by blast
  obtain r where r: "r < n" "worker_step False n x r s = Some s'" using step.hyps(2) by (auto elim: all_reduce_step.cases)
  show ?case
  proof (cases "pcs s r = Done")
    case True
    then have "s' = goto_pc r (Append 0) (s\<lparr>calls := (calls s)(r := Suc (calls s r))\<rparr>)" using r(2) by (simp add: worker_step_def Let_def)
    then show ?thesis using all_reduce_ok_join [OF ok r(1) True] all_reduce_ok_begin [OF ok r(1) True] by blast
  next
    case False
    note moved = ok r False
    have "all_reduce_ok n x ?v c s'"
      using ranks_ok_step [OF moved] scatter_ok_step [OF moved] current_ok_step [OF moved]
        gather_ok_step [OF moved, of l] outcomes_ok_step [OF ok r, of l] assms(2,3)
      by (simp add: all_reduce_ok_def elementwise_sum_def)
    then show ?thesis ..
  qed
qed

text \<open>C29. The all-reduce of the shards is right: in any interleaving of the threads in which none is delayed between its test
  of a list of parts and the event it sets, every rank gets from each of its calls the elementwise sum of what all
  ranks passed to that call, however many calls there are, when all calls use vectors of one and the same length.\<close>

theorem all_reduce_exact:
  assumes "(all_reduce_step False n x)\<^sup>*\<^sup>* init_all_reduce s" "r < n" "\<And>c r. r < n \<Longrightarrow> length (x c r) = l"
    and "k < length (outcomes s r)"
  shows "outcomes s r ! k = elementwise_sum n l (x k)"
proof -
  have "0 < n" using assms(2) by simp
  then obtain c where "all_reduce_ok n x (\<lambda>c. elementwise_sum n l (x c)) c s"
    using all_reduce_reachable [OF assms(1) _ assms(3)] by blast
  then have "outcomes s r = map (\<lambda>c. elementwise_sum n l (x c)) [0..<length (outcomes s r)]"
    using assms(2) by (auto simp: all_reduce_ok_def outcomes_ok_def)
  then show ?thesis using assms(4) by (metis (no_types, lifting) add_0 length_map length_upt minus_nat.diff_0 nth_map nth_upt)
qed

section \<open>A thread that is delayed\<close>

text \<open>The threads run in the order of a list of ranks.\<close>

fun run_schedule ::
  "bool \<Rightarrow> nat \<Rightarrow> (nat \<Rightarrow> nat \<Rightarrow> 'a::comm_monoid_add list) \<Rightarrow> nat list \<Rightarrow> 'a all_reduce \<Rightarrow> 'a all_reduce option" where
  "run_schedule delays n x [] s = Some s"
| "run_schedule delays n x (r # rs) s =
     (if r < n then Option.bind (worker_step delays n x r s) (run_schedule delays n x rs) else None)"

lemma run_schedule_reachable: "run_schedule delays n x rs s = Some s' \<Longrightarrow> (all_reduce_step delays n x)\<^sup>*\<^sup>* s s'"
proof (induction rs arbitrary: s)
  case (Cons r rs)
  then obtain t where "r < n" "worker_step delays n x r s = Some t" "run_schedule delays n x rs t = Some s'"
    by (auto split: if_splits Option.bind_splits)
  then show ?case using Cons.IH by (meson all_reduce_step.step converse_rtranclp_into_rtranclp)
qed simp

definition delayed_schedule :: "nat list" where
  "delayed_schedule = 0 # replicate 2 1 @ replicate 8 0 @ replicate 12 1 @ replicate 21 0 @ replicate 18 1 @ replicate 2 0"

text \<open>A thread delayed between its test of a list of parts and the event it sets makes the next all-reduce wrong: the
  event it sets too late lets the owner of the part go on with its own input only.\<close>

theorem late_event_loses_parts:
  "\<exists>s. (all_reduce_step True 2 (\<lambda>c r. [1, 1 :: int]))\<^sup>*\<^sup>* init_all_reduce s
     \<and> outcomes s 0 = [[2, 2], [1, 2]] \<and> elementwise_sum 2 2 (\<lambda>r. [1, 1 :: int]) = [2, 2]"
proof -
  have "map_option (\<lambda>s. outcomes s 0) (run_schedule True 2 (\<lambda>c r. [1, 1 :: int]) delayed_schedule init_all_reduce) = Some [[2, 2], [1, 2]]"
    by code_simp
  then obtain s where "run_schedule True 2 (\<lambda>c r. [1, 1 :: int]) delayed_schedule init_all_reduce = Some s" "outcomes s 0 = [[2, 2], [1, 2]]"
    by auto
  moreover have "elementwise_sum 2 2 (\<lambda>r. [1, 1 :: int]) = [2, 2]" by code_simp
  ultimately show ?thesis using run_schedule_reachable by blast
qed

definition prompt_schedule :: "nat list" where
  "prompt_schedule = 0 # replicate 2 1 @ replicate 3 0 @ replicate 10 1 @ replicate 11 0"

theorem all_reduce_exact_witness:
  "\<exists>s :: int all_reduce. outcomes s 0 \<noteq> [] \<and> outcomes s 0 ! 0 = elementwise_sum 2 3 (\<lambda>r. if r = 0 then [1, 2, 3] else [10, 20, 30 :: int])"
proof -
  let ?x = "\<lambda>c r. if r = 0 then [1, 2, 3] else [10, 20, 30 :: int]"
  have "map_option (\<lambda>s. length (outcomes s 0)) (run_schedule False 2 ?x prompt_schedule init_all_reduce) = Some 1" by code_simp
  then obtain s where s: "run_schedule False 2 ?x prompt_schedule init_all_reduce = Some s" "length (outcomes s 0) = 1" by auto
  then have "outcomes s 0 ! 0 = elementwise_sum 2 3 (?x 0)"
    by (intro all_reduce_exact [OF run_schedule_reachable [OF s(1)]]) auto
  then show ?thesis using s(2) by (intro exI [of _ s]) auto
qed

end
