(* ===== verification/Tensor_Parallel.thy ===== *)
theory Tensor_Parallel
  imports Collectives KV_Cache
begin

text \<open>
  Models the slicing of a block over several devices: \<open>src/drift/utils/tensor_parallel/configs.py\<close>,
  \<open>slicer.py\<close>, \<open>utils.py\<close> and \<open>wrapper.py\<close> with the count of heads of \<open>make_tensor_parallel\<close>
  (\<open>src/drift/utils/convert_block.py\<close>). A parameter is a vector, a list of rows or a list of matrices;
  reshaping, splitting and flattening one axis act on its positions only. Collective operations are
  applied to the list of what all ranks pass in. The patterns of the rules all ask for the end of a name.
  Devices, copies, the generic configuration and gradients are not represented.
\<close>

section \<open>Splitting an axis\<close>

datatype 'a param = Vector "'a list" | Matrix "'a list list" | Cube "'a list list list"

text \<open>The positions of an axis of a given length that a rank keeps.\<close>

fun chunks :: "nat \<Rightarrow> nat \<Rightarrow> 'a list \<Rightarrow> 'a list list" where
  "chunks 0 k xs = []"
| "chunks (Suc m) k xs = take k xs # chunks m k (drop k xs)"

definition split_positions :: "nat \<Rightarrow> nat \<Rightarrow> nat \<Rightarrow> nat list res" where
  "split_positions world_size rank l = Inr (tensor_part world_size rank [0..<l])"

definition split_heads :: "nat \<Rightarrow> nat \<Rightarrow> nat \<Rightarrow> nat \<Rightarrow> nat list res" where
  "split_heads head_dim world_size rank l =
     (if head_dim = 0 then Inl ZeroDivisionError
      else if l mod head_dim \<noteq> 0 then Inl AssertionError
      else Inr (concat (tensor_part world_size rank (chunks (l div head_dim) head_dim [0..<l]))))"

definition split_gate_up :: "nat \<Rightarrow> nat \<Rightarrow> nat \<Rightarrow> nat list res" where
  "split_gate_up world_size rank l =
     (if l mod 2 \<noteq> 0 then Inl RuntimeError
      else Inr (concat (map (tensor_part world_size rank) (chunks 2 (l div 2) [0..<l]))))"

definition take_positions :: "(nat \<Rightarrow> nat list res) \<Rightarrow> 'a list \<Rightarrow> 'a list res" where
  "take_positions keep xs = rbind (keep (length xs)) (\<lambda>is. Inr (map ((!) xs) is))"

definition on_axis :: "nat \<Rightarrow> (nat \<Rightarrow> nat list res) \<Rightarrow> 'a param \<Rightarrow> 'a param res" where
  "on_axis d keep p =
     (case p of
        Vector xs \<Rightarrow> if d = 0 then rbind (take_positions keep xs) (\<lambda>ys. Inr (Vector ys)) else Inl IndexError
      | Matrix rows \<Rightarrow>
          if d = 0 then rbind (take_positions keep rows) (\<lambda>ys. Inr (Matrix ys))
          else if d = 1 then rbind (rmap (take_positions keep) rows) (\<lambda>ys. Inr (Matrix ys)) else Inl IndexError
      | Cube ms \<Rightarrow>
          if d = 0 then rbind (take_positions keep ms) (\<lambda>ys. Inr (Cube ys))
          else if d = 1 then rbind (rmap (take_positions keep) ms) (\<lambda>ys. Inr (Cube ys))
          else if d = 2 then rbind (rmap (rmap (take_positions keep)) ms) (\<lambda>ys. Inr (Cube ys)) else Inl IndexError)"

definition split_num_heads :: "nat \<Rightarrow> nat \<Rightarrow> nat \<Rightarrow> nat" where
  "split_num_heads num_heads rank world_size = length (tensor_part world_size rank [0..<num_heads])"

text \<open>The additive biases of the heads, for each element of a batch.\<close>

definition split_alibi :: "nat \<Rightarrow> nat \<Rightarrow> nat \<Rightarrow> 'a list \<Rightarrow> 'a list res" where
  "split_alibi num_heads rank world_size biases =
     (if num_heads = 0 \<or> length biases mod num_heads \<noteq> 0 then Inl RuntimeError
      else Inr (concat (map (tensor_part world_size rank) (chunks (length biases div num_heads) num_heads biases))))"

text \<open>Falcon's mask and biases: one list of heads per element of a batch, a single head is shared.\<close>

definition split_falcon_alibi :: "nat \<Rightarrow> nat \<Rightarrow> 'a list list option \<Rightarrow> 'a list list option" where
  "split_falcon_alibi rank world_size = map_option (map (tensor_part world_size rank))"

definition split_falcon_attention_mask :: "nat \<Rightarrow> nat \<Rightarrow> 'a list list option \<Rightarrow> 'a list list option" where
  "split_falcon_attention_mask rank world_size attention_mask =
     (case attention_mask of
        None \<Rightarrow> None
      | Some heads \<Rightarrow> if list_all (\<lambda>h. length h = 1) heads then Some heads else Some (map (tensor_part world_size rank) heads))"

section \<open>Rules\<close>

datatype state_action = Split nat | Split_Heads nat nat | Split_Experts | Scale

datatype input_action = Select_Kv | Alibi_Heads nat | Falcon_Alibi | Falcon_Mask

datatype output_action = All_Sum | Gather_Kv

datatype pattern = Ends_With "string list" | Root

definition ends_with :: "string \<Rightarrow> string \<Rightarrow> bool" where
  "ends_with s t \<longleftrightarrow> length t \<le> length s \<and> drop (length s - length t) s = t"

definition pattern_matches :: "pattern \<Rightarrow> string \<Rightarrow> bool" where
  "pattern_matches p name = (case p of Root \<Rightarrow> name = [] | Ends_With ts \<Rightarrow> list_ex (ends_with name) ts)"

definition weight_or_bias :: "string \<Rightarrow> pattern" where
  "weight_or_bias s = Ends_With [s @ ''.weight'', s @ ''.bias'']"

record tp_config =
  state_rules :: "(pattern \<times> state_action) list"
  input_rules :: "(pattern \<times> (string \<times> input_action) list) list"
  output_rules :: "(pattern \<times> (nat \<times> output_action) list) list"
  attr_rules :: "(pattern \<times> (string \<times> nat) list) list"

text \<open>What the configurations read of a model; an attribute rule carries the number of devices.\<close>

record tp_model =
  tm_config :: model_config
  tm_new_decoder :: bool
  tm_multi_query :: bool

abbreviation tm_heads :: "tp_model \<Rightarrow> nat" where "tm_heads m \<equiv> num_attention_heads (tm_config m)"

abbreviation tm_hidden :: "tp_model \<Rightarrow> nat" where "tm_hidden m \<equiv> hidden_size (tm_config m)"

definition or_nat :: "nat option \<Rightarrow> nat \<Rightarrow> nat" where
  "or_nat v d = (case v of None \<Rightarrow> d | Some n \<Rightarrow> if n = 0 then d else n)"

definition attention_head_dim :: "tp_model \<Rightarrow> nat res" where
  "attention_head_dim m = (if or_nat (cfg_head_dim (tm_config m)) 0 \<noteq> 0 then Inr (or_nat (cfg_head_dim (tm_config m)) 0) else int_div (tm_hidden m) (tm_heads m))"

definition gqa_head_dims :: "tp_model \<Rightarrow> (nat \<times> nat \<times> nat \<times> nat) res" where
  "gqa_head_dims m =
     (let kv = or_nat (cfg_kv_heads (tm_config m)) (tm_heads m) in
      rbind (attention_head_dim m) (\<lambda>head_dim. rbind (int_div (tm_heads m) kv) (\<lambda>groups. Inr (tm_heads m, kv, head_dim, groups))))"

definition gqa_attention_state_rules :: "nat \<Rightarrow> nat \<Rightarrow> (pattern \<times> state_action) list" where
  "gqa_attention_state_rules head_dim groups =
     [(weight_or_bias ''self_attn.q_proj'', Split_Heads 0 (groups * head_dim)),
      (weight_or_bias ''self_attn.k_proj'', Split_Heads 0 head_dim),
      (weight_or_bias ''self_attn.v_proj'', Split_Heads 0 head_dim),
      (Ends_With [''self_attn.o_proj.weight''], Split_Heads 1 (groups * head_dim)),
      (Ends_With [''self_attn.o_proj.bias''], Scale)]"

text \<open>The multilayer perceptron of Bloom and Falcon.\<close>

definition dense_mlp_rules :: "(pattern \<times> state_action) list" where
  "dense_mlp_rules =
     [(Ends_With [''self_attention.dense.bias''], Scale), (weight_or_bias ''mlp.dense_h_to_4h'', Split 0),
      (Ends_With [''mlp.dense_4h_to_h.weight''], Split 1), (Ends_With [''mlp.dense_4h_to_h.bias''], Scale)]"

definition get_bloom_config :: "tp_model \<Rightarrow> nat \<Rightarrow> tp_config res" where
  "get_bloom_config m world_size =
     rbind (int_div (tm_hidden m) (tm_heads m)) (\<lambda>head_dim.
     Inr \<lparr>state_rules =
            [(weight_or_bias ''self_attention.query_key_value'', Split_Heads 0 (head_dim * 3)),
             (Ends_With [''self_attention.dense.weight''], Split_Heads 1 head_dim)] @ dense_mlp_rules,
          input_rules = [(Ends_With [''self_attention''], [(''alibi'', Alibi_Heads (tm_heads m))]), (Root, [(''layer_past'', Select_Kv)])],
          output_rules = [(Ends_With [''self_attention.dense''], [(0, All_Sum)]), (Ends_With [''mlp.dense_4h_to_h''], [(0, All_Sum)]),
            (Root, [(1, Gather_Kv)])],
          attr_rules = [(Ends_With [''self_attention''], [(''num_heads'', world_size)])]\<rparr>)"

definition get_llama_config :: "tp_model \<Rightarrow> nat \<Rightarrow> tp_config res" where
  "get_llama_config m world_size =
     rbind (gqa_head_dims m) (\<lambda>(num_heads, kv, head_dim, groups).
     rbind (rassert (world_size \<le> kv) AssertionError) (\<lambda>_.
     Inr \<lparr>state_rules = gqa_attention_state_rules head_dim groups @
            [(Ends_With [''mlp.gate_proj.weight'', ''mlp.gate_proj.bias'', ''mlp.up_proj.weight'', ''mlp.up_proj.bias''], Split 0),
             (Ends_With [''mlp.down_proj.weight''], Split 1), (Ends_With [''mlp.down_proj.bias''], Scale)],
          input_rules = [(Root, [(''layer_past'', Select_Kv)])],
          output_rules = [(Ends_With [''self_attn.o_proj''], [(0, All_Sum)]), (Ends_With [''mlp.down_proj''], [(0, All_Sum)]),
            (Root, [(1, Gather_Kv)])],
          attr_rules = []\<rparr>))"

definition get_mixtral_config :: "tp_model \<Rightarrow> nat \<Rightarrow> tp_config res" where
  "get_mixtral_config m world_size =
     rbind (gqa_head_dims m) (\<lambda>(num_heads, kv, head_dim, groups).
     rbind (rassert (world_size \<le> kv) AssertionError) (\<lambda>_.
     Inr \<lparr>state_rules = gqa_attention_state_rules head_dim groups @
            [(Ends_With [''mlp.experts.gate_up_proj''], Split_Experts), (Ends_With [''mlp.experts.down_proj''], Split 2)],
          input_rules = [(Root, [(''layer_past'', Select_Kv)])],
          output_rules = [(Ends_With [''self_attn.o_proj''], [(0, All_Sum)]), (Ends_With [''mlp''], [(0, All_Sum)]),
            (Root, [(1, Gather_Kv)])],
          attr_rules = []\<rparr>))"

definition falcon_kv_heads :: "tp_model \<Rightarrow> nat" where
  "falcon_kv_heads m = (if tm_new_decoder m \<or> \<not> tm_multi_query m then or_nat (cfg_kv_heads (tm_config m)) 0 else 1)"

definition get_falcon_config :: "tp_model \<Rightarrow> nat \<Rightarrow> tp_config res" where
  "get_falcon_config m world_size =
     rbind (attention_head_dim m) (\<lambda>head_dim.
     let kv = falcon_kv_heads m in
     if 1 < world_size \<and> (kv < world_size \<or> kv mod world_size \<noteq> 0) then Inl NotImplementedError
     else rbind (int_div (tm_heads m) kv) (\<lambda>groups.
     Inr \<lparr>state_rules =
            [(weight_or_bias ''self_attention.query_key_value'', Split_Heads 0 ((groups + 2) * head_dim)),
             (Ends_With [''self_attention.dense.weight''], Split_Heads 1 (groups * head_dim))] @ dense_mlp_rules,
          input_rules = [(Ends_With [''self_attention''], [(''alibi'', Falcon_Alibi), (''attention_mask'', Falcon_Mask)]),
            (Root, [(''layer_past'', Select_Kv)])],
          output_rules = [(Ends_With [''self_attention.dense''], [(0, All_Sum)]), (Ends_With [''mlp.dense_4h_to_h''], [(0, All_Sum)]),
            (Root, [(1, Gather_Kv)])],
          attr_rules = [(Ends_With [''self_attention''], [(''num_heads'', world_size), (''num_kv_heads'', world_size)])]\<rparr>))"

text \<open>Without an own configuration the generic one is used.\<close>

definition get_tensor_parallel_config :: "tp_model \<Rightarrow> nat \<Rightarrow> tp_config res option" where
  "get_tensor_parallel_config m world_size =
     (if cfg_model_type (tm_config m) = ''bloom'' then Some (get_bloom_config m world_size)
      else if cfg_model_type (tm_config m) = ''llama'' then Some (get_llama_config m world_size)
      else if cfg_model_type (tm_config m) = ''mixtral'' then Some (get_mixtral_config m world_size)
      else if cfg_model_type (tm_config m) = ''falcon'' then Some (get_falcon_config m world_size)
      else None)"

section \<open>Applying the rules\<close>

definition scale_list :: "nat \<Rightarrow> 'a::field_char_0 list \<Rightarrow> 'a list" where
  "scale_list world_size = map (\<lambda>v. v / of_nat world_size)"

definition scale_param :: "nat \<Rightarrow> 'a::field_char_0 param \<Rightarrow> 'a param" where
  "scale_param world_size p =
     (case p of
        Vector xs \<Rightarrow> Vector (scale_list world_size xs)
      | Matrix rows \<Rightarrow> Matrix (map (scale_list world_size) rows)
      | Cube ms \<Rightarrow> Cube (map (map (scale_list world_size)) ms))"

text \<open>\<open>apply_action\<close> on a parameter.\<close>

definition apply_state_action :: "nat \<Rightarrow> nat \<Rightarrow> state_action \<Rightarrow> 'a::field_char_0 param \<Rightarrow> 'a param res" where
  "apply_state_action rank world_size action p =
     (case action of
        Split d \<Rightarrow> on_axis d (split_positions world_size rank) p
      | Split_Heads d head_dim \<Rightarrow> on_axis d (split_heads head_dim world_size rank) p
      | Split_Experts \<Rightarrow> (case p of Cube ms \<Rightarrow> on_axis 1 (split_gate_up world_size rank) p | _ \<Rightarrow> Inl ValueError)
      | Scale \<Rightarrow> Inr (scale_param world_size p))"

fun first_rule :: "(pattern \<times> 'r) list \<Rightarrow> string \<Rightarrow> 'r option" where
  "first_rule [] name = None"
| "first_rule ((p, r) # rules) name = (if pattern_matches p name then Some r else first_rule rules name)"

definition shard_param :: "tp_config \<Rightarrow> nat \<Rightarrow> nat \<Rightarrow> string \<Rightarrow> 'a::field_char_0 param \<Rightarrow> 'a param res" where
  "shard_param cfg world_size rank name p =
     (case first_rule (state_rules cfg) name of None \<Rightarrow> Inr p | Some action \<Rightarrow> apply_state_action rank world_size action p)"

definition process_state ::
  "tp_config \<Rightarrow> nat \<Rightarrow> nat \<Rightarrow> (string \<times> 'a::field_char_0 param) list \<Rightarrow> (string \<times> 'a param) list res" where
  "process_state cfg world_size rank source =
     rmap (\<lambda>(name, p). rbind (shard_param cfg world_size rank name p) (\<lambda>q. Inr (name, q))) source"

text \<open>All rules whose pattern matches are merged; two different actions for one key are an error.\<close>

definition find_matching_actions :: "(pattern \<times> ('k \<times> 'act) list) list \<Rightarrow> string \<Rightarrow> ('k, 'act) dict res" where
  "find_matching_actions rules name =
     rfold (\<lambda>(p, actions) found.
       if \<not> pattern_matches p name then Inr found
       else rfold (\<lambda>(key, action) found.
         (case map_of found key of
            Some other \<Rightarrow> if other \<noteq> action then Inl ValueError else Inr found
          | None \<Rightarrow> Inr (AList.update key action found))) actions found) rules []"

text \<open>Named arguments the module was not given count as \<open>None\<close>.\<close>

definition process_input ::
  "('act \<Rightarrow> 'v option \<Rightarrow> 'v option res) \<Rightarrow> (string, 'act) dict \<Rightarrow> (string, 'v option) dict \<Rightarrow> (string, 'v option) dict res" where
  "process_input apply actions kwargs =
     rfold (\<lambda>(target, action) kw.
       rbind (apply action (case map_of kw target of None \<Rightarrow> None | Some v \<Rightarrow> v)) (\<lambda>v. Inr (AList.update target v kw))) actions kwargs"

datatype 'v module_output = Tensor 'v | Tensors "'v list"

definition process_outputs :: "('act \<Rightarrow> 'v option \<Rightarrow> 'v res) \<Rightarrow> (nat, 'act) dict \<Rightarrow> (nat, 'v) dict \<Rightarrow> (nat, 'v) dict res" where
  "process_outputs apply actions output =
     rfold (\<lambda>(target, action) out. rbind (apply action (map_of out target)) (\<lambda>v. Inr (AList.update target v out))) actions output"

definition process_output :: "('act \<Rightarrow> 'v option \<Rightarrow> 'v res) \<Rightarrow> (nat, 'act) dict \<Rightarrow> 'v module_output \<Rightarrow> 'v module_output res" where
  "process_output apply actions output =
     (case output of
        Tensor v \<Rightarrow> rbind (process_outputs apply actions [(0, v)]) (\<lambda>d. rbind (dict_get d 0) (\<lambda>w. Inr (Tensor w)))
      | Tensors vs \<Rightarrow>
          rbind (process_outputs apply actions (enumerate 0 vs)) (\<lambda>d.
          rbind (rmap (dict_get d) [0..<length vs]) (\<lambda>ws. Inr (Tensors ws))))"

text \<open>The cache of all ranks in one list, keys and values in turn, and the pair of one rank.\<close>

definition gather_kv :: "('v \<times> 'v) list \<Rightarrow> 'v list" where
  "gather_kv kvs = concat (map (\<lambda>(k, v). [k, v]) kvs)"

definition select_kv :: "nat \<Rightarrow> 'v list \<Rightarrow> ('v \<times> 'v) res" where
  "select_kv rank kvs =
     rbind (py_get kvs (int (2 * rank))) (\<lambda>k. rbind (py_get kvs (int (2 * rank + 1))) (\<lambda>v. Inr (k, v)))"

text \<open>A function applied by the authoritative rank: every rank gets its result, or the same exception.\<close>

definition collective_operation :: "('v list \<Rightarrow> 'u list res) \<Rightarrow> 'v list \<Rightarrow> 'u res list" where
  "collective_operation func inputs =
     (case func inputs of
        Inl e \<Rightarrow> map (\<lambda>_. Inl e) inputs
      | Inr outs \<Rightarrow> if length outs < length inputs then map (\<lambda>_. Inl IndexError) inputs else map Inr (take (length inputs) outs))"

section \<open>Nested arguments\<close>

datatype 'a nested = Leaf 'a | Items "'a nested list" | Entries "(string \<times> 'a nested) list"

lemma size_nested_item: "t \<in> set ts \<Longrightarrow> size t < size (Items ts)"
  by (induction ts) auto

lemma size_nested_entry: "(k, t) \<in> set ts \<Longrightarrow> size t < size (Entries ts)"
  by (induction ts) auto

lemma size_nested_lookup: "map_of ts k = Some t \<Longrightarrow> size t < size (Entries ts)"
  by (meson map_of_SomeD size_nested_entry)

function nested_compare :: "'a nested \<Rightarrow> 'b nested \<Rightarrow> bool" where
  "nested_compare (Items ts) (Items us) = (length ts = length us \<and> list_all (\<lambda>p. nested_compare (fst p) (snd p)) (zip ts us))"
| "nested_compare (Items ts) (Leaf u) = False"
| "nested_compare (Items ts) (Entries us) = False"
| "nested_compare (Entries ts) (Entries us) =
     (set (map fst ts) = set (map fst us)
      \<and> list_all (\<lambda>p. case map_of us (fst p) of None \<Rightarrow> False | Some u \<Rightarrow> nested_compare (snd p) u) ts)"
| "nested_compare (Entries ts) (Leaf u) = False"
| "nested_compare (Entries ts) (Items us) = False"
| "nested_compare (Leaf x) u = True"
  by pat_completeness auto
termination
  by (relation "measure (\<lambda>(t, u). size t)")
    (auto dest!: set_zip_leftD simp: less_Suc_eq_le simp del: nested.size intro: size_nested_item size_nested_entry)

text \<open>Dictionaries are read in the order of their keys.\<close>

fun nested_flatten :: "'a nested \<Rightarrow> 'a list" where
  "nested_flatten (Leaf x) = [x]"
| "nested_flatten (Items ts) = concat (map nested_flatten ts)"
| "nested_flatten (Entries kts) = concat (map snd (sort_key fst (map (\<lambda>(k, t). (k, nested_flatten t)) kts)))"

definition in_key_order :: "(string \<times> 'b) list \<Rightarrow> (string \<times> 'b) list" where
  "in_key_order kts = sort_key fst kts"

lemma size_list_mset: "mset xs = mset ys \<Longrightarrow> size_list f xs = size_list f ys"
proof -
  have "size_list f xs = (\<Sum>x\<in>#mset xs. Suc (f x))" for xs :: "'a list" by (induction xs) auto
  then show "mset xs = mset ys \<Longrightarrow> size_list f xs = size_list f ys" by simp
qed

lemma size_in_key_order: "size_list size (map snd (in_key_order kts)) < size (Entries kts)"
proof -
  have "size_list size (map snd (in_key_order kts)) = size_list size (map snd kts)"
    by (rule size_list_mset) (simp add: in_key_order_def)
  also have "\<dots> < size (Entries kts)" by (induction kts) auto
  finally show ?thesis .
qed

function nested_pack :: "'a list \<Rightarrow> 'b nested \<Rightarrow> ('a nested \<times> 'a list) res"
  and pack_items :: "'a list \<Rightarrow> 'b nested list \<Rightarrow> ('a nested list \<times> 'a list) res" where
  "nested_pack flat (Leaf y) = (case flat of [] \<Rightarrow> Inl StopIteration | x # rest \<Rightarrow> Inr (Leaf x, rest))"
| "nested_pack flat (Items ts) = rbind (pack_items flat ts) (\<lambda>(us, rest). Inr (Items us, rest))"
| "nested_pack flat (Entries kts) =
     rbind (pack_items flat (map snd (in_key_order kts))) (\<lambda>(us, rest). Inr (Entries (zip (map fst (in_key_order kts)) us), rest))"
| "pack_items flat [] = Inr ([], flat)"
| "pack_items flat (t # ts) =
     rbind (nested_pack flat t) (\<lambda>(u, rest). rbind (pack_items rest ts) (\<lambda>(us, rest'). Inr (u # us, rest')))"
  by pat_completeness auto
termination
  by (relation "measure (\<lambda>a. case a of Inl (flat, t) \<Rightarrow> size t | Inr (flat, ts) \<Rightarrow> size_list size ts)")
    (use size_in_key_order in \<open>auto simp: less_Suc_eq_le simp del: nested.size(6)\<close>)

section \<open>Running the shards\<close>

text \<open>The arguments every device gets: \<open>move\<close> copies a value to a device.\<close>

definition replicate_args :: "(nat \<Rightarrow> 'a \<Rightarrow> 'a) \<Rightarrow> nat \<Rightarrow> 'a nested \<Rightarrow> 'a nested list res" where
  "replicate_args move devices args =
     rmap (\<lambda>d. rbind (nested_pack (map (move d) (nested_flatten args)) args) (\<lambda>(t, rest). Inr t)) [0..<devices]"

text \<open>The first exception in the order of the ranks is raised again.\<close>

definition tensor_parallel_forward ::
  "(nat \<Rightarrow> 'a \<Rightarrow> 'a) \<Rightarrow> ('a nested list \<Rightarrow> 'o res list) \<Rightarrow> nat \<Rightarrow> nat \<Rightarrow> 'a nested \<Rightarrow> 'o res" where
  "tensor_parallel_forward move run_shards devices output_index args =
     rbind (replicate_args move devices args) (\<lambda>inputs.
     rbind (rmap id (run_shards inputs)) (\<lambda>outputs.
     py_get outputs (int output_index)))"

definition params_complete :: "nat \<Rightarrow> nat list \<Rightarrow> bool" where
  "params_complete original shards \<longleftrightarrow> original \<le> sum_list shards"

section \<open>Counting heads\<close>

text \<open>
  Slicing applies the attribute rules to the attention module of a shard; it replaces the data of the weights
  and leaves the output features of their layers.
\<close>

definition shard_attention :: "tp_config \<Rightarrow> nat \<Rightarrow> nat \<Rightarrow> string \<Rightarrow> attn_module \<Rightarrow> attn_module res" where
  "shard_attention cfg world_size rank name a =
     rbind (find_matching_actions (attr_rules cfg) name) (\<lambda>actions.
     (case map_of actions ''num_heads'' of
        None \<Rightarrow> Inr a
      | Some world \<Rightarrow>
          (case am_num_heads a of
             None \<Rightarrow> Inl GenericException
           | Some h \<Rightarrow> Inr (a\<lparr>am_num_heads := Some (split_num_heads h rank world)\<rparr>))))"

definition check_heads :: "tp_model \<Rightarrow> tp_config \<Rightarrow> nat \<Rightarrow> string \<Rightarrow> attn_module \<Rightarrow> unit res" where
  "check_heads m cfg world_size name a =
     rbind (rmap (\<lambda>rank. rbind (shard_attention cfg world_size rank name a) (\<lambda>b. get_num_attention_heads b (tm_config m))) [0..<world_size]) (\<lambda>counts.
     rassert (sum_list counts = tm_heads m) AssertionError)"

end
