(* ===== verification/Tensor_Parallel_Correct.thy ===== *)
theory Tensor_Parallel_Correct
  imports Tensor_Parallel
begin

text \<open>
  What slicing keeps: the sum over the ranks of the sliced attention and of the sliced multilayer
  perceptron of a Llama block is the output of the whole layer, for any kernel of one group of heads
  and any activation; the sliced heads add up, or are counted wrongly; arguments reach every shard unchanged.
\<close>

section \<open>Positions\<close>

lemma length_chunks [simp]: "length (chunks m k xs) = m"
  by (induction m arbitrary: xs) simp_all

lemma chunks_map: "chunks m k (map f xs) = map (map f) (chunks m k xs)"
  by (induction m arbitrary: xs) (simp_all add: take_map drop_map)

lemma concat_chunks: "length xs = m * k \<Longrightarrow> concat (chunks m k xs) = xs"
  by (induction m arbitrary: xs) simp_all

lemma chunks_lengths: "length xs = m * k \<Longrightarrow> ys \<in> set (chunks m k xs) \<Longrightarrow> length ys = k"
proof (induction m arbitrary: xs)
  case (Suc m)
  then show ?case using Suc.IH [of "drop k xs"] by auto
qed simp

lemma chunks_concat: "(\<And>ys. ys \<in> set yss \<Longrightarrow> length ys = k) \<Longrightarrow> chunks (length yss) k (concat yss) = yss"
  by (induction yss) auto

definition pick :: "nat list \<Rightarrow> 'a list \<Rightarrow> 'a list" where
  "pick is xs = map ((!) xs) is"

definition head_positions :: "nat \<Rightarrow> nat \<Rightarrow> nat \<Rightarrow> nat \<Rightarrow> nat list" where
  "head_positions head_dim heads n r = concat (tensor_part n r (chunks heads head_dim [0..<heads * head_dim]))"

lemma set_tensor_part: "set (tensor_part n r xs) \<subseteq> set xs"
  by (auto simp: tensor_part_def dest: in_set_takeD in_set_dropD)

lemma pick_tensor_part: "pick (tensor_part n r [0..<length xs]) xs = tensor_part n r xs"
  by (simp add: pick_def tensor_part_map [symmetric] map_nth)

lemma set_head_positions: "set (head_positions k h n r) \<subseteq> {..<h * k}"
proof -
  have "set (head_positions k h n r) \<subseteq> set (concat (chunks h k [0..<h * k]))"
    using set_tensor_part [of n r "chunks h k [0..<h * k]"] by (auto simp: head_positions_def)
  then show ?thesis by (simp add: concat_chunks atLeast0LessThan)
qed

lemma pick_head_positions:
  assumes "length xs = h * k"
  shows "pick (head_positions k h n r) xs = concat (tensor_part n r (chunks h k xs))"
proof -
  have "pick (head_positions k h n r) xs = concat (tensor_part n r (map (map ((!) xs)) (chunks h k [0..<h * k])))"
    by (simp add: pick_def head_positions_def map_concat tensor_part_map)
  also have "map (map ((!) xs)) (chunks h k [0..<h * k]) = chunks h k xs"
    using assms by (simp add: chunks_map [symmetric] map_nth flip: assms)
  finally show ?thesis .
qed

lemma concat_tensor_parts: "0 < n \<Longrightarrow> concat (map (\<lambda>r. concat (tensor_part n r xss)) [0..<n]) = concat xss"
proof -
  assume n: "0 < n"
  have "concat (map concat yss) = concat (concat yss)" for yss :: "'a list list list" by (induction yss) simp_all
  from this [of "map (\<lambda>r. tensor_part n r xss) [0..<n]"]
  have "concat (map (\<lambda>r. concat (tensor_part n r xss)) [0..<n]) = concat (concat (map (\<lambda>r. tensor_part n r xss) [0..<n]))"
    by (simp add: comp_def)
  then show ?thesis using concat_tensor_split [OF n, of xss] by (simp add: tensor_split_def)
qed

lemma all_head_positions: "0 < n \<Longrightarrow> concat (map (head_positions k h n) [0..<n]) = [0..<h * k]"
  using concat_tensor_parts [of n "chunks h k [0..<h * k]"] by (simp add: head_positions_def [abs_def] concat_chunks)

lemma all_part_positions: "0 < n \<Longrightarrow> concat (map (\<lambda>r. tensor_part n r [0..<l]) [0..<n]) = [0..<l]"
  using concat_tensor_split [of n "[0..<l]"] by (simp add: tensor_split_def)

lemma length_pick [simp]: "length (pick is xs) = length is"
  by (simp add: pick_def)

lemma pick_map: "set is \<subseteq> {..<length xs} \<Longrightarrow> pick is (map f xs) = map f (pick is xs)"
  by (auto simp: pick_def)

lemma pick_replicate: "set is \<subseteq> {..<l} \<Longrightarrow> pick is (replicate l c) = replicate (length is) c"
  by (induction "is") (simp_all add: pick_def)

lemma pick_map2:
  "set is \<subseteq> {..<length xs} \<Longrightarrow> length ys = length xs \<Longrightarrow> pick is (map2 f xs ys) = map2 f (pick is xs) (pick is ys)"
  by (induction "is") (auto simp: pick_def)

section \<open>Linear layers\<close>

text \<open>\<open>nn.Linear\<close> on one token, with a bias or without.\<close>

definition dot :: "'a::field_char_0 list \<Rightarrow> 'a list \<Rightarrow> 'a" where
  "dot xs ys = sum_list (map2 (*) xs ys)"

definition bias_of :: "'a::field_char_0 list list \<Rightarrow> 'a list option \<Rightarrow> 'a list" where
  "bias_of w b = (case b of None \<Rightarrow> replicate (length w) 0 | Some v \<Rightarrow> v)"

definition nn_linear :: "'a::field_char_0 list list \<Rightarrow> 'a list option \<Rightarrow> 'a list \<Rightarrow> 'a list" where
  "nn_linear w b x = map2 (\<lambda>row c. dot row x + c) w (bias_of w b)"

definition bias_ok :: "'a list list \<Rightarrow> 'a list option \<Rightarrow> bool" where
  "bias_ok w b \<longleftrightarrow> (case b of None \<Rightarrow> True | Some v \<Rightarrow> length v = length w)"

lemma length_bias_of: "bias_ok w b \<Longrightarrow> length (bias_of w b) = length w"
  by (cases b) (simp_all add: bias_ok_def bias_of_def)

lemma length_linear: "bias_ok w b \<Longrightarrow> length (nn_linear w b x) = length w"
  by (simp add: nn_linear_def length_bias_of)

text \<open>Rows of the weight split over the ranks give parts of the output.\<close>

lemma linear_rows:
  assumes "set is \<subseteq> {..<length w}" "bias_ok w b"
  shows "nn_linear (pick is w) (map_option (pick is) b) x = pick is (nn_linear w b x)"
proof -
  have "bias_of (pick is w) (map_option (pick is) b) = pick is (bias_of w b)"
    using assms(1) by (cases b) (simp_all add: bias_of_def pick_replicate)
  then show ?thesis using assms by (simp add: nn_linear_def pick_map2 length_bias_of)
qed

text \<open>Columns of the weight split over the ranks give summands of the output.\<close>

lemma dot_pick: "dot (pick is row) (pick is y) = (\<Sum>j\<leftarrow>is. row ! j * y ! j)"
  by (induction "is") (simp_all add: dot_def pick_def)

lemma dot_sum: "length row = length y \<Longrightarrow> dot row y = (\<Sum>j\<leftarrow>[0..<length y]. row ! j * y ! j)"
  using dot_pick [of "[0..<length y]" row y] by (simp add: pick_def map_nth) (metis map_nth)

lemma linear_columns:
  assumes "0 < n" "concat (map p [0..<n]) = [0..<length y]" "\<And>row. row \<in> set w \<Longrightarrow> length row = length y" "bias_ok w b"
  shows "elementwise_sum n (length w) (\<lambda>r. nn_linear (map (pick (p r)) w) (map_option (scale_list n) b) (pick (p r) y)) = nn_linear w b y"
proof (rule nth_equalityI)
  show "length (elementwise_sum n (length w) (\<lambda>r. nn_linear (map (pick (p r)) w) (map_option (scale_list n) b) (pick (p r) y)))
    = length (nn_linear w b y)" using assms(4) by (simp add: elementwise_sum_def length_linear)
  fix j assume "j < length (elementwise_sum n (length w) (\<lambda>r. nn_linear (map (pick (p r)) w) (map_option (scale_list n) b) (pick (p r) y)))"
  then have j: "j < length w" by (simp add: elementwise_sum_def)
  have bias: "bias_of (map (pick (p r)) w) (map_option (scale_list n) b) ! j = bias_of w b ! j / of_nat n" for r
    using j assms(4) by (cases b) (simp_all add: bias_of_def bias_ok_def scale_list_def)
  have len: "length (bias_of (map (pick (p r)) w) (map_option (scale_list n) b)) = length w" for r
    using assms(4) by (cases b) (simp_all add: bias_of_def bias_ok_def scale_list_def)
  have "(\<Sum>r<n. nn_linear (map (pick (p r)) w) (map_option (scale_list n) b) (pick (p r) y) ! j)
      = (\<Sum>r<n. (\<Sum>i\<leftarrow>p r. w ! j ! i * y ! i) + bias_of w b ! j / of_nat n)"
    using j len bias by (simp add: nn_linear_def dot_pick)
  also have "\<dots> = (\<Sum>r\<leftarrow>[0..<n]. \<Sum>i\<leftarrow>p r. w ! j ! i * y ! i) + bias_of w b ! j"
    using assms(1) by (simp add: sum.distrib sum_list_sum_nth atLeast0LessThan)
  also have "(\<Sum>r\<leftarrow>[0..<n]. \<Sum>i\<leftarrow>p r. w ! j ! i * y ! i) = (\<Sum>i\<leftarrow>concat (map p [0..<n]). w ! j ! i * y ! i)"
  proof -
    have "(\<Sum>r\<leftarrow>rs. \<Sum>i\<leftarrow>p r. f i) = (\<Sum>i\<leftarrow>concat (map p rs). f i)" for rs and f :: "nat \<Rightarrow> 'a" by (induction rs) simp_all
    then show ?thesis .
  qed
  also have "\<dots> = dot (w ! j) y" using assms(2,3) j by (simp add: dot_sum)
  finally show "elementwise_sum n (length w) (\<lambda>r. nn_linear (map (pick (p r)) w) (map_option (scale_list n) b) (pick (p r) y)) ! j
      = nn_linear w b y ! j"
    using j assms(4) by (simp add: elementwise_sum_def nn_linear_def length_bias_of)
qed

section \<open>Sliced attention and perceptron\<close>

text \<open>
  Grouped-query attention of one token: the kernel \<open>f i\<close> of the group of key/value head \<open>i\<close> gets the
  queries of the group, its key and its value; what it reads of the cache depends on \<open>i\<close>.
\<close>

record 'a attention_params =
  q_weight :: "'a list list"
  q_bias :: "'a list option"
  k_weight :: "'a list list"
  k_bias :: "'a list option"
  v_weight :: "'a list list"
  v_bias :: "'a list option"
  o_weight :: "'a list list"
  o_bias :: "'a list option"

definition attention_core ::
  "nat \<Rightarrow> nat \<Rightarrow> (nat \<Rightarrow> 'a list \<Rightarrow> 'a list \<Rightarrow> 'a list \<Rightarrow> 'a list) \<Rightarrow> 'a list \<Rightarrow> 'a list \<Rightarrow> 'a list \<Rightarrow> 'a list" where
  "attention_core group_dim head_dim f q k v =
     (let m = length k div head_dim in
      concat (map (\<lambda>i. f i (chunks m group_dim q ! i) (chunks m head_dim k ! i) (chunks m head_dim v ! i)) [0..<m]))"

definition attention ::
  "nat \<Rightarrow> nat \<Rightarrow> (nat \<Rightarrow> 'a list \<Rightarrow> 'a list \<Rightarrow> 'a list \<Rightarrow> 'a list) \<Rightarrow> 'a::field_char_0 attention_params \<Rightarrow> 'a list \<Rightarrow> 'a list" where
  "attention group_dim head_dim f p x =
     nn_linear (o_weight p) (o_bias p)
       (attention_core group_dim head_dim f (nn_linear (q_weight p) (q_bias p) x) (nn_linear (k_weight p) (k_bias p) x) (nn_linear (v_weight p) (v_bias p) x))"

definition shard_matrix :: "tp_config \<Rightarrow> nat \<Rightarrow> nat \<Rightarrow> string \<Rightarrow> 'a::field_char_0 list list \<Rightarrow> 'a list list res" where
  "shard_matrix cfg n r name w = rbind (shard_param cfg n r name (Matrix w)) (\<lambda>p. case p of Matrix w' \<Rightarrow> Inr w' | _ \<Rightarrow> Inl TypeError)"

definition shard_bias :: "tp_config \<Rightarrow> nat \<Rightarrow> nat \<Rightarrow> string \<Rightarrow> 'a::field_char_0 list option \<Rightarrow> 'a list option res" where
  "shard_bias cfg n r name b =
     (case b of
        None \<Rightarrow> Inr None
      | Some v \<Rightarrow> rbind (shard_param cfg n r name (Vector v)) (\<lambda>p. case p of Vector v' \<Rightarrow> Inr (Some v') | _ \<Rightarrow> Inl TypeError))"

definition shard_attention_params :: "tp_config \<Rightarrow> nat \<Rightarrow> nat \<Rightarrow> 'a::field_char_0 attention_params \<Rightarrow> 'a attention_params res" where
  "shard_attention_params cfg n r p =
     rbind (shard_matrix cfg n r ''self_attn.q_proj.weight'' (q_weight p)) (\<lambda>qw. rbind (shard_bias cfg n r ''self_attn.q_proj.bias'' (q_bias p)) (\<lambda>qb.
     rbind (shard_matrix cfg n r ''self_attn.k_proj.weight'' (k_weight p)) (\<lambda>kw. rbind (shard_bias cfg n r ''self_attn.k_proj.bias'' (k_bias p)) (\<lambda>kb.
     rbind (shard_matrix cfg n r ''self_attn.v_proj.weight'' (v_weight p)) (\<lambda>vw. rbind (shard_bias cfg n r ''self_attn.v_proj.bias'' (v_bias p)) (\<lambda>vb.
     rbind (shard_matrix cfg n r ''self_attn.o_proj.weight'' (o_weight p)) (\<lambda>ow. rbind (shard_bias cfg n r ''self_attn.o_proj.bias'' (o_bias p)) (\<lambda>ob.
     Inr \<lparr>q_weight = qw, q_bias = qb, k_weight = kw, k_bias = kb, v_weight = vw, v_bias = vb, o_weight = ow, o_bias = ob\<rparr>))))))))"

lemma take_split_heads:
  assumes "0 < k" "length xs = h * k"
  shows "take_positions (split_heads k n r) xs = Inr (pick (head_positions k h n r) xs)"
  using assms by (simp add: take_positions_def split_heads_def pick_def head_positions_def)

lemma take_split: "take_positions (split_positions n r) xs = Inr (pick (tensor_part n r [0..<length xs]) xs)"
  by (simp add: take_positions_def split_positions_def pick_def)

lemma llama_rules:
  assumes "get_llama_config m n = Inr cfg" "gqa_head_dims m = Inr (h, kv, d, g)"
  shows "first_rule (state_rules cfg) ''self_attn.q_proj.weight'' = Some (Split_Heads 0 (g * d))"
    "first_rule (state_rules cfg) ''self_attn.q_proj.bias'' = Some (Split_Heads 0 (g * d))"
    "first_rule (state_rules cfg) ''self_attn.k_proj.weight'' = Some (Split_Heads 0 d)"
    "first_rule (state_rules cfg) ''self_attn.k_proj.bias'' = Some (Split_Heads 0 d)"
    "first_rule (state_rules cfg) ''self_attn.v_proj.weight'' = Some (Split_Heads 0 d)"
    "first_rule (state_rules cfg) ''self_attn.v_proj.bias'' = Some (Split_Heads 0 d)"
    "first_rule (state_rules cfg) ''self_attn.o_proj.weight'' = Some (Split_Heads 1 (g * d))"
    "first_rule (state_rules cfg) ''self_attn.o_proj.bias'' = Some Scale"
    "first_rule (state_rules cfg) ''mlp.gate_proj.weight'' = Some (Split 0)"
    "first_rule (state_rules cfg) ''mlp.gate_proj.bias'' = Some (Split 0)"
    "first_rule (state_rules cfg) ''mlp.up_proj.weight'' = Some (Split 0)"
    "first_rule (state_rules cfg) ''mlp.up_proj.bias'' = Some (Split 0)"
    "first_rule (state_rules cfg) ''mlp.down_proj.weight'' = Some (Split 1)"
    "first_rule (state_rules cfg) ''mlp.down_proj.bias'' = Some Scale"
    "attr_rules cfg = []"
  using assms
  by (auto simp: get_llama_config_def gqa_attention_state_rules_def weight_or_bias_def pattern_matches_def ends_with_def res_simps)

lemma length_tensor_part: "length xs = length ys \<Longrightarrow> length (tensor_part n r xs) = length (tensor_part n r ys)"
  by (simp add: tensor_part_def)

lemma nth_tensor_part:
  assumes "i < length (tensor_part n r xs)"
  shows "tensor_part n r xs ! i = xs ! (part_start n (length xs) r + i)" "part_start n (length xs) r + i < length xs"
proof -
  have "i < length xs - part_start n (length xs) r" using assms by (simp add: tensor_part_def)
  then show "part_start n (length xs) r + i < length xs" by simp
  then show "tensor_part n r xs ! i = xs ! (part_start n (length xs) r + i)" using assms by (simp add: tensor_part_def)
qed

lemma chunks_tensor_part:
  assumes "length xs = m * k"
  shows "chunks (length (tensor_part n r (chunks m k xs))) k (concat (tensor_part n r (chunks m k xs))) = tensor_part n r (chunks m k xs)"
    "length (concat (tensor_part n r (chunks m k xs))) = length (tensor_part n r (chunks m k xs)) * k"
proof -
  have lens: "length ys = k" if "ys \<in> set (tensor_part n r (chunks m k xs))" for ys
    using chunks_lengths [OF assms] subsetD [OF set_tensor_part that] by blast
  then show "chunks (length (tensor_part n r (chunks m k xs))) k (concat (tensor_part n r (chunks m k xs))) = tensor_part n r (chunks m k xs)"
    by (rule chunks_concat)
  have "length (concat yss) = length yss * k" if "\<And>ys. ys \<in> set yss \<Longrightarrow> length ys = k" for yss :: "'a list list"
    using that by (induction yss) auto
  then show "length (concat (tensor_part n r (chunks m k xs))) = length (tensor_part n r (chunks m k xs)) * k" using lens by blast
qed

lemma attention_core_shards:
  assumes "length q = kv * gd" "length k = kv * d" "length v = kv * d" "0 < d" "\<And>i a b c. length (f i a b c) = gd"
  shows "length (attention_core gd d f q k v) = kv * gd"
    "attention_core gd d (\<lambda>i. f (part_start n kv r + i)) (pick (head_positions gd kv n r) q) (pick (head_positions d kv n r) k)
      (pick (head_positions d kv n r) v) = pick (head_positions gd kv n r) (attention_core gd d f q k v)"
proof -
  let ?q = "chunks kv gd q" and ?k = "chunks kv d k" and ?v = "chunks kv d v"
  let ?y = "map (\<lambda>i. f i (?q ! i) (?k ! i) (?v ! i)) [0..<kv]" and ?l = "length (tensor_part n r ?k)"
  have core: "attention_core gd d f q k v = concat ?y" using assms(2,4) by (simp add: attention_core_def)
  have lens: "length ys = gd" if "ys \<in> set ?y" for ys using that assms(5) by auto
  have y: "chunks kv gd (concat ?y) = ?y" using chunks_concat [of ?y gd] lens by simp
  have "length (concat yss) = length yss * gd" if "\<And>ys. ys \<in> set yss \<Longrightarrow> length ys = gd" for yss :: "'a list list"
    using that by (induction yss) auto
  from this [of ?y] lens show len: "length (attention_core gd d f q k v) = kv * gd" by (simp add: core)
  have l: "length (tensor_part n r ?q) = ?l" "length (tensor_part n r ?v) = ?l" "length (tensor_part n r ?y) = ?l"
    by (rule length_tensor_part; simp)+
  note parts = pick_head_positions [OF assms(1)] pick_head_positions [OF assms(2)] pick_head_positions [OF assms(3)]
  have m: "length (pick (head_positions d kv n r) k) div d = ?l"
    using chunks_tensor_part(2) [OF assms(2), of n r] assms(4) by (simp only: parts) simp
  have cut: "chunks ?l gd (pick (head_positions gd kv n r) q) = tensor_part n r ?q"
    "chunks ?l d (pick (head_positions d kv n r) k) = tensor_part n r ?k"
    "chunks ?l d (pick (head_positions d kv n r) v) = tensor_part n r ?v"
    using chunks_tensor_part(1) [OF assms(1), of n r] chunks_tensor_part(1) [OF assms(2), of n r] chunks_tensor_part(1) [OF assms(3), of n r]
    by (simp_all only: parts l)
  have "attention_core gd d (\<lambda>i. f (part_start n kv r + i)) (pick (head_positions gd kv n r) q) (pick (head_positions d kv n r) k)
      (pick (head_positions d kv n r) v)
    = concat (map (\<lambda>i. f (part_start n kv r + i) (tensor_part n r ?q ! i) (tensor_part n r ?k ! i) (tensor_part n r ?v ! i)) [0..<?l])"
    by (simp only: attention_core_def Let_def m cut)
  also have "map (\<lambda>i. f (part_start n kv r + i) (tensor_part n r ?q ! i) (tensor_part n r ?k ! i) (tensor_part n r ?v ! i)) [0..<?l]
      = tensor_part n r ?y"
  proof (rule nth_equalityI)
    fix i assume "i < length (map (\<lambda>i. f (part_start n kv r + i) (tensor_part n r ?q ! i) (tensor_part n r ?k ! i)
      (tensor_part n r ?v ! i)) [0..<?l])"
    then have i: "i < ?l" by simp
    have "part_start n kv r + i < kv" using nth_tensor_part(2) [OF i] by simp
    then show "map (\<lambda>i. f (part_start n kv r + i) (tensor_part n r ?q ! i) (tensor_part n r ?k ! i) (tensor_part n r ?v ! i)) [0..<?l] ! i
        = tensor_part n r ?y ! i"
      using i l nth_tensor_part(1) [of i n r ?q] nth_tensor_part(1) [of i n r ?k] nth_tensor_part(1) [of i n r ?v]
        nth_tensor_part(1) [of i n r ?y] by simp
  qed (simp add: l)
  also have "concat (tensor_part n r ?y) = pick (head_positions gd kv n r) (attention_core gd d f q k v)"
    using pick_head_positions [OF len, of n r] by (simp add: core y)
  finally show "attention_core gd d (\<lambda>i. f (part_start n kv r + i)) (pick (head_positions gd kv n r) q) (pick (head_positions d kv n r) k)
      (pick (head_positions d kv n r) v) = pick (head_positions gd kv n r) (attention_core gd d f q k v)" .
qed

text \<open>The shapes of the projections of a layer with \<open>kv\<close> key/value heads.\<close>

definition attention_shapes :: "nat \<Rightarrow> nat \<Rightarrow> nat \<Rightarrow> 'a attention_params \<Rightarrow> bool" where
  "attention_shapes kv gd d p \<longleftrightarrow>
     length (q_weight p) = kv * gd \<and> length (k_weight p) = kv * d \<and> length (v_weight p) = kv * d
     \<and> list_all (\<lambda>row. length row = kv * gd) (o_weight p)
     \<and> bias_ok (q_weight p) (q_bias p) \<and> bias_ok (k_weight p) (k_bias p) \<and> bias_ok (v_weight p) (v_bias p) \<and> bias_ok (o_weight p) (o_bias p)"

lemma rmap_take_heads:
  assumes "0 < k" "list_all (\<lambda>row. length row = h * k) rows"
  shows "rmap (take_positions (split_heads k n r)) rows = Inr (map (pick (head_positions k h n r)) rows)"
  using assms by (intro rmap_total) (auto simp: list_all_iff intro: take_split_heads)

lemma shard_attention_params_ok:
  assumes "get_llama_config m n = Inr cfg" "gqa_head_dims m = Inr (h, kv, d, g)" "0 < d" "0 < g" "attention_shapes kv (g * d) d p"
  shows "shard_attention_params cfg n r p = Inr
    \<lparr>q_weight = pick (head_positions (g * d) kv n r) (q_weight p), q_bias = map_option (pick (head_positions (g * d) kv n r)) (q_bias p),
     k_weight = pick (head_positions d kv n r) (k_weight p), k_bias = map_option (pick (head_positions d kv n r)) (k_bias p),
     v_weight = pick (head_positions d kv n r) (v_weight p), v_bias = map_option (pick (head_positions d kv n r)) (v_bias p),
     o_weight = map (pick (head_positions (g * d) kv n r)) (o_weight p), o_bias = map_option (scale_list n) (o_bias p)\<rparr>"
proof -
  note rules = llama_rules [OF assms(1,2)]
  note shapes = assms(5) [unfolded attention_shapes_def]
  have weights: "shard_matrix cfg n r name w = Inr (pick (head_positions k kv n r) w)"
    "bias_ok w b \<Longrightarrow> shard_bias cfg n r name b = Inr (map_option (pick (head_positions k kv n r)) b)"
    if "first_rule (state_rules cfg) name = Some (Split_Heads 0 k)" "length w = kv * k" "0 < k" for name k and w :: "'a list list" and b
    using that by (auto simp: shard_matrix_def shard_bias_def shard_param_def apply_state_action_def on_axis_def take_split_heads
      bias_ok_def split: option.splits)
  have gd: "0 < g * d" using assms(3,4) by simp
  have "rmap (take_positions (split_heads (g * d) n r)) (o_weight p) = Inr (map (pick (head_positions (g * d) kv n r)) (o_weight p))"
    using shapes by (intro rmap_take_heads [OF gd]) simp
  then have o_weight: "shard_matrix cfg n r ''self_attn.o_proj.weight'' (o_weight p) = Inr (map (pick (head_positions (g * d) kv n r)) (o_weight p))"
    by (simp add: shard_matrix_def shard_param_def rules(7) apply_state_action_def on_axis_def)
  have o_bias: "shard_bias cfg n r ''self_attn.o_proj.bias'' b = Inr (map_option (scale_list n) b)" for b
    by (simp add: shard_bias_def shard_param_def rules(8) apply_state_action_def scale_param_def split: option.splits)
  have lens: "length (q_weight p) = kv * (g * d)" "length (k_weight p) = kv * d" "length (v_weight p) = kv * d"
    and biases: "bias_ok (q_weight p) (q_bias p)" "bias_ok (k_weight p) (k_bias p)" "bias_ok (v_weight p) (v_bias p)"
    using shapes by simp_all
  show ?thesis
    by (simp add: shard_attention_params_def o_weight o_bias weights(1) [OF rules(1) lens(1) gd] weights(2) [OF rules(2) lens(1) gd biases(1)]
      weights(1) [OF rules(3) lens(2) assms(3)] weights(2) [OF rules(4) lens(2) assms(3) biases(2)]
      weights(1) [OF rules(5) lens(3) assms(3)] weights(2) [OF rules(6) lens(3) assms(3) biases(3)])
qed

text \<open>C30. Slicing the attention of a Llama block over devices does not change it: with the configuration of
  \<open>get_llama_config\<close> every rank gets its own heads of the query, key and value projections and the columns of
  the output projection for them, and the sum of what the ranks compute is the output of the whole attention,
  for any kernel of a group of heads, with biases or without.\<close>

theorem sharded_attention_exact:
  assumes "get_llama_config m n = Inr cfg" "gqa_head_dims m = Inr (h, kv, d, g)" "0 < n" "0 < d" "0 < g"
    and "attention_shapes kv (g * d) d p" "\<And>i a b c. length (f i a b c) = g * d"
  shows "\<exists>shards. (\<forall>r<n. shard_attention_params cfg n r p = Inr (shards r))
    \<and> elementwise_sum n (length (o_weight p)) (\<lambda>r. attention (g * d) d (\<lambda>i. f (part_start n kv r + i)) (shards r) x)
      = attention (g * d) d f p x"
proof -
  let ?gd = "g * d"
  let ?q = "nn_linear (q_weight p) (q_bias p) x" and ?k = "nn_linear (k_weight p) (k_bias p) x" and ?v = "nn_linear (v_weight p) (v_bias p) x"
  let ?y = "attention_core ?gd d f ?q ?k ?v" and ?pos = "head_positions ?gd kv n"
  define shards where "shards r = \<lparr>q_weight = pick (?pos r) (q_weight p), q_bias = map_option (pick (?pos r)) (q_bias p),
     k_weight = pick (head_positions d kv n r) (k_weight p), k_bias = map_option (pick (head_positions d kv n r)) (k_bias p),
     v_weight = pick (head_positions d kv n r) (v_weight p), v_bias = map_option (pick (head_positions d kv n r)) (v_bias p),
     o_weight = map (pick (?pos r)) (o_weight p), o_bias = map_option (scale_list n) (o_bias p)\<rparr>" for r
  note shapes = assms(6) [unfolded attention_shapes_def]
  have lens: "length ?q = kv * ?gd" "length ?k = kv * d" "length ?v = kv * d" using shapes by (simp_all add: length_linear)
  note core = attention_core_shards [OF lens assms(4,7)]
  have "attention ?gd d (\<lambda>i. f (part_start n kv r + i)) (shards r) x
      = nn_linear (map (pick (?pos r)) (o_weight p)) (map_option (scale_list n) (o_bias p)) (pick (?pos r) ?y)" for r
  proof -
    have "set (?pos r) \<subseteq> {..<length (q_weight p)}" "set (head_positions d kv n r) \<subseteq> {..<length (k_weight p)}"
      "set (head_positions d kv n r) \<subseteq> {..<length (v_weight p)}" using shapes set_head_positions by metis+
    then show ?thesis using shapes by (simp only: attention_def shards_def attention_params.simps linear_rows) (subst core(2), rule refl)
  qed
  moreover have "elementwise_sum n (length (o_weight p))
      (\<lambda>r. nn_linear (map (pick (?pos r)) (o_weight p)) (map_option (scale_list n) (o_bias p)) (pick (?pos r) ?y))
    = nn_linear (o_weight p) (o_bias p) ?y"
    using shapes core(1) all_head_positions [OF assms(3), of ?gd kv] assms(3)
    by (intro linear_columns) (auto simp: list_all_iff)
  ultimately show ?thesis
    using shard_attention_params_ok [OF assms(1,2,4-6)]
    by (intro exI [of _ shards]) (simp add: shards_def attention_def)
qed

record 'a mlp_params =
  gate_weight :: "'a list list"
  gate_bias :: "'a list option"
  up_weight :: "'a list list"
  up_bias :: "'a list option"
  down_weight :: "'a list list"
  down_bias :: "'a list option"

text \<open>\<open>down(act(gate(x)) * up(x))\<close>, with any function of the two inner values.\<close>

definition gated_mlp :: "('a \<Rightarrow> 'a \<Rightarrow> 'a) \<Rightarrow> 'a::field_char_0 mlp_params \<Rightarrow> 'a list \<Rightarrow> 'a list" where
  "gated_mlp h p x =
     nn_linear (down_weight p) (down_bias p) (map2 h (nn_linear (gate_weight p) (gate_bias p) x) (nn_linear (up_weight p) (up_bias p) x))"

definition shard_mlp_params :: "tp_config \<Rightarrow> nat \<Rightarrow> nat \<Rightarrow> 'a::field_char_0 mlp_params \<Rightarrow> 'a mlp_params res" where
  "shard_mlp_params cfg n r p =
     rbind (shard_matrix cfg n r ''mlp.gate_proj.weight'' (gate_weight p)) (\<lambda>gw. rbind (shard_bias cfg n r ''mlp.gate_proj.bias'' (gate_bias p)) (\<lambda>gb.
     rbind (shard_matrix cfg n r ''mlp.up_proj.weight'' (up_weight p)) (\<lambda>uw. rbind (shard_bias cfg n r ''mlp.up_proj.bias'' (up_bias p)) (\<lambda>ub.
     rbind (shard_matrix cfg n r ''mlp.down_proj.weight'' (down_weight p)) (\<lambda>dw. rbind (shard_bias cfg n r ''mlp.down_proj.bias'' (down_bias p)) (\<lambda>db.
     Inr \<lparr>gate_weight = gw, gate_bias = gb, up_weight = uw, up_bias = ub, down_weight = dw, down_bias = db\<rparr>))))))"

definition mlp_shapes :: "nat \<Rightarrow> 'a mlp_params \<Rightarrow> bool" where
  "mlp_shapes l p \<longleftrightarrow>
     length (gate_weight p) = l \<and> length (up_weight p) = l \<and> list_all (\<lambda>row. length row = l) (down_weight p)
     \<and> bias_ok (gate_weight p) (gate_bias p) \<and> bias_ok (up_weight p) (up_bias p) \<and> bias_ok (down_weight p) (down_bias p)"

lemma shard_mlp_params_ok:
  assumes "get_llama_config m n = Inr cfg" "gqa_head_dims m = Inr (h, kv, d, g)" "mlp_shapes l p"
  shows "shard_mlp_params cfg n r p = Inr
    \<lparr>gate_weight = pick (tensor_part n r [0..<l]) (gate_weight p), gate_bias = map_option (pick (tensor_part n r [0..<l])) (gate_bias p),
     up_weight = pick (tensor_part n r [0..<l]) (up_weight p), up_bias = map_option (pick (tensor_part n r [0..<l])) (up_bias p),
     down_weight = map (pick (tensor_part n r [0..<l])) (down_weight p), down_bias = map_option (scale_list n) (down_bias p)\<rparr>"
proof -
  note rules = llama_rules [OF assms(1,2)]
  have shapes: "length (gate_weight p) = l" "length (up_weight p) = l" "list_all (\<lambda>row. length row = l) (down_weight p)"
    "bias_ok (gate_weight p) (gate_bias p)" "bias_ok (up_weight p) (up_bias p)"
    using assms(3) by (simp_all add: mlp_shapes_def)
  have weights: "shard_matrix cfg n r name w = Inr (pick (tensor_part n r [0..<l]) w)"
    "bias_ok w b \<Longrightarrow> shard_bias cfg n r name b = Inr (map_option (pick (tensor_part n r [0..<l])) b)"
    if "first_rule (state_rules cfg) name = Some (Split 0)" "length w = l" for name and w :: "'a list list" and b
    using that by (auto simp: shard_matrix_def shard_bias_def shard_param_def apply_state_action_def on_axis_def take_split
      bias_ok_def split: option.splits)
  have "rmap (take_positions (split_positions n r)) (down_weight p) = Inr (map (pick (tensor_part n r [0..<l])) (down_weight p))"
    using shapes(3) by (intro rmap_total) (auto simp: list_all_iff take_split)
  then have down: "shard_matrix cfg n r ''mlp.down_proj.weight'' (down_weight p) = Inr (map (pick (tensor_part n r [0..<l])) (down_weight p))"
    by (simp add: shard_matrix_def shard_param_def rules(13) apply_state_action_def on_axis_def)
  have down_bias: "shard_bias cfg n r ''mlp.down_proj.bias'' b = Inr (map_option (scale_list n) b)" for b
    by (simp add: shard_bias_def shard_param_def rules(14) apply_state_action_def scale_param_def split: option.splits)
  show ?thesis
    by (simp add: shard_mlp_params_def down down_bias weights(1) [OF rules(9) shapes(1)] weights(2) [OF rules(10) shapes(1,4)]
      weights(1) [OF rules(11) shapes(2)] weights(2) [OF rules(12) shapes(2,5)])
qed

text \<open>C31. Slicing the multilayer perceptron of a Llama block does not change it: every rank gets a part of the inner
  units, and the sum of what the ranks compute is the output of the whole layer, whatever the number of units
  and the activation.\<close>

theorem sharded_mlp_exact:
  assumes "get_llama_config m n = Inr cfg" "gqa_head_dims m = Inr (h, kv, d, g)" "0 < n" "mlp_shapes l p"
  shows "\<exists>shards. (\<forall>r<n. shard_mlp_params cfg n r p = Inr (shards r))
    \<and> elementwise_sum n (length (down_weight p)) (\<lambda>r. gated_mlp act (shards r) x) = gated_mlp act p x"
proof -
  let ?pos = "\<lambda>r. tensor_part n r [0..<l]"
  let ?gate = "nn_linear (gate_weight p) (gate_bias p) x" and ?up = "nn_linear (up_weight p) (up_bias p) x"
  define shards where "shards r =
    \<lparr>gate_weight = pick (?pos r) (gate_weight p), gate_bias = map_option (pick (?pos r)) (gate_bias p),
     up_weight = pick (?pos r) (up_weight p), up_bias = map_option (pick (?pos r)) (up_bias p),
     down_weight = map (pick (?pos r)) (down_weight p), down_bias = map_option (scale_list n) (down_bias p)\<rparr>" for r
  have shapes: "length (gate_weight p) = l" "length (up_weight p) = l" "list_all (\<lambda>row. length row = l) (down_weight p)"
    "bias_ok (gate_weight p) (gate_bias p)" "bias_ok (up_weight p) (up_bias p)" "bias_ok (down_weight p) (down_bias p)"
    using assms(4) by (simp_all add: mlp_shapes_def)
  have lens: "length ?gate = l" "length ?up = l" using shapes by (simp_all add: length_linear)
  have within: "set (?pos r) \<subseteq> {..<l}" for r using set_tensor_part [of n r "[0..<l]"] by auto
  have "gated_mlp act (shards r) x = nn_linear (map (pick (?pos r)) (down_weight p)) (map_option (scale_list n) (down_bias p))
      (pick (?pos r) (map2 act ?gate ?up))" for r
    using within [of r] shapes lens by (simp add: gated_mlp_def shards_def linear_rows pick_map2)
  moreover have "elementwise_sum n (length (down_weight p))
      (\<lambda>r. nn_linear (map (pick (?pos r)) (down_weight p)) (map_option (scale_list n) (down_bias p)) (pick (?pos r) (map2 act ?gate ?up)))
    = nn_linear (down_weight p) (down_bias p) (map2 act ?gate ?up)"
    using shapes lens all_part_positions [OF assms(3), of l] assms(3) by (intro linear_columns) (auto simp: list_all_iff)
  ultimately show ?thesis
    using shard_mlp_params_ok [OF assms(1,2,4)] by (intro exI [of _ shards]) (simp add: shards_def gated_mlp_def)
qed

section \<open>Counting heads\<close>

text \<open>Slicing a model whose attention keeps the number of its heads in its output features is always refused: with at
  least two devices the count over the shards is too high, and \<open>make_tensor_parallel\<close> raises \<open>AssertionError\<close>.\<close>

theorem sliced_llama_refused:
  assumes "get_llama_config m n = Inr cfg" "1 < n" "am_num_heads a = None" "am_head_dim a = Some d"
    "am_q_proj a = Some (tm_heads m * d)" "0 < d" "0 < tm_heads m"
  shows "check_heads m cfg n name a = Inl AssertionError"
proof -
  obtain h kv hd' g where "gqa_head_dims m = Inr (h, kv, hd', g)"
    using assms(1) by (auto simp: get_llama_config_def res_simps)
  then have "attr_rules cfg = []" by (rule llama_rules(15) [OF assms(1)])
  then have "rbind (shard_attention cfg n r name a) (\<lambda>b. get_num_attention_heads b (tm_config m)) = Inr (tm_heads m)" for r
    using assms(3-7) by (simp add: shard_attention_def find_matching_actions_def get_num_attention_heads_def int_div_def)
  then have "rmap (\<lambda>r. rbind (shard_attention cfg n r name a) (\<lambda>b. get_num_attention_heads b (tm_config m))) [0..<n] = Inr (map (\<lambda>r. tm_heads m) [0..<n])"
    by (intro rmap_total) simp
  moreover have "sum_list (map (\<lambda>r. tm_heads m) [0..<n]) \<noteq> tm_heads m"
    using assms(2,7) by (simp add: map_replicate_const sum_list_replicate)
  ultimately show ?thesis by (simp add: check_heads_def)
qed

lemma sum_split_num_heads: "0 < n \<Longrightarrow> (\<Sum>r\<leftarrow>[0..<n]. split_num_heads h r n) = h"
proof -
  assume n: "0 < n"
  have "length (concat (tensor_split n [0..<h])) = h" using concat_tensor_split [OF n, of "[0..<h]"] by simp
  then show ?thesis by (simp add: length_concat tensor_split_def comp_def split_num_heads_def)
qed

text \<open>A sliced Bloom block, whose attention has an attribute for the number of its heads, is accepted.\<close>

theorem sliced_bloom_accepted:
  assumes "get_bloom_config m n = Inr cfg" "0 < n" "am_num_heads a = Some (tm_heads m)"
  shows "check_heads m cfg n ''self_attention'' a = Inr ()"
proof -
  have "rbind (shard_attention cfg n r ''self_attention'' a) (\<lambda>b. get_num_attention_heads b (tm_config m)) = Inr (split_num_heads (tm_heads m) r n)" for r
    using assms(1,3) by (auto simp: shard_attention_def find_matching_actions_def get_num_attention_heads_def get_bloom_config_def
      res_simps pattern_matches_def ends_with_def)
  then have "rmap (\<lambda>r. rbind (shard_attention cfg n r ''self_attention'' a) (\<lambda>b. get_num_attention_heads b (tm_config m))) [0..<n]
      = Inr (map (\<lambda>r. split_num_heads (tm_heads m) r n) [0..<n])"
    by (intro rmap_total) simp
  then show ?thesis using sum_split_num_heads [OF assms(2)] by (simp add: check_heads_def)
qed

section \<open>Arguments\<close>

fun ordered :: "'a nested \<Rightarrow> 'a nested" where
  "ordered (Leaf x) = Leaf x"
| "ordered (Items ts) = Items (map ordered ts)"
| "ordered (Entries kts) = Entries (in_key_order (map (\<lambda>(k, t). (k, ordered t)) kts))"

lemma insort_key_map: "(\<And>x. f (g x) = f' x) \<Longrightarrow> insort_key f (g x) (map g xs) = map g (insort_key f' x xs)"
  by (induction xs) simp_all

lemma sort_key_map: "(\<And>x. f (g x) = f' x) \<Longrightarrow> sort_key f (map g xs) = map g (sort_key f' xs)"
  by (induction xs) (simp_all add: insort_key_map)

lemma in_key_order_map: "in_key_order (map (\<lambda>(k, t). (k, g t)) kts) = map (\<lambda>(k, t). (k, g t)) (in_key_order kts)"
  unfolding in_key_order_def by (rule sort_key_map) auto

lemma pack_items_flat:
  assumes "\<And>t rest. t \<in> set ts \<Longrightarrow> nested_pack (map f (nested_flatten t) @ rest) t = Inr (map_nested f (ordered t), rest)"
  shows "pack_items (map f (concat (map nested_flatten ts)) @ rest) ts = Inr (map (\<lambda>t. map_nested f (ordered t)) ts, rest)"
  using assms by (induction ts) auto

lemma nested_pack_flat: "nested_pack (map f (nested_flatten t) @ rest) t = Inr (map_nested f (ordered t), rest)"
proof (induction t arbitrary: rest)
  case (Items ts)
  then show ?case using pack_items_flat [of ts f rest] by (simp add: comp_def)
next
  case (Entries kts)
  let ?ts = "map snd (in_key_order kts)"
  have "nested_pack (map f (nested_flatten t) @ rest) t = Inr (map_nested f (ordered t), rest)" if "t \<in> set ?ts" for t rest
    using Entries.IH that by (auto simp: in_key_order_def)
  from pack_items_flat [of ?ts, OF this]
  have "pack_items (map f (nested_flatten (Entries kts)) @ rest) ?ts = Inr (map (\<lambda>t. map_nested f (ordered t)) ?ts, rest)"
    using in_key_order_map [of nested_flatten kts] by (simp add: in_key_order_def case_prod_unfold comp_def)
  then show ?case using in_key_order_map [of ordered kts]
    by (simp add: case_prod_unfold comp_def zip_map1 zip_map2 zip_same_conv_map)
qed simp

text \<open>Every shard is called with the arguments of the block, moved to its device; only the order of dictionaries is lost.\<close>

theorem replicated_args_same:
  "replicate_args move devices args = Inr (map (\<lambda>d. map_nested (move d) (ordered args)) [0..<devices])"
  unfolding replicate_args_def
  by (rule rmap_total) (simp add: nested_pack_flat [where rest = "[]", simplified])

section \<open>Witnesses\<close>

definition sample_llama :: tp_model where
  "sample_llama =
     \<lparr>tm_config = \<lparr>cfg_head_dim = None, hidden_size = 4, num_attention_heads = 4, cfg_kv_groups = None, cfg_kv_heads = Some 2,
        qk_nope_head_dim = 0, qk_rope_head_dim = 0, mla_v_head_dim = 0, alibi = False, cfg_model_type = ''llama'', softcapping = False\<rparr>,
      tm_new_decoder = False, tm_multi_query = False\<rparr>"

lemma sample_dims: "gqa_head_dims sample_llama = Inr (4, 2, 1, 2)"
  by (simp add: gqa_head_dims_def sample_llama_def or_nat_def attention_head_dim_def int_div_def)

lemma sample_config: "\<exists>cfg. get_llama_config sample_llama 2 = Inr cfg"
  by (simp add: get_llama_config_def sample_dims)

definition sample_attention :: "rat attention_params" where
  "sample_attention =
     \<lparr>q_weight = [[1, 2], [3, 4], [5, 6], [7, 8]], q_bias = None, k_weight = [[1, 0], [0, 1]], k_bias = Some [1, 2],
      v_weight = [[1, 1], [2, 1]], v_bias = None, o_weight = [[1, 2, 3, 4], [4, 3, 2, 1]], o_bias = Some [5, 6]\<rparr>"

theorem sharded_attention_exact_witness:
  "\<exists>cfg shards. shard_attention_params cfg 2 1 sample_attention = Inr (shards 1)
    \<and> elementwise_sum 2 2 (\<lambda>r. attention (2 * 1) 1 (\<lambda>i a b c. [of_nat (part_start 2 2 r + i) + sum_list a, sum_list b * sum_list c]) (shards r) [1, 1])
      = attention (2 * 1) 1 (\<lambda>i a b c. [of_nat i + sum_list a, sum_list b * sum_list c]) sample_attention [1, 1]"
proof -
  let ?f = "\<lambda>i a b c. [of_nat i + sum_list a, sum_list b * sum_list (c :: rat list)]"
  obtain cfg where cfg: "get_llama_config sample_llama 2 = Inr cfg" using sample_config by blast
  have "attention_shapes 2 (2 * 1) 1 sample_attention" by (simp add: attention_shapes_def sample_attention_def bias_ok_def)
  then obtain shards where s: "\<forall>r<2. shard_attention_params cfg 2 r sample_attention = Inr (shards r)"
    "elementwise_sum 2 (length (o_weight sample_attention)) (\<lambda>r. attention (2 * 1) 1 (\<lambda>i. ?f (part_start 2 2 r + i)) (shards r) [1, 1])
      = attention (2 * 1) 1 ?f sample_attention [1, 1]"
    using sharded_attention_exact [OF cfg sample_dims, of sample_attention ?f "[1, 1]"] by auto
  have "length (o_weight sample_attention) = 2" by (simp add: sample_attention_def)
  with s(2) have "elementwise_sum 2 2 (\<lambda>r. attention (2 * 1) 1 (\<lambda>i. ?f (part_start 2 2 r + i)) (shards r) [1, 1])
      = attention (2 * 1) 1 ?f sample_attention [1, 1]" by (simp only:)
  moreover have "shard_attention_params cfg 2 1 sample_attention = Inr (shards 1)" using s(1) by simp
  ultimately show ?thesis by blast
qed

definition sample_mlp :: "rat mlp_params" where
  "sample_mlp = \<lparr>gate_weight = [[1, 2], [3, 4], [5, 6]], gate_bias = None, up_weight = [[1, 0], [0, 1], [1, 1]], up_bias = Some [1, 2, 3],
     down_weight = [[1, 2, 3]], down_bias = Some [4]\<rparr>"

theorem sharded_mlp_exact_witness:
  "\<exists>cfg shards. shard_mlp_params cfg 2 1 sample_mlp = Inr (shards 1)
    \<and> elementwise_sum 2 1 (\<lambda>r. gated_mlp (\<lambda>a b. max 0 a * b) (shards r) [1, 1]) = gated_mlp (\<lambda>a b. max 0 a * b) sample_mlp [1, 1]"
proof -
  obtain cfg where cfg: "get_llama_config sample_llama 2 = Inr cfg" using sample_config by blast
  have "mlp_shapes 3 sample_mlp" by (simp add: mlp_shapes_def sample_mlp_def bias_ok_def)
  then obtain shards where s: "\<forall>r<2. shard_mlp_params cfg 2 r sample_mlp = Inr (shards r)"
    "elementwise_sum 2 (length (down_weight sample_mlp)) (\<lambda>r. gated_mlp (\<lambda>a b. max 0 a * b) (shards r) [1, 1])
      = gated_mlp (\<lambda>a b. max 0 a * b) sample_mlp [1, 1]"
    using sharded_mlp_exact [OF cfg sample_dims _ \<open>mlp_shapes 3 sample_mlp\<close>, of "\<lambda>a b. max 0 a * b" "[1, 1]"] by auto
  have "length (down_weight sample_mlp) = 1" by (simp add: sample_mlp_def)
  with s(2) have "elementwise_sum 2 1 (\<lambda>r. gated_mlp (\<lambda>a b. max 0 a * b) (shards r) [1, 1])
      = gated_mlp (\<lambda>a b. max 0 a * b) sample_mlp [1, 1]" by (simp only:)
  moreover have "shard_mlp_params cfg 2 1 sample_mlp = Inr (shards 1)" using s(1) by simp
  ultimately show ?thesis by blast
qed

theorem sliced_llama_refused_witness:
  "\<exists>cfg. check_heads sample_llama cfg 2 ''self_attn''
     \<lparr>am_num_heads = None, am_head_dim = Some 1, am_q_proj = Some 4, am_query_key_value = None, am_query = None\<rparr> = Inl AssertionError"
proof -
  obtain cfg where cfg: "get_llama_config sample_llama 2 = Inr cfg" using sample_config by blast
  have "check_heads sample_llama cfg 2 ''self_attn''
     \<lparr>am_num_heads = None, am_head_dim = Some 1, am_q_proj = Some 4, am_query_key_value = None, am_query = None\<rparr> = Inl AssertionError"
    by (rule sliced_llama_refused [OF cfg, where d = 1]) (simp_all add: sample_llama_def)
  then show ?thesis by (rule exI [where x = cfg])
qed

end
