(* ===== verification/Spec2Isabelle.thy ===== *)
theory Spec2Isabelle
  imports Block_Selection Memory_Handles Swarm_Session Handler_Correct Block_Functions_Correct Routing_Correct Autograd_Correct
    Join_Token Server_Lifecycle Speculative_Correct Server_Registry Launch Api_Server Disk_Cache Sequence_Manager Collectives_Correct Tensor_Parallel_Correct
begin

text \<open>
  A verification library of DRIFT-LLM (\<open>src/drift\<close>, the Python package under \<open>src/src/drift\<close>).

  The program runs a large language model over a swarm of servers. Each server holds a contiguous
  span of the model's blocks, announces it in a DHT, keeps the keys and values of open sessions in a
  cache shared by its processes, and computes its span for every step a client sends. A client reads
  the announcements, chooses a route over all blocks, and feeds tokens through the chain of servers of
  that route: in inference sessions with positions that may step back, in forward and backward passes
  for training, and in speculative generation with a small local model. Around this there are the
  choice of the blocks a server takes, tensor parallelism inside a server, the life cycle of a server
  process, join tokens, the command line and an HTTP API.

  \<^bold>\<open>Conventions.\<close> Definitions keep the names of the source. An exception is a value of \<open>exn\<close>, a fallible
  function returns \<open>'a res\<close> (\<open>Inl\<close> the exception), and a stateful one returns the new state next to its
  result, also when it raises, so that what a failure leaves behind is part of the model. Python
  integers are \<open>int\<close> (\<open>nat\<close> only for lengths and counts), floats are rationals (\<open>rat\<close>), with infinity
  where the code uses it; strings are ASCII character lists, dictionaries association lists in
  insertion order. What is not under \<open>src/\<close> is an argument: the DHT, the shortest-path library,
  tensor kernels and blocks, random choices, clocks, answers of the operating system. Threads and
  processes are \<open>inductive\<close> step relations over the state they share, one rule per access, and
  properties hold in every interleaving of the steps.

  \<^bold>\<open>Vocabulary.\<close>
  \<open>Drift_Prelude\<close> (errors, slices, dictionaries, metadata values), \<open>Py_Strings\<close> (strings, numerals),
  \<open>Tensors\<close> (shape and elements, writing into a slice).

  \<^bold>\<open>The cache of a server.\<close>
  \<^item> \<open>KV_Cache\<close>: contiguous layouts (\<open>utils/kv_cache.py\<close>, sizes from \<open>utils/misc.py\<close>): descriptors, prefix
    selection, write-back.
  \<^item> \<open>Paged_Pool\<close>: \<open>PagedKVPool\<close> of \<open>server/memory_cache.py\<close>; \<open>Paged_Pool_Correct\<close>: pages stay partitioned between
    free list and block tables, a gather after a scatter is exact, sessions are isolated;
    \<open>Paged_Pool_Reorder\<close>: beam reordering permutes rows, and what a failing reorder loses.
  \<^item> \<open>Memory_Cache\<close>: \<open>MemoryCache\<close>, its counters, pipe and table, as a transition system over handler processes
    and runtime; \<open>Memory_Accounting\<close> and \<open>Memory_Handles\<close>: the counters are what sessions hold, a live session
    always finds its tensors, one process keeps the limit, two can exceed it. \<open>Paged_Admission\<close>: the same
    for pages.
  \<^item> \<open>KV_Store\<close>: the contract between inference and caches as the locale \<open>kv_store\<close> (writing back what extends
    the prefix read gives exactly that). The contiguous cache (\<open>contiguous\<close>) and the paged pool (\<open>paged\<close>)
    interpret it, and from it follows once that steps and chunks do not change a session.

  \<^bold>\<open>The computations of a server.\<close>
  \<^item> \<open>Backend\<close>: \<open>server/backend.py\<close>, inference steps on both caches, chunks, merged steps; \<open>Backend_Correct\<close>: a session
    in any steps and chunks equals one pass.
  \<^item> \<open>Block_Functions\<close>: \<open>server/block_functions.py\<close> and \<open>utils/shared_kv.py\<close>; \<open>Block_Functions_Correct\<close>: the
    chain rule, and the bounds every session keeps, with the negative start positions that break them.
  \<^item> \<open>Span_Session\<close>: the locale \<open>span_blocks\<close> between the request loop and the blocks of a span, interpreted by
    the cached backend (\<open>cached\<close>): a session on a server computes the composition of its blocks.
  \<^item> \<open>Task_Pool\<close>: \<open>server/task_pool.py\<close>, queues between handlers, prioritizer thread and runtime.
  \<^item> \<open>Handler\<close>: \<open>server/handler.py\<close>; \<open>Handler_Correct\<close>: accepted sessions, steps taken once, queues of several
    processes.
  \<^item> \<open>Tensor_Parallel\<close>, \<open>Collectives\<close>: \<open>utils/tensor_parallel\<close> with \<open>utils/convert_block.py\<close>;
    \<open>Tensor_Parallel_Correct\<close>: slices of attention and perceptron sum to the whole layer;
    \<open>Collectives_Correct\<close>: the all-reduce of threads returns the sum.

  \<^bold>\<open>The swarm and the client.\<close>
  \<^item> \<open>Data_Structures\<close> (\<open>data_structures.py\<close>), \<open>Swarm_Dht\<close> (\<open>utils/dht.py\<close>), \<open>Block_Selection\<close>
    (\<open>server/block_selection.py\<close>): announcements, spans, and where a server places its blocks.
  \<^item> \<open>Routing\<close> (\<open>client/routing\<close>) and \<open>Routing_Correct\<close>: the table of servers and both kinds of route; \<open>Sequence_Manager\<close>:
    the manager with its update thread, round-trip times (\<open>utils/ping.py\<close>) and configuration.
  \<^item> \<open>Inference_Session\<close> (\<open>client/inference_session.py\<close>) and \<open>Inference_Session_Correct\<close>; \<open>Swarm_Session\<close> puts that
    client on the servers of \<open>Block_Functions\<close> and \<open>Backend\<close> (\<open>server_net\<close>), which is where client and server meet.
  \<^item> \<open>Autograd\<close> (\<open>client/sequential_autograd.py\<close>, \<open>client/remote_forward_backward.py\<close>) and \<open>Autograd_Correct\<close>: training
    passes with retries.
  \<^item> \<open>Speculative\<close> (\<open>models/llama\<close>) and \<open>Speculative_Correct\<close>: speculative generation is greedy generation.

  \<^bold>\<open>The process.\<close>
  \<^item> \<open>Throughput\<close> (\<open>server/throughput.py\<close>, \<open>server/block_utils.py\<close>, \<open>utils/hardware.py\<close>) and \<open>Server_Setup\<close>: from
    arguments and hardware to the configuration of a server.
  \<^item> \<open>Announcer\<close>, \<open>Server_Lifecycle\<close> (\<open>server/server.py\<close>): the announcing thread in every interleaving, and the loop
    of containers; what the directory holds when a server is gone depends on both.
  \<^item> \<open>Join_Token\<close> (\<open>utils/join_token.py\<close>), \<open>Launch\<close> (\<open>cli\<close>), \<open>Server_Registry\<close> (\<open>utils/server_registry.py\<close>,
    \<open>drift down\<close>), \<open>Disk_Cache\<close> (\<open>utils/disk_cache.py\<close>), \<open>Api_Server\<close> (\<open>api/server.py\<close>).

  \<^bold>\<open>What the theorems show.\<close> The central chain is a refinement from the client down to the tensors: the
  paged and contiguous caches satisfy \<open>kv_store\<close>, hence chunks and steps on one block are exact
  (\<open>cached_session_exact\<close>, \<open>paged_session_exact\<close>), hence a span of blocks is exact in its request loop
  (\<open>server_session_exact\<close>), hence a client on a chain of such servers gets the composition of all blocks
  (\<open>swarm_session_exact\<close>), hence speculative generation returns greedy tokens (\<open>speculative_exact\<close>). These
  assume servers that do not fail; failures are the subject of the training passes, which are exact
  whatever failed and was retried (\<open>training_pass_exact\<close>), and of the theorems that show where the code does
  not recover (\<open>failover_never_recovers\<close>). The other groups are invariants of shared state (memory, pages,
  queues, announcements, streams, the all-reduce), functional correctness and optimality (routes, block
  selection, number of blocks), round trips (announcements, tokens, banner), and theorems that exhibit
  defects on the model: overcommitment by two processes, stalled paged admission, lost goodbyes,
  negative start positions, shared contents of cached files, late events of the all-reduce and others,
  listed as findings.

  \<^bold>\<open>Loops, recursion and fuel.\<close> Structural recursion is \<open>fun\<close>. A retry loop may run for ever, as it does in the code
  without a bound on the retries: it is a \<open>partial_function\<close> into \<open>option\<close>, \<open>None\<close> meaning that it does not return,
  and termination is a theorem where it holds (\<open>training_terminates\<close>, \<open>speculative_exact\<close>). Where a loop is
  bounded by data, a measure proves it total (\<open>chunk_loop\<close>, \<open>grow_row\<close>, \<open>split_rows\<close>, \<open>max_throughput_loop\<close>, the nested
  arguments of \<open>Tensor_Parallel\<close>). No definition has a fuel argument. The balancing loop of
  \<open>should_choose_other_blocks\<close>, the loop of \<open>Server.run\<close> and the polls of \<open>drift down\<close> read random orders and
  answers from a list: for the first two a list that ends stands for a run that is not over, for the
  polls it is those before the deadline.

  \<^bold>\<open>Not modelled.\<close> The blocks themselves (\<open>models/*/block.py\<close>) are parameters with the contract \<open>causal_block\<close>: outputs and
  cache of two calls in a row are those of one. Configurations and client classes of the architectures,
  loading of weights and adapters, quantisation, the transformers generation loop, prompt tuning,
  reachability checks, serialisation, compression and logging are calls into libraries without logic of
  their own; rounding of floats, CUDA streams and devices, and the Windows and macOS branches are left out.
\<close>

end
